(* ===== verification/Prelude.thy ===== *)
theory Prelude
  imports Main "HOL-Library.Multiset" "HOL-Library.List_Lexorder" "HOL-Library.Char_ord"
begin

text \<open>
  Shared vocabulary of the development: Go errors as values (with the wrapping of
  \<^verbatim>\<open>fmt.Errorf("...: %w", err)\<close> kept, so that \<^verbatim>\<open>errors.Is\<close> can be modelled), the
  outcome of a call that may also panic or never return, Go maps and times, and the
  small list lemmas the components share.
\<close>

section \<open>Errors and outcomes\<close>

text \<open>
  Sentinel errors that the code tests for: of go-git with \<^verbatim>\<open>errors.Is\<close>, of the file system
  with \<^verbatim>\<open>os.IsExist\<close> and \<^verbatim>\<open>os.IsNotExist\<close>.
\<close>

datatype sentinel = NonFastForwardUpdate | EmptyCommit | FileExists | FileNotExist

datatype go_error =
    Errorf string
  | Wrapped string go_error
  | Sentinel sentinel

fun sentinel_text :: "sentinel \<Rightarrow> string" where
  "sentinel_text NonFastForwardUpdate = ''non-fast-forward update''"
| "sentinel_text EmptyCommit = ''cannot create empty commit: clean working tree''"
| "sentinel_text FileExists = ''file exists''"
| "sentinel_text FileNotExist = ''no such file or directory''"

text \<open>\<^verbatim>\<open>err.Error()\<close>; \<open>Wrapped p e\<close> is \<^verbatim>\<open>fmt.Errorf(p + ": %w", e)\<close>.\<close>

fun error_text :: "go_error \<Rightarrow> string" where
  "error_text (Errorf s) = s"
| "error_text (Wrapped p e) = p @ '': '' @ error_text e"
| "error_text (Sentinel s) = sentinel_text s"

fun errors_is :: "go_error \<Rightarrow> sentinel \<Rightarrow> bool" where
  "errors_is (Errorf s) t = False"
| "errors_is (Wrapped p e) t = errors_is e t"
| "errors_is (Sentinel s) t = (s = t)"

type_synonym 'a result = "go_error + 'a"

text \<open>
  A call may also end outside its declared results: a run-time panic unwinds the caller,
  and a loop that follows a remote server need not end. Both are values here.
\<close>

datatype abort = Panic string | Hang

datatype 'a outcome = Ok 'a | Fail go_error | Abort abort

definition of_result :: "'a result \<Rightarrow> 'a outcome" where
  "of_result r = (case r of Inl e \<Rightarrow> Fail e | Inr a \<Rightarrow> Ok a)"

definition obind :: "'a outcome \<Rightarrow> ('a \<Rightarrow> 'b outcome) \<Rightarrow> 'b outcome" where
  "obind m f = (case m of Ok a \<Rightarrow> f a | Fail e \<Rightarrow> Fail e | Abort a \<Rightarrow> Abort a)"

definition rbind :: "'a result \<Rightarrow> ('a \<Rightarrow> 'b result) \<Rightarrow> 'b result" where
  "rbind m f = (case m of Inl e \<Rightarrow> Inl e | Inr a \<Rightarrow> f a)"

definition wrap_err :: "string \<Rightarrow> 'a result \<Rightarrow> 'a result" where
  "wrap_err p m = (case m of Inl e \<Rightarrow> Inl (Wrapped p e) | Inr a \<Rightarrow> Inr a)"

text \<open>Facts that turn "this composed call succeeded" into facts about its parts.\<close>

named_theorems result_iff \<open>success of a composed call as a conjunction of successes\<close>

lemma of_result_simps [simp]:
  "of_result (Inl e) = Fail e"
  "of_result (Inr a) = Ok a"
  by (simp_all add: of_result_def)

lemma of_result_Ok [result_iff]: "of_result r = Ok a \<longleftrightarrow> r = Inr a"
  by (cases r) auto

lemma of_result_Abort [simp]: "of_result r \<noteq> Abort a"
  by (cases r) auto

lemma obind_simps [simp]:
  "obind (Ok a) f = f a"
  "obind (Fail e) f = Fail e"
  "obind (Abort x) f = Abort x"
  by (simp_all add: obind_def)

lemma obind_Ok [result_iff]: "obind m f = Ok b \<longleftrightarrow> (\<exists>a. m = Ok a \<and> f a = Ok b)"
  by (cases m) auto

lemma rbind_simps [simp]:
  "rbind (Inl e) f = Inl e"
  "rbind (Inr a) f = f a"
  by (simp_all add: rbind_def)

lemma rbind_Inr [result_iff]: "rbind m f = Inr b \<longleftrightarrow> (\<exists>a. m = Inr a \<and> f a = Inr b)"
  by (cases m) auto

lemma wrap_err_simps [simp]:
  "wrap_err p (Inl e) = Inl (Wrapped p e)"
  "wrap_err p (Inr a) = Inr a"
  by (simp_all add: wrap_err_def)

lemma wrap_err_Inr [result_iff]: "wrap_err p m = Inr b \<longleftrightarrow> m = Inr b"
  by (cases m) auto

section \<open>Maps, times and durations\<close>

text \<open>
  A \<^verbatim>\<open>map[string]string\<close> is a partial function; \<open>gomap_get\<close> is Go's read \<^verbatim>\<open>m[k]\<close>, which
  gives the empty string for a missing key.
\<close>

type_synonym strmap = "string \<rightharpoonup> string"

definition gomap_get :: "strmap \<Rightarrow> string \<Rightarrow> string" where
  "gomap_get m k = (case m k of None \<Rightarrow> '''' | Some v \<Rightarrow> v)"

text \<open>
  Instants are nanoseconds since the zero \<^verbatim>\<open>time.Time\<close> (so \<open>IsZero\<close> is \<open>t = 0\<close>);
  durations are signed 64-bit nanosecond counts.
\<close>

type_synonym time = int
type_synonym duration = int

definition wrap64 :: "int \<Rightarrow> int" where
  "wrap64 x = (x + 2 ^ 63) mod 2 ^ 64 - 2 ^ 63"

definition max_duration :: duration where "max_duration = 2 ^ 63 - 1"
definition min_duration :: duration where "min_duration = - (2 ^ 63)"

text \<open>\<^verbatim>\<open>t.Sub(u)\<close> saturates; \<^verbatim>\<open>time.Since(t)\<close> is \<^verbatim>\<open>time.Now().Sub(t)\<close>.\<close>

definition time_sub :: "time \<Rightarrow> time \<Rightarrow> duration" where
  "time_sub t u = max min_duration (min max_duration (t - u))"

definition second :: duration where "second = 1000000000"
definition minute :: duration where "minute = 60 * second"

lemma wrap64_id: "- (2 ^ 63) \<le> x \<Longrightarrow> x < 2 ^ 63 \<Longrightarrow> wrap64 x = x"
  by (simp add: wrap64_def)

lemma wrap64_range: "- (2 ^ 63) \<le> wrap64 x \<and> wrap64 x < 2 ^ 63"
  by (simp add: wrap64_def)

lemma time_sub_le_iff: "d < max_duration \<Longrightarrow> min_duration \<le> d \<Longrightarrow> time_sub t u \<le> d \<longleftrightarrow> t - u \<le> d"
  by (auto simp: time_sub_def)

lemma option_eqI: "(\<And>x. a = Some x \<longleftrightarrow> b = Some x) \<Longrightarrow> a = b"
  by (cases a; cases b) auto

section \<open>Lists\<close>

lemma mset_eq_permuteD: "mset xs = mset ys \<Longrightarrow> set xs = set ys"
  by (metis set_mset_mset)

lemma sorted_wrt_hd_le:
  "sorted_wrt P xs \<Longrightarrow> x \<in> set xs \<Longrightarrow> x \<noteq> hd xs \<Longrightarrow> P (hd xs) x"
  by (cases xs) auto

text \<open>A list that is strictly sorted is determined by its elements.\<close>

lemma sorted_wrt_unique:
  assumes asym: "\<And>x y. P x y \<Longrightarrow> \<not> P y x"
  shows "sorted_wrt P xs \<Longrightarrow> sorted_wrt P ys \<Longrightarrow> mset xs = mset ys \<Longrightarrow> xs = ys"
proof (induction xs arbitrary: ys)
  case Nil
  then show ?case by simp
next
  case (Cons x xs)
  then obtain y ys' where ys: "ys = y # ys'" by (cases ys) auto
  have "x = y"
  proof (rule ccontr)
    assume ne: "x \<noteq> y"
    have sets: "set (x # xs) = set (y # ys')"
      using mset_eq_permuteD [OF Cons.prems(3)] ys by simp
    with ne have "y \<in> set xs" and "x \<in> set ys'" by auto
    with Cons.prems ys have "P x y" and "P y x" by auto
    with asym show False by blast
  qed
  with Cons ys show ?case by simp
qed

lemma distinct_map_permute: "mset xs = mset ys \<Longrightarrow> distinct (map f xs) \<longleftrightarrow> distinct (map f ys)"
  by (rule mset_eq_imp_distinct_iff) simp

lemma sorted_key_strict:
  fixes f :: "'a \<Rightarrow> nat"
  assumes "sorted_wrt (\<lambda>a b. f b \<le> f a) xs" and "distinct (map f xs)"
  shows "sorted_wrt (\<lambda>a b. f b < f a) xs"
  using assms by (induction xs) (force simp: le_less image_iff)+

end
