(* ===== verification/Api.thy ===== *)
theory Api
  imports Go_Strings
begin

text \<open>
  The TagUpdater custom resource (\<^verbatim>\<open>api/v1alpha1/tagupdater_types.go\<close>): one record per Go
  struct, with the struct's field order. A pointer that may be nil is an option; a
  \<^verbatim>\<open>map[string]string\<close> that is marshalled is an association list with distinct keys.
\<close>

section \<open>Specification types\<close>

definition SourceTypeGit :: string where "SourceTypeGit = ''git''"
definition SourceTypeOCI :: string where "SourceTypeOCI = ''oci''"
definition SourceTypeNix :: string where "SourceTypeNix = ''nix''"

record source_spec =
  digest_auth_realm :: string
  resolve_digest :: bool
  digest_repo :: string
  source_type :: string
  source_repo :: string
  tag_pattern :: string
  image_pull_secret_ref :: "string option"

record patch_spec =
  patch_field :: string
  patch_template :: string

record selector_requirement =
  req_key :: string
  req_operator :: string
  req_values :: "string list"

record label_selector =
  match_labels :: "(string \<times> string) list"
  match_expressions :: "selector_requirement list"

record target_spec =
  target_api_version :: string
  target_kind :: string
  target_name :: string
  target_namespace :: string
  target_selector :: "label_selector option"
  target_patches :: "patch_spec list"

record argocd_app_ref =
  app_name :: string
  app_namespace :: string

record rollback_spec =
  rollback_enabled :: bool
  rollback_timeout_spec :: duration

record write_back_spec =
  wb_repo :: string
  wb_branch :: string
  wb_path :: string
  wb_secret_name :: string

record updater_spec =
  spec_source :: source_spec
  spec_targets :: "target_spec list"
  spec_interval :: duration
  spec_write_back :: write_back_spec
  spec_argocd_app :: "argocd_app_ref option"
  spec_managing_app :: "argocd_app_ref option"
  spec_rollback :: "rollback_spec option"

section \<open>Status types\<close>

datatype condition_status = ConditionTrue | ConditionFalse | ConditionUnknown

record condition =
  cond_type :: string
  cond_status :: condition_status
  cond_observed_generation :: int
  cond_transition_time :: time
  cond_reason :: string
  cond_message :: string

record updater_status =
  last_image_digest :: string
  previous_image_digest :: string
  observed_generation :: int
  last_tag :: string
  last_updated :: "time option"
  conditions :: "condition list"
  last_write_commit :: string
  previous_tag :: string
  skipped_tags :: "string list"
  watching_tag :: string
  watching_commit :: string
  watching_armed_at :: "time option"
  watching_since :: "time option"

record tag_updater =
  meta_name :: string
  meta_namespace :: string
  meta_generation :: int
  updater_spec :: updater_spec
  updater_status :: updater_status

definition empty_status :: updater_status where
  "empty_status =
     \<lparr>last_image_digest = '''', previous_image_digest = '''', observed_generation = 0,
      last_tag = '''', last_updated = None, conditions = [], last_write_commit = '''',
      previous_tag = '''', skipped_tags = [], watching_tag = '''', watching_commit = '''',
      watching_armed_at = None, watching_since = None\<rparr>"

end
