(* ===== verification/Slice_Sort.thy ===== *)
theory Slice_Sort
  imports Prelude
begin

text \<open>
  Go's \<^verbatim>\<open>sort.Slice\<close> as an interface. Its documentation promises, for a \<^verbatim>\<open>less\<close> that is a
  strict weak ordering, a permutation of the slice in which no element is \<^verbatim>\<open>less\<close> than an
  earlier one; the sort is not stable. The locale states that promise, the clients'
  lemmas are proved from it alone, and it is interpreted on the insertion sort that
  \<^verbatim>\<open>sort.Slice\<close> runs on slices of at most twelve elements.
\<close>

section \<open>The contract\<close>

definition strict_weak_order_on :: "'a set \<Rightarrow> ('a \<Rightarrow> 'a \<Rightarrow> bool) \<Rightarrow> bool" where
  "strict_weak_order_on A lt \<longleftrightarrow>
     (\<forall>x\<in>A. \<not> lt x x) \<and>
     (\<forall>x\<in>A. \<forall>y\<in>A. \<forall>z\<in>A. lt x y \<longrightarrow> lt y z \<longrightarrow> lt x z) \<and>
     (\<forall>x\<in>A. \<forall>y\<in>A. \<forall>z\<in>A. lt x z \<longrightarrow> lt x y \<or> lt y z)"

lemma swo_asym:
  "strict_weak_order_on A lt \<Longrightarrow> x \<in> A \<Longrightarrow> y \<in> A \<Longrightarrow> lt x y \<Longrightarrow> \<not> lt y x"
  unfolding strict_weak_order_on_def by blast

lemma swo_not_less_trans:
  "strict_weak_order_on A lt \<Longrightarrow> x \<in> A \<Longrightarrow> y \<in> A \<Longrightarrow> z \<in> A \<Longrightarrow>
    \<not> lt y x \<Longrightarrow> \<not> lt z y \<Longrightarrow> \<not> lt z x"
  unfolding strict_weak_order_on_def by blast

text \<open>Ordering by a key of a linear order, as every comparator of the program does.\<close>

lemma swo_key:
  fixes key :: "'a \<Rightarrow> 'b :: linorder"
  shows "(\<And>x y. x \<in> A \<Longrightarrow> y \<in> A \<Longrightarrow> lt x y \<longleftrightarrow> key x > key y) \<Longrightarrow> strict_weak_order_on A lt"
  unfolding strict_weak_order_on_def by (auto intro: less_trans)

locale slice_sort =
  fixes srt :: "('a \<Rightarrow> 'a \<Rightarrow> bool) \<Rightarrow> 'a list \<Rightarrow> 'a list"
  assumes mset_srt: "mset (srt lt xs) = mset xs"
    and sorted_srt: "strict_weak_order_on (set xs) lt \<Longrightarrow>
      sorted_wrt (\<lambda>x y. \<not> lt y x) (srt lt xs)"
begin

lemma set_srt: "set (srt lt xs) = set xs"
  using mset_srt by (rule mset_eq_permuteD)

lemma srt_Nil: "srt lt [] = []"
  using mset_srt [of lt "[]"] by simp

lemma srt_nonempty: "xs \<noteq> [] \<Longrightarrow> srt lt xs \<noteq> []"
  using mset_srt [of lt xs] by auto

lemma hd_srt_in: "xs \<noteq> [] \<Longrightarrow> hd (srt lt xs) \<in> set xs"
  using srt_nonempty set_srt by (metis list.set_sel(1))

text \<open>No element comes strictly before the head of the sorted slice.\<close>

lemma hd_srt_least:
  assumes "strict_weak_order_on (set xs) lt" and "x \<in> set xs"
  shows "\<not> lt x (hd (srt lt xs))"
proof (cases "x = hd (srt lt xs)")
  case True
  then show ?thesis using assms by (auto simp: strict_weak_order_on_def)
next
  case False
  with assms sorted_srt [OF assms(1)] show ?thesis
    using sorted_wrt_hd_le [of "\<lambda>x y. \<not> lt y x" "srt lt xs" x] by (simp add: set_srt)
qed

end

section \<open>The insertion sort of small slices\<close>

text \<open>
  \<^verbatim>\<open>insertionSort_func\<close>: each element moves left past the elements it is \<^verbatim>\<open>less\<close> than,
  stopping at the first it is not. The sorted prefix is kept reversed here, so that its
  last element, the first one compared, is the head.
\<close>

fun sift_left :: "('a \<Rightarrow> 'a \<Rightarrow> bool) \<Rightarrow> 'a \<Rightarrow> 'a list \<Rightarrow> 'a list" where
  "sift_left lt x [] = [x]"
| "sift_left lt x (y # ys) = (if lt x y then y # sift_left lt x ys else x # y # ys)"

definition insertion_sort :: "('a \<Rightarrow> 'a \<Rightarrow> bool) \<Rightarrow> 'a list \<Rightarrow> 'a list" where
  "insertion_sort lt xs = rev (fold (sift_left lt) xs [])"

lemma mset_sift_left: "mset (sift_left lt x ys) = add_mset x (mset ys)"
  by (induction ys) auto

lemma mset_fold_sift: "mset (fold (sift_left lt) xs ys) = mset xs + mset ys"
  by (induction xs arbitrary: ys) (auto simp: mset_sift_left)

lemma set_sift_left: "set (sift_left lt x ys) = insert x (set ys)"
  using mset_sift_left [of lt x ys] by (metis set_mset_add_mset_insert set_mset_mset)

lemma sorted_sift_left:
  assumes "strict_weak_order_on A lt" and "x \<in> A" and "set ys \<subseteq> A"
    and "sorted_wrt (\<lambda>x y. \<not> lt x y) ys"
  shows "sorted_wrt (\<lambda>x y. \<not> lt x y) (sift_left lt x ys)"
  using assms(3,4)
proof (induction ys)
  case Nil
  then show ?case by simp
next
  case (Cons y ys)
  show ?case
  proof (cases "lt x y")
    case True
    with assms(1,2) Cons.prems have "\<not> lt y x" by (auto dest: swo_asym)
    with True Cons show ?thesis by (simp add: set_sift_left)
  next
    case False
    have "\<not> lt x z" if "z \<in> set ys" for z
      using swo_not_less_trans [OF assms(1), of z y x] that False Cons.prems assms(2) by auto
    with False Cons.prems show ?thesis by simp
  qed
qed

lemma sorted_fold_sift:
  assumes "strict_weak_order_on A lt" and "set xs \<subseteq> A" and "set ys \<subseteq> A"
    and "sorted_wrt (\<lambda>x y. \<not> lt x y) ys"
  shows "sorted_wrt (\<lambda>x y. \<not> lt x y) (fold (sift_left lt) xs ys)"
  using assms(2-4)
  by (induction xs arbitrary: ys) (auto simp: set_sift_left sorted_sift_left [OF assms(1)])

interpretation small: slice_sort insertion_sort
proof unfold_locales
  show "mset (insertion_sort lt xs) = mset xs" for lt :: "'a \<Rightarrow> 'a \<Rightarrow> bool" and xs
    by (simp add: insertion_sort_def mset_fold_sift)
  show "sorted_wrt (\<lambda>x y. \<not> lt y x) (insertion_sort lt xs)"
    if "strict_weak_order_on (set xs) lt" for lt :: "'a \<Rightarrow> 'a \<Rightarrow> bool" and xs
    using sorted_fold_sift [OF that, of xs "[]"]
    by (simp add: insertion_sort_def sorted_wrt_rev)
qed

end
