(* ===== verification/Matcher.thy ===== *)
theory Matcher
  imports Slice_Sort Go_Strings
begin

text \<open>
  \<^verbatim>\<open>internal/matcher\<close>: matching tags against a named-group pattern and choosing the
  latest one. Go's \<^verbatim>\<open>regexp\<close> engine is a parameter: a compiled pattern is its list of
  group names and its \<^verbatim>\<open>FindStringSubmatch\<close>, and \<open>regexp_ok\<close> states what the package
  documents of them.
\<close>

section \<open>Compiled patterns\<close>

record regexp =
  subexp_names :: "string list"
  find_submatch :: "string \<Rightarrow> string list option"

type_synonym regexp_compile = "string \<Rightarrow> regexp result"

definition regexp_ok :: "regexp \<Rightarrow> bool" where
  "regexp_ok re \<longleftrightarrow> (\<forall>s sub. find_submatch re s = Some sub \<longrightarrow> length sub = length (subexp_names re))"

record match =
  match_tag :: string
  captures :: strmap

definition matcher_new :: "regexp_compile \<Rightarrow> string \<Rightarrow> regexp result" where
  "matcher_new compile pattern =
     wrap_err (''compile tagPattern '' @ go_quote pattern) (compile pattern)"

section \<open>All and Latest\<close>

text \<open>\<^verbatim>\<open>for i, name := range names { if name != "" { captures[name] = sub[i] } }\<close>\<close>

fun collect_captures :: "string list \<Rightarrow> string list \<Rightarrow> strmap \<Rightarrow> strmap" where
  "collect_captures (name # names) (s # sub) m =
     collect_captures names sub (if name \<noteq> '''' then m(name \<mapsto> s) else m)"
| "collect_captures _ _ m = m"

definition match_all :: "regexp \<Rightarrow> string list \<Rightarrow> match list" where
  "match_all re tags =
     concat (map (\<lambda>tag.
       case find_submatch re tag of
         None \<Rightarrow> []
       | Some sub \<Rightarrow>
           [\<lparr>match_tag = tag,
             captures = collect_captures (subexp_names re) sub Map.empty\<rparr>]) tags)"

definition build_number :: "match \<Rightarrow> int option" where
  "build_number m = atoi (gomap_get (captures m) ''n'')"

definition latest_less :: "match \<Rightarrow> match \<Rightarrow> bool" where
  "latest_less a b =
     (case (build_number a, build_number b) of
        (Some ni, Some nj) \<Rightarrow> nj < ni
      | _ \<Rightarrow> match_tag b < match_tag a)"

type_synonym match_sort = "(match \<Rightarrow> match \<Rightarrow> bool) \<Rightarrow> match list \<Rightarrow> match list"

definition latest :: "match_sort \<Rightarrow> regexp \<Rightarrow> string list \<Rightarrow> match option" where
  "latest srt re tags =
     (let matches = match_all re tags
      in if matches = [] then None else Some (hd (srt latest_less matches)))"

section \<open>What a match is\<close>

lemma match_all_set:
  "set (match_all re tags) =
     {\<lparr>match_tag = tag, captures = collect_captures (subexp_names re) sub Map.empty\<rparr>
        | tag sub. tag \<in> set tags \<and> find_submatch re tag = Some sub}"
  by (auto simp: match_all_def split: option.splits) (metis option.exhaust)+

lemma match_all_tag: "m \<in> set (match_all re tags) \<Longrightarrow> match_tag m \<in> set tags"
  by (auto simp: match_all_set)

lemma match_all_matches: "m \<in> set (match_all re tags) \<Longrightarrow> find_submatch re (match_tag m) \<noteq> None"
  by (auto simp: match_all_set)

lemma match_all_Nil_iff: "match_all re tags = [] \<longleftrightarrow> (\<forall>tag\<in>set tags. find_submatch re tag = None)"
  by (auto simp: match_all_def split: option.splits)

lemma collect_captures_frame:
  "name \<notin> set names \<Longrightarrow> collect_captures names sub m name = m name"
  by (induction names sub m rule: collect_captures.induct) auto

lemma collect_captures_nth:
  assumes "length sub = length names" and "distinct (filter (\<lambda>n. n \<noteq> '''') names)"
    and "i < length names" and "names ! i \<noteq> ''''"
  shows "collect_captures names sub m (names ! i) = Some (sub ! i)"
  using assms
proof (induction names sub arbitrary: i m rule: list_induct2')
  case (4 name names s sub)
  show ?case
  proof (cases i)
    case 0
    with "4.prems" have "name \<notin> set names" by auto
    with 0 "4.prems" show ?thesis by (simp add: collect_captures_frame)
  next
    case (Suc j)
    with "4.prems" have "distinct (filter (\<lambda>n. n \<noteq> '''') names)" by (simp split: if_splits)
    with Suc "4.prems" "4.IH" show ?thesis by simp
  qed
qed simp_all

lemma latest_None_iff: "latest srt re tags = None \<longleftrightarrow> match_all re tags = []"
  by (simp add: latest_def Let_def)

lemma latest_Some:
  "latest srt re tags = Some m \<longleftrightarrow>
     match_all re tags \<noteq> [] \<and> m = hd (srt latest_less (match_all re tags))"
  by (auto simp: latest_def Let_def)

section \<open>When the comparator is a strict weak order\<close>

text \<open>
  \<open>latest_less\<close> compares build numbers when both sides have one and tags otherwise. It
  is a strict weak order on matches that all have a build number, and on matches none of
  which has; a mixture can make it cyclic (\<open>latest_less_cycle\<close> below).
\<close>

lemma swo_all_numbered:
  assumes "\<forall>m\<in>A. build_number m \<noteq> None"
  shows "strict_weak_order_on A latest_less"
  by (rule swo_key [where key = "\<lambda>m. the (build_number m)"])
    (use assms in \<open>auto simp: latest_less_def split: option.splits\<close>)

lemma swo_none_numbered:
  assumes "\<forall>m\<in>A. build_number m = None"
  shows "strict_weak_order_on A latest_less"
  by (rule swo_key [where key = match_tag]) (use assms in \<open>auto simp: latest_less_def\<close>)

context slice_sort
begin

text \<open>Clients of the sort: the element picked as the latest.\<close>

lemma pick_numbered:
  assumes "A \<noteq> []" and "strict_weak_order_on (set A) lt"
  shows "hd (srt lt A) \<in> set A \<and> (\<forall>x\<in>set A. \<not> lt x (hd (srt lt A)))"
  using assms hd_srt_in hd_srt_least by blast

end

lemma latest_in:
  assumes "slice_sort srt" and "latest srt re tags = Some m"
  shows "m \<in> set (match_all re tags)"
  using slice_sort.hd_srt_in [OF assms(1)] assms(2) by (auto simp: latest_Some)

lemma latest_minimal:
  assumes "slice_sort srt" and "latest srt re tags = Some m"
    and "strict_weak_order_on (set (match_all re tags)) latest_less"
    and "x \<in> set (match_all re tags)"
  shows "\<not> latest_less x m"
  using slice_sort.pick_numbered [OF assms(1) _ assms(3)] assms(2,4) by (auto simp: latest_Some)

section \<open>Properties\<close>

text \<open>
  A selected tag is one of the listed tags, matches the pattern, and carries exactly the
  pattern's named groups: each non-empty group name is bound to the text of its group.
\<close>

theorem latest_sound:
  assumes "slice_sort srt" and "latest srt re tags = Some m"
  shows "match_tag m \<in> set tags \<and>
    (\<exists>sub. find_submatch re (match_tag m) = Some sub \<and>
      captures m = collect_captures (subexp_names re) sub Map.empty \<and>
      (regexp_ok re \<longrightarrow> distinct (filter (\<lambda>n. n \<noteq> '''') (subexp_names re)) \<longrightarrow>
        (\<forall>i < length (subexp_names re). subexp_names re ! i \<noteq> '''' \<longrightarrow>
          captures m (subexp_names re ! i) = Some (sub ! i))))"
proof -
  from latest_in [OF assms] obtain tag sub where t: "tag \<in> set tags"
    and f: "find_submatch re tag = Some sub"
    and m: "m = \<lparr>match_tag = tag, captures = collect_captures (subexp_names re) sub Map.empty\<rparr>"
    by (auto simp: match_all_set)
  have "captures m (subexp_names re ! i) = Some (sub ! i)"
    if "regexp_ok re" and "distinct (filter (\<lambda>n. n \<noteq> '''') (subexp_names re))"
      and "i < length (subexp_names re)" and "subexp_names re ! i \<noteq> ''''" for i
    using collect_captures_nth [of sub "subexp_names re" i] that f m by (simp add: regexp_ok_def)
  with t f m show ?thesis by auto
qed

definition demo_regexp :: regexp where
  "demo_regexp =
     \<lparr>subexp_names = ['''', ''n''],
      find_submatch = (\<lambda>s. case s of [] \<Rightarrow> None | c # r \<Rightarrow> Some [s, r])\<rparr>"

theorem latest_sound_witness:
  "latest insertion_sort demo_regexp [''a2'', ''b10''] \<noteq> None \<and>
   match_tag (the (latest insertion_sort demo_regexp [''a2'', ''b10''])) \<in> {''a2'', ''b10''}"
proof -
  obtain m where m: "latest insertion_sort demo_regexp [''a2'', ''b10''] = Some m"
    by (simp add: latest_def match_all_def demo_regexp_def)
  from latest_sound [OF small.slice_sort_axioms m] show ?thesis by (simp add: m)
qed

text \<open>
  C23. When every matching tag has a build number, the selected tag has the greatest one:
  sorting by the \<open>n\<close> capture picks the newest build whatever the order of the listing.
\<close>

theorem latest_newest_build:
  assumes "slice_sort srt" and "latest srt re tags = Some m"
    and "\<forall>x\<in>set (match_all re tags). build_number x \<noteq> None"
    and "x \<in> set (match_all re tags)"
  shows "the (build_number x) \<le> the (build_number m)"
proof -
  have "\<not> latest_less x m"
    using latest_minimal [OF assms(1,2) swo_all_numbered [OF assms(3)] assms(4)] .
  moreover have "build_number x \<noteq> None" and "build_number m \<noteq> None"
    using assms(3,4) latest_in [OF assms(1,2)] by auto
  ultimately show ?thesis by (auto simp: latest_less_def)
qed

text \<open>
  When no matching tag has a build number, the selected tag is the lexicographically
  greatest one.
\<close>

theorem latest_greatest_tag:
  assumes "slice_sort srt" and "latest srt re tags = Some m"
    and "\<forall>x\<in>set (match_all re tags). build_number x = None"
    and "x \<in> set (match_all re tags)"
  shows "match_tag x \<le> match_tag m"
proof -
  have "\<not> latest_less x m"
    using latest_minimal [OF assms(1,2) swo_none_numbered [OF assms(3)] assms(4)] .
  moreover have "build_number x = None" and "build_number m = None"
    using assms(3,4) latest_in [OF assms(1,2)] by auto
  ultimately show ?thesis by (auto simp: latest_less_def)
qed

text \<open>
  With tags of both kinds the comparator is cyclic, so the selection depends on the order
  in which the source lists the tags: the same three tags, listed in two orders, give two
  different latest tags (on a slice this short \<^verbatim>\<open>sort.Slice\<close> is the insertion sort).
\<close>

theorem latest_depends_on_listing_order:
  "mset [''a2'', ''z1'', ''mx''] = mset [''mx'', ''z1'', ''a2''] \<and>
   map_option match_tag (latest insertion_sort demo_regexp [''a2'', ''z1'', ''mx'']) \<noteq>
   map_option match_tag (latest insertion_sort demo_regexp [''mx'', ''z1'', ''a2''])"
  by code_simp

theorem latest_newest_build_witness:
  "the (build_number \<lparr>match_tag = ''a2'', captures = [''n'' \<mapsto> ''2'']\<rparr>) \<le>
   the (build_number (the (latest insertion_sort demo_regexp [''a2'', ''b10''])))"
proof -
  obtain m where m: "latest insertion_sort demo_regexp [''a2'', ''b10''] = Some m"
    by (simp add: latest_def match_all_def demo_regexp_def)
  let ?x = "\<lparr>match_tag = ''a2'', captures = [''n'' \<mapsto> ''2'']\<rparr>"
  have num: "\<forall>x\<in>set (match_all demo_regexp [''a2'', ''b10'']). build_number x \<noteq> None"
    by code_simp
  have mem: "?x \<in> set (match_all demo_regexp [''a2'', ''b10''])"
    by (simp add: match_all_def demo_regexp_def)
  from latest_newest_build [OF small.slice_sort_axioms m num mem] show ?thesis by (simp add: m)
qed

theorem latest_greatest_tag_witness:
  "''ax'' \<le> match_tag (the (latest insertion_sort demo_regexp [''ax'', ''by'']))"
proof -
  obtain m where m: "latest insertion_sort demo_regexp [''ax'', ''by''] = Some m"
    by (simp add: latest_def match_all_def demo_regexp_def)
  let ?x = "\<lparr>match_tag = ''ax'', captures = [''n'' \<mapsto> ''x'']\<rparr>"
  have num: "\<forall>x\<in>set (match_all demo_regexp [''ax'', ''by'']). build_number x = None"
    by code_simp
  have mem: "?x \<in> set (match_all demo_regexp [''ax'', ''by''])"
    by (simp add: match_all_def demo_regexp_def)
  from latest_greatest_tag [OF small.slice_sort_axioms m num mem] show ?thesis by (simp add: m)
qed

end
