(* ===== verification/Progress.thy ===== *)
theory Progress
  imports Go_Strings "HOL-Library.AList"
begin

text \<open>
  \<^verbatim>\<open>internal/controller/progress.go\<close>: the in-memory reconcile-progress tracker, its
  staleness test, the aggregate health check and the gauge. The Go map is an association
  list; the mutex makes each operation atomic, so an operation is one function on the
  tracker. The operations refine a specification on traces: what a key's staleness is
  after any sequence of operations.
\<close>

section \<open>The tracker\<close>

definition default_stale_multiplier :: int where "default_stale_multiplier = 10"
definition default_stale_floor :: duration where "default_stale_floor = 15 * minute"

record progress_entry =
  first_attempt :: time
  last_success :: time
  entry_interval :: duration

record progress_tracker =
  tracker_entries :: "(string \<times> progress_entry) list"
  tracker_multiplier :: int
  tracker_floor :: duration

definition stale_window :: "progress_tracker \<Rightarrow> duration \<Rightarrow> duration" where
  "stale_window t interval =
     (let multiplier = (if tracker_multiplier t \<le> 0 then default_stale_multiplier
                        else tracker_multiplier t);
          floor = (if tracker_floor t \<le> 0 then default_stale_floor else tracker_floor t);
          window = wrap64 (multiplier * interval)
      in if floor < window then window else floor)"

definition tracker_attempt :: "string \<Rightarrow> duration \<Rightarrow> time \<Rightarrow> progress_tracker \<Rightarrow> progress_tracker" where
  "tracker_attempt key interval now t =
     (let entry = (case map_of (tracker_entries t) key of
                     None \<Rightarrow> \<lparr>first_attempt = now, last_success = 0, entry_interval = 0\<rparr>
                   | Some e \<Rightarrow> e)
      in t\<lparr>tracker_entries :=
             AList.update key (entry\<lparr>entry_interval := interval\<rparr>) (tracker_entries t)\<rparr>)"

definition tracker_success :: "string \<Rightarrow> time \<Rightarrow> progress_tracker \<Rightarrow> progress_tracker" where
  "tracker_success key now t =
     (case map_of (tracker_entries t) key of
        None \<Rightarrow> t
      | Some e \<Rightarrow>
          t\<lparr>tracker_entries := AList.update key (e\<lparr>last_success := now\<rparr>) (tracker_entries t)\<rparr>)"

definition tracker_forget :: "string \<Rightarrow> progress_tracker \<Rightarrow> progress_tracker" where
  "tracker_forget key t = t\<lparr>tracker_entries := AList.delete key (tracker_entries t)\<rparr>"

definition stale_at :: "progress_tracker \<Rightarrow> progress_entry \<Rightarrow> time \<Rightarrow> bool" where
  "stale_at t entry now =
     (let window = stale_window t (entry_interval entry);
          anchor = (if last_success entry = 0 then first_attempt entry else last_success entry)
      in window < time_sub now anchor)"

definition is_stale :: "progress_tracker \<Rightarrow> string \<Rightarrow> time \<Rightarrow> bool" where
  "is_stale t key now =
     (case map_of (tracker_entries t) key of None \<Rightarrow> False | Some e \<Rightarrow> stale_at t e now)"

definition staleness :: "progress_tracker \<Rightarrow> time \<Rightarrow> (string \<times> bool) list" where
  "staleness t now = map (\<lambda>(key, e). (key, stale_at t e now)) (tracker_entries t)"

text \<open>The health check: \<^term>\<open>None\<close> is healthy.\<close>

definition reconcile_progress_healthz :: "progress_tracker \<Rightarrow> time \<Rightarrow> go_error option" where
  "reconcile_progress_healthz t now =
     (let st = staleness t now
      in if st = [] then None
         else if \<exists>(key, stale) \<in> set st. \<not> stale then None
         else Some (Errorf (''all '' @ nat_digits (length st) @
           '' TagUpdater(s) have stale reconcile progress; reconcile pipeline appears frozen'')))"

text \<open>The gauge: one sample per tracked key, 1 when it is stale.\<close>

definition progress_collect :: "progress_tracker \<Rightarrow> time \<Rightarrow> (string \<times> nat) list" where
  "progress_collect t now = map (\<lambda>(key, stale). (key, if stale then 1 else 0)) (staleness t now)"

definition new_tracker :: "int \<Rightarrow> duration \<Rightarrow> progress_tracker" where
  "new_tracker multiplier floor =
     \<lparr>tracker_entries = [], tracker_multiplier = multiplier, tracker_floor = floor\<rparr>"

definition tracker_ok :: "progress_tracker \<Rightarrow> bool" where
  "tracker_ok t \<longleftrightarrow> distinct (map fst (tracker_entries t))"

section \<open>The interface: what a key's entry is after each operation\<close>

text \<open>
  The abstract view of a key is its anchor (the last success, or the first attempt when
  there was none) and its interval. The laws say how each operation changes the view.
\<close>

datatype progress_op = Attempt string duration time | Success string time | Forget string

type_synonym anchor_view = "time option \<times> time \<times> duration"

locale progress_store =
  fixes step :: "progress_op \<Rightarrow> 'st \<Rightarrow> 'st"
    and view :: "'st \<Rightarrow> string \<Rightarrow> anchor_view option"
    and ok :: "'st \<Rightarrow> bool"
  assumes ok_step: "ok s \<Longrightarrow> ok (step op s)"
    and view_attempt: "ok s \<Longrightarrow> view (step (Attempt k i t) s) =
      (view s)(k \<mapsto> (case view s k of None \<Rightarrow> (None, t, i) | Some (suc, f, j) \<Rightarrow> (suc, f, i)))"
    and view_success: "ok s \<Longrightarrow> t \<noteq> 0 \<Longrightarrow> view (step (Success k t) s) =
      (case view s k of None \<Rightarrow> view s | Some (suc, f, i) \<Rightarrow> (view s)(k \<mapsto> (Some t, f, i)))"
    and view_forget: "ok s \<Longrightarrow> view (step (Forget k) s) = (view s)(k := None)"
begin

definition run :: "progress_op list \<Rightarrow> 'st \<Rightarrow> 'st" where
  "run ops s = fold step ops s"

end

text \<open>The specification of a trace: what each operation means for one key.\<close>

fun spec_step :: "string \<Rightarrow> progress_op \<Rightarrow> anchor_view option \<Rightarrow> anchor_view option" where
  "spec_step k (Attempt k' i t) v =
     (if k' \<noteq> k then v
      else Some (case v of None \<Rightarrow> (None, t, i) | Some (suc, f, j) \<Rightarrow> (suc, f, i)))"
| "spec_step k (Success k' t) v =
     (if k' \<noteq> k then v else map_option (\<lambda>(suc, f, i). (Some t, f, i)) v)"
| "spec_step k (Forget k') v = (if k' \<noteq> k then v else None)"

definition spec_view :: "string \<Rightarrow> progress_op list \<Rightarrow> anchor_view option \<Rightarrow> anchor_view option" where
  "spec_view k ops v = fold (spec_step k) ops v"

fun timed :: "progress_op \<Rightarrow> bool" where
  "timed (Success k t) = (t \<noteq> 0)"
| "timed (Attempt k i t) = True"
| "timed (Forget k) = True"

context progress_store
begin

lemma view_step:
  "ok s \<Longrightarrow> timed op \<Longrightarrow> view (step op s) k = spec_step k op (view s k)"
  by (cases op) (auto simp: view_attempt view_success view_forget split: option.splits prod.splits)

lemma view_run:
  "ok s \<Longrightarrow> list_all timed ops \<Longrightarrow> view (run ops s) k = spec_view k ops (view s k)"
  by (induction ops arbitrary: s) (auto simp: run_def spec_view_def view_step ok_step)

lemma ok_run: "ok s \<Longrightarrow> ok (run ops s)"
  by (induction ops arbitrary: s) (auto simp: run_def ok_step)

end

section \<open>The tracker provides the interface\<close>

fun tracker_step :: "progress_op \<Rightarrow> progress_tracker \<Rightarrow> progress_tracker" where
  "tracker_step (Attempt k i t) s = tracker_attempt k i t s"
| "tracker_step (Success k t) s = tracker_success k t s"
| "tracker_step (Forget k) s = tracker_forget k s"

definition entry_view :: "progress_entry \<Rightarrow> anchor_view" where
  "entry_view e =
     (if last_success e = 0 then None else Some (last_success e), first_attempt e, entry_interval e)"

definition tracker_view :: "progress_tracker \<Rightarrow> string \<Rightarrow> anchor_view option" where
  "tracker_view t k = map_option entry_view (map_of (tracker_entries t) k)"

lemma tracker_ok_step: "tracker_ok t \<Longrightarrow> tracker_ok (tracker_step op t)"
  by (cases op)
    (auto simp: tracker_ok_def tracker_attempt_def tracker_success_def tracker_forget_def
      Let_def distinct_update distinct_delete split: option.splits)

interpretation tracker: progress_store tracker_step tracker_view tracker_ok
proof unfold_locales
  show "tracker_ok (tracker_step op s)" if "tracker_ok s" for op s
    using that by (rule tracker_ok_step)
  show "tracker_view (tracker_step (Attempt k i t) s) =
      (tracker_view s)(k \<mapsto> (case tracker_view s k of
          None \<Rightarrow> (None, t, i) | Some (suc, f, j) \<Rightarrow> (suc, f, i)))" for k i t s
    by (auto simp: fun_eq_iff tracker_view_def tracker_attempt_def entry_view_def Let_def
        update_conv' split: option.splits)
  show "tracker_view (tracker_step (Success k t) s) =
      (case tracker_view s k of
         None \<Rightarrow> tracker_view s | Some (suc, f, i) \<Rightarrow> (tracker_view s)(k \<mapsto> (Some t, f, i)))"
    if "t \<noteq> 0" for k t s
    using that by (auto simp: fun_eq_iff tracker_view_def tracker_success_def entry_view_def
        update_conv' split: option.splits)
  show "tracker_view (tracker_step (Forget k) s) = (tracker_view s)(k := None)" for k s
    by (auto simp: fun_eq_iff tracker_view_def tracker_forget_def delete_conv')
qed

lemma tracker_run_params:
  "tracker_multiplier (tracker.run ops t) = tracker_multiplier t"
  "tracker_floor (tracker.run ops t) = tracker_floor t"
proof -
  have step: "tracker_multiplier (tracker_step op t) = tracker_multiplier t"
    "tracker_floor (tracker_step op t) = tracker_floor t" for op t
    by (cases op; simp add: tracker_attempt_def tracker_success_def tracker_forget_def
        Let_def split: option.splits)+
  show "tracker_multiplier (tracker.run ops t) = tracker_multiplier t"
    "tracker_floor (tracker.run ops t) = tracker_floor t"
    by (induction ops arbitrary: t) (auto simp: tracker.run_def step)
qed

lemma stale_window_params:
  "tracker_multiplier s = tracker_multiplier t \<Longrightarrow> tracker_floor s = tracker_floor t \<Longrightarrow>
    stale_window s i = stale_window t i"
  by (simp add: stale_window_def)

definition view_stale :: "progress_tracker \<Rightarrow> anchor_view option \<Rightarrow> time \<Rightarrow> bool" where
  "view_stale t v now =
     (case v of
        None \<Rightarrow> False
      | Some (suc, f, i) \<Rightarrow>
          stale_window t i < time_sub now (case suc of None \<Rightarrow> f | Some s \<Rightarrow> s))"

lemma is_stale_view: "is_stale t k now = view_stale t (tracker_view t k) now"
  by (auto simp: is_stale_def view_stale_def tracker_view_def entry_view_def stale_at_def Let_def
      split: option.splits)

section \<open>Properties\<close>

text \<open>
  C25. After any sequence of attempts, successes and forgets, a key is stale exactly when it is
  tracked and more than its staleness window has passed since its last success, or since
  its first attempt if it never succeeded; operations on other keys do not matter.
\<close>

theorem tracker_refines_trace_spec:
  assumes "list_all timed ops"
  shows "is_stale (tracker.run ops (new_tracker m fl)) key now =
    view_stale (new_tracker m fl) (spec_view key ops None) now"
proof -
  have ok: "tracker_ok (new_tracker m fl)" by (simp add: tracker_ok_def new_tracker_def)
  have v0: "tracker_view (new_tracker m fl) key = None"
    by (simp add: tracker_view_def new_tracker_def)
  have w: "stale_window (tracker.run ops (new_tracker m fl)) i = stale_window (new_tracker m fl) i"
    for i by (rule stale_window_params) (simp_all add: tracker_run_params)
  show ?thesis
    using tracker.view_run [OF ok assms, of key] by (auto simp: is_stale_view v0 view_stale_def w split: option.split)
qed

text \<open>
  C38. The staleness window is the larger of multiplier times interval and the floor, with the
  documented defaults for values that are not positive, whenever the product fits a
  duration; and it is always at least the (positive) floor, so overflow can only shorten it.
\<close>

theorem stale_window_spec:
  shows "(let m = (if tracker_multiplier t \<le> 0 then 10 else tracker_multiplier t);
              fl = (if tracker_floor t \<le> 0 then 15 * minute else tracker_floor t)
          in (- (2 ^ 63) \<le> m * i \<and> m * i < 2 ^ 63 \<longrightarrow> stale_window t i = max (m * i) fl) \<and>
             fl \<le> stale_window t i \<and> 0 < stale_window t i)"
proof -
  have "0 < minute" by (simp add: minute_def second_def)
  then show ?thesis
    by (auto simp: stale_window_def Let_def wrap64_id default_stale_multiplier_def
        default_stale_floor_def max_def)
qed

text \<open>
  The aggregate liveness check fails exactly when at least one updater is tracked and every
  tracked updater is stale; one fresh updater, or an empty tracker, keeps the pod alive.
\<close>

theorem healthz_unhealthy_iff:
  assumes "tracker_ok t"
  shows "reconcile_progress_healthz t now \<noteq> None \<longleftrightarrow>
    (\<exists>k. tracker_view t k \<noteq> None) \<and> (\<forall>k. tracker_view t k \<noteq> None \<longrightarrow> is_stale t k now)"
proof -
  have mem: "(k, e) \<in> set (tracker_entries t) \<longleftrightarrow> map_of (tracker_entries t) k = Some e" for k e
    using assms by (simp add: tracker_ok_def map_of_eq_Some_iff)
  have ne: "tracker_entries t \<noteq> [] \<longleftrightarrow> (\<exists>k. tracker_view t k \<noteq> None)"
    by (cases "tracker_entries t") (auto simp: tracker_view_def)
  have all: "(\<exists>(k, b) \<in> set (staleness t now). \<not> b) \<longleftrightarrow>
      (\<exists>k. tracker_view t k \<noteq> None \<and> \<not> is_stale t k now)"
  proof -
    have "(\<exists>(k, b) \<in> set (staleness t now). \<not> b) \<longleftrightarrow>
        (\<exists>k e. (k, e) \<in> set (tracker_entries t) \<and> \<not> stale_at t e now)"
      by (force simp: staleness_def)
    then show ?thesis by (auto simp: mem tracker_view_def is_stale_def)
  qed
  show ?thesis
    using ne all by (auto simp: reconcile_progress_healthz_def Let_def staleness_def)
qed

theorem tracker_refines_trace_spec_witness:
  "is_stale (tracker.run [Attempt ''ns/a'' minute 5, Success ''ns/a'' 7, Attempt ''ns/b'' minute 9]
      (new_tracker 0 0)) ''ns/a'' (8 + 15 * minute)"
proof -
  let ?ops = "[Attempt ''ns/a'' minute 5, Success ''ns/a'' 7, Attempt ''ns/b'' minute 9]"
  have "list_all timed ?ops" by simp
  from tracker_refines_trace_spec [OF this, of 0 0 "''ns/a''" "8 + 15 * minute"]
  show ?thesis
    by (simp add: spec_view_def view_stale_def stale_window_def new_tracker_def wrap64_def
        default_stale_multiplier_def default_stale_floor_def minute_def second_def time_sub_def
        min_duration_def max_duration_def)
qed

theorem healthz_unhealthy_iff_witness:
  "reconcile_progress_healthz
      (tracker.run [Attempt ''ns/a'' minute 5, Success ''ns/a'' 7] (new_tracker 0 0)) 8 = None"
proof -
  let ?t = "tracker.run [Attempt ''ns/a'' minute 5, Success ''ns/a'' 7] (new_tracker 0 0)"
  have ok: "tracker_ok ?t"
    by (rule tracker.ok_run) (simp add: tracker_ok_def new_tracker_def)
  have "tracker_view ?t ''ns/a'' \<noteq> None \<and> \<not> is_stale ?t ''ns/a'' 8"
    by (simp add: tracker.run_def tracker_view_def tracker_attempt_def tracker_success_def
        new_tracker_def is_stale_def stale_at_def stale_window_def wrap64_def time_sub_def
        default_stale_multiplier_def default_stale_floor_def minute_def second_def
        min_duration_def max_duration_def)
  with healthz_unhealthy_iff [OF ok, of 8] show ?thesis by blast
qed

theorem stale_window_spec_witness:
  "stale_window (new_tracker 20 0) minute = 20 * minute \<and>
   stale_window (new_tracker 0 0) second = 15 * minute"
  using stale_window_spec [of "new_tracker 20 0" minute] stale_window_spec [of "new_tracker 0 0" second]
  by (simp add: new_tracker_def minute_def second_def)

end
