(* ===== verification/Yaml_Node.thy ===== *)
theory Yaml_Node
  imports Api "HOL-Library.AList" "HOL-Library.Word"
begin

unbundle bit_operations_syntax

text \<open>
  \<^verbatim>\<open>internal/writeback/yaml.go\<close>, structure level: the \<^verbatim>\<open>yaml.Node\<close> graph, navigation, target
  matching and \<^verbatim>\<open>setScalar\<close>. Nodes are mutated in place and shared by pointer, so they live
  in an explicit heap; a pointer is an index. The YAML library itself (\<^verbatim>\<open>gopkg.in/yaml.v3\<close>),
  the template engine and the label-selector compiler are parameters.
\<close>

section \<open>Nodes\<close>

datatype ykind = DocumentNode | SequenceNode | MappingNode | ScalarNode | AliasNode

type_synonym yaddr = nat
type_synonym ystyle = "32 word"

definition DoubleQuotedStyle :: ystyle where "DoubleQuotedStyle = 2"
definition SingleQuotedStyle :: ystyle where "SingleQuotedStyle = 4"
definition LiteralStyle :: ystyle where "LiteralStyle = 8"
definition FoldedStyle :: ystyle where "FoldedStyle = 16"

record ynode =
  ykind :: ykind
  ystyle :: ystyle
  ytag :: string
  yvalue :: string
  ycontent :: "yaddr list"
  yline :: nat
  ycolumn :: nat

type_synonym yheap = "ynode list"

text \<open>A node the code builds itself: no style, no source position.\<close>

definition new_node :: "ykind \<Rightarrow> string \<Rightarrow> string \<Rightarrow> ynode" where
  "new_node k tag v =
     \<lparr>ykind = k, ystyle = 0, ytag = tag, yvalue = v, ycontent = [], yline = 0, ycolumn = 0\<rparr>"

text \<open>
  What the decoder guarantees of its heap: children are nodes, and a mapping holds its keys
  and values alternately.
\<close>

definition yheap_ok :: "yheap \<Rightarrow> bool" where
  "yheap_ok h \<longleftrightarrow>
     (\<forall>n\<in>set h. (\<forall>a\<in>set (ycontent n). a < length h) \<and>
        (ykind n = MappingNode \<longrightarrow> even (length (ycontent n))))"

section \<open>Navigation\<close>

fun pair_lookup :: "yheap \<Rightarrow> string \<Rightarrow> yaddr list \<Rightarrow> yaddr option" where
  "pair_lookup h key (k # v # rest) =
     (if yvalue (h ! k) = key then Some v else pair_lookup h key rest)"
| "pair_lookup h key _ = None"

definition map_value :: "yheap \<Rightarrow> yaddr \<Rightarrow> string \<Rightarrow> yaddr option" where
  "map_value h node key =
     (if ykind (h ! node) \<noteq> MappingNode then None
      else pair_lookup h key (ycontent (h ! node)))"

definition scalar_at :: "yheap \<Rightarrow> yaddr \<Rightarrow> string \<Rightarrow> string" where
  "scalar_at h node key =
     (case map_value h node key of
        None \<Rightarrow> ''''
      | Some v \<Rightarrow> if ykind (h ! v) \<noteq> ScalarNode then '''' else yvalue (h ! v))"

definition document_map :: "yheap \<Rightarrow> yaddr \<Rightarrow> yaddr result" where
  "document_map h doc =
     (case ycontent (h ! doc) of
        [root] \<Rightarrow>
          if ykind (h ! doc) = DocumentNode \<and> ykind (h ! root) = MappingNode then Inr root
          else Inl (Errorf ''manifest document must contain a mapping'')
      | _ \<Rightarrow> Inl (Errorf ''manifest document must contain a mapping''))"

section \<open>Target matching\<close>

type_synonym selector_compile = "label_selector \<Rightarrow> (strmap \<Rightarrow> bool) result"

text \<open>
  \<^verbatim>\<open>for i := 0; i < len(labelNode.Content); i += 2 { set[Content[i].Value] = Content[i+1].Value }\<close>;
  the node need not be a mapping, and an odd number of children is an index panic.
\<close>

fun label_set :: "yheap \<Rightarrow> yaddr list \<Rightarrow> strmap \<Rightarrow> strmap outcome" where
  "label_set h [] m = Ok m"
| "label_set h [k] m = Abort (Panic ''index out of range'')"
| "label_set h (k # v # rest) m = label_set h rest (m(yvalue (h ! k) \<mapsto> yvalue (h ! v)))"

definition matches_target ::
    "selector_compile \<Rightarrow> yheap \<Rightarrow> yaddr \<Rightarrow> target_spec \<Rightarrow> bool outcome" where
  "matches_target sel h root target =
     (if scalar_at h root ''apiVersion'' \<noteq> target_api_version target
         \<or> scalar_at h root ''kind'' \<noteq> target_kind target then Ok False
      else case map_value h root ''metadata'' of
        None \<Rightarrow> Ok False
      | Some metadata \<Rightarrow>
          if target_name target \<noteq> '''' \<and> scalar_at h metadata ''name'' \<noteq> target_name target
          then Ok False
          else if target_namespace target \<noteq> ''''
            \<and> scalar_at h metadata ''namespace'' \<noteq> target_namespace target
          then Ok False
          else case target_selector target of
            None \<Rightarrow> Ok (target_name target \<noteq> '''')
          | Some s \<Rightarrow>
              (case sel s of
                 Inl e \<Rightarrow> Fail (Wrapped (''target '' @ target_kind target @ '' selector'') e)
               | Inr p \<Rightarrow>
                   obind
                     (case map_value h metadata ''labels'' of
                        None \<Rightarrow> Ok Map.empty
                      | Some l \<Rightarrow> label_set h (ycontent (h ! l)) Map.empty)
                     (\<lambda>labels. Ok (p labels))))"

section \<open>Setting a scalar\<close>

type_synonym insertions = "(yaddr \<times> yaddr list) list"

definition add_insertion :: "yaddr \<Rightarrow> yaddr list \<Rightarrow> insertions \<Rightarrow> insertions" where
  "add_insertion parent nodes ins =
     AList.update parent
       ((case map_of ins parent of None \<Rightarrow> [] | Some ns \<Rightarrow> ns) @ nodes) ins"

text \<open>
  The key is missing from mapping \<open>parent\<close>: append a key node and a fresh child, and record
  the insertion when the parent has a position in the source.
\<close>

definition insert_child ::
    "yheap \<Rightarrow> insertions \<Rightarrow> yaddr \<Rightarrow> string \<Rightarrow> ynode \<Rightarrow> yaddr \<times> yheap \<times> insertions" where
  "insert_child h ins parent segment child =
     (let key = length h; cur = Suc key; p = h ! parent;
          h' = (h @ [new_node ScalarNode ''!!str'' segment, child])
                 [parent := p\<lparr>ycontent := ycontent p @ [key, cur]\<rparr>]
      in (cur, h', if 0 < yline p then add_insertion parent [key, cur] ins else ins))"

text \<open>
  One path segment (\<open>before\<close> holds the segments already walked, for the messages); the
  result is the node the segment leads to.
\<close>

definition descend ::
    "yheap \<Rightarrow> insertions \<Rightarrow> yaddr \<Rightarrow> string list \<Rightarrow> string \<Rightarrow> bool \<Rightarrow> string
      \<Rightarrow> (yaddr \<times> yheap \<times> insertions) result" where
  "descend h ins cur before segment is_last value =
     (case ykind (h ! cur) of
        MappingNode \<Rightarrow>
          (case map_value h cur segment of
             Some v \<Rightarrow> Inr (v, h, ins)
           | None \<Rightarrow>
               Inr (insert_child h ins cur segment
                 (if is_last then new_node ScalarNode ''!!str'' value
                  else new_node MappingNode ''!!map'' '''')))
      | SequenceNode \<Rightarrow>
          (case atoi segment of
             Some idx \<Rightarrow>
               if 0 \<le> idx \<and> idx < int (length (ycontent (h ! cur)))
               then Inr (ycontent (h ! cur) ! nat idx, h, ins)
               else Inl (Errorf (''path segment '' @ go_quote (str_join ''.'' (before @ [segment]))
                      @ '' is not a valid list index''))
           | None \<Rightarrow> Inl (Errorf (''path segment '' @ go_quote (str_join ''.'' (before @ [segment]))
                      @ '' is not a valid list index'')))
      | _ \<Rightarrow> Inl (Errorf (''path segment '' @ go_quote (str_join ''.'' before)
               @ '' traverses a scalar'')))"

fun set_scalar ::
    "yheap \<Rightarrow> insertions \<Rightarrow> yaddr \<Rightarrow> string list \<Rightarrow> string list \<Rightarrow> string
      \<Rightarrow> (yaddr \<times> yheap \<times> insertions) result" where
  "set_scalar h ins cur before [] value = Inl (Errorf ''empty field path'')"
| "set_scalar h ins cur before [segment] value =
     rbind (descend h ins cur before segment True value) (\<lambda>(n, h', ins').
       if ykind (h' ! n) \<noteq> ScalarNode then Inl (Errorf ''target is not a scalar'')
       else Inr (n, h', ins'))"
| "set_scalar h ins cur before (segment # s2 # path) value =
     rbind (descend h ins cur before segment False value) (\<lambda>(n, h', ins').
       set_scalar h' ins' n (before @ [segment]) (s2 # path) value)"

section \<open>Lookup along a path\<close>

text \<open>The reader's view of a dotted field: the node a path leads to, if any.\<close>

fun node_at :: "yheap \<Rightarrow> yaddr \<Rightarrow> string list \<Rightarrow> yaddr option" where
  "node_at h cur [] = Some cur"
| "node_at h cur (seg # path) =
     (case ykind (h ! cur) of
        MappingNode \<Rightarrow>
          (case map_value h cur seg of None \<Rightarrow> None | Some v \<Rightarrow> node_at h v path)
      | SequenceNode \<Rightarrow>
          (case atoi seg of
             None \<Rightarrow> None
           | Some i \<Rightarrow>
               if 0 \<le> i \<and> i < int (length (ycontent (h ! cur)))
               then node_at h (ycontent (h ! cur) ! nat i) path else None)
      | _ \<Rightarrow> None)"

text \<open>
  How \<open>set_scalar\<close> may change a heap: new nodes are added, and existing mappings get new
  entries at their end; nothing else about an existing node changes.
\<close>

definition heap_ext :: "yheap \<Rightarrow> yheap \<Rightarrow> bool" where
  "heap_ext h h' \<longleftrightarrow> length h \<le> length h' \<and>
     (\<forall>a < length h. \<exists>more.
        h' ! a = (h ! a)\<lparr>ycontent := ycontent (h ! a) @ more\<rparr> \<and>
        (ykind (h ! a) \<noteq> MappingNode \<longrightarrow> more = []))"

lemma heap_ext_refl [simp]: "heap_ext h h"
  by (auto simp: heap_ext_def intro!: exI [of _ "[]"])

lemma heap_extD:
  assumes "heap_ext h h'" and "a < length h"
  obtains more where "h' ! a = (h ! a)\<lparr>ycontent := ycontent (h ! a) @ more\<rparr>"
    and "ykind (h ! a) \<noteq> MappingNode \<longrightarrow> more = []"
  using assms unfolding heap_ext_def by blast

lemma heap_ext_fields:
  assumes "heap_ext h h'" and "a < length h"
  shows "ykind (h' ! a) = ykind (h ! a)" and "yvalue (h' ! a) = yvalue (h ! a)"
    and "yline (h' ! a) = yline (h ! a)"
  using heap_extD [OF assms] by (metis ynode.select_convs ynode.surjective ynode.update_convs)+

lemma heap_ext_trans:
  assumes "heap_ext h h1" and "heap_ext h1 h2"
  shows "heap_ext h h2"
  unfolding heap_ext_def
proof (intro conjI allI impI)
  show "length h \<le> length h2" using assms by (auto simp: heap_ext_def)
  fix a assume a: "a < length h"
  then have a1: "a < length h1" using assms(1) by (auto simp: heap_ext_def)
  obtain m1 where m1: "h1 ! a = (h ! a)\<lparr>ycontent := ycontent (h ! a) @ m1\<rparr>"
    "ykind (h ! a) \<noteq> MappingNode \<longrightarrow> m1 = []"
    using heap_extD [OF assms(1) a] by blast
  obtain m2 where m2: "h2 ! a = (h1 ! a)\<lparr>ycontent := ycontent (h1 ! a) @ m2\<rparr>"
    "ykind (h1 ! a) \<noteq> MappingNode \<longrightarrow> m2 = []"
    using heap_extD [OF assms(2) a1] by blast
  show "\<exists>more. h2 ! a = (h ! a)\<lparr>ycontent := ycontent (h ! a) @ more\<rparr> \<and>
      (ykind (h ! a) \<noteq> MappingNode \<longrightarrow> more = [])"
    by (rule exI [of _ "m1 @ m2"]) (use m1 m2 in auto)
qed

section \<open>Lemmas on navigation\<close>

lemma pair_lookup_SomeD: "pair_lookup h key cs = Some v \<Longrightarrow> v \<in> set cs"
  by (induction h key cs rule: pair_lookup.induct) (auto split: if_splits)

lemma pair_lookup_append_Some:
  "pair_lookup h key cs = Some v \<Longrightarrow> pair_lookup h key (cs @ ds) = Some v"
  by (induction h key cs rule: pair_lookup.induct) (auto split: if_splits)

lemma pair_lookup_append_None:
  "pair_lookup h key cs = None \<Longrightarrow> even (length cs) \<Longrightarrow>
    pair_lookup h key (cs @ ds) = pair_lookup h key ds"
  by (induction h key cs rule: pair_lookup.induct) (auto split: if_splits)

lemma pair_lookup_cong:
  "(\<And>a. a \<in> set cs \<Longrightarrow> yvalue (h' ! a) = yvalue (h ! a)) \<Longrightarrow>
    pair_lookup h' key cs = pair_lookup h key cs"
  by (induction h key cs rule: pair_lookup.induct) auto

lemma yheap_okD:
  assumes "yheap_ok h" and "a < length h"
  shows "\<forall>c\<in>set (ycontent (h ! a)). c < length h"
    and "ykind (h ! a) = MappingNode \<Longrightarrow> even (length (ycontent (h ! a)))"
  using assms by (auto simp: yheap_ok_def)

lemma map_value_less:
  "yheap_ok h \<Longrightarrow> a < length h \<Longrightarrow> map_value h a key = Some v \<Longrightarrow> v < length h"
  by (auto simp: map_value_def dest: pair_lookup_SomeD yheap_okD split: if_splits)

text \<open>A found entry stays found when the heap is extended.\<close>

lemma map_value_ext:
  assumes "heap_ext h h'" and "yheap_ok h" and "a < length h" and "map_value h a key = Some v"
  shows "map_value h' a key = Some v"
proof -
  obtain more where m: "h' ! a = (h ! a)\<lparr>ycontent := ycontent (h ! a) @ more\<rparr>"
    using heap_extD [OF assms(1,3)] by blast
  have k: "ykind (h ! a) = MappingNode" and p: "pair_lookup h key (ycontent (h ! a)) = Some v"
    using assms(4) by (auto simp: map_value_def split: if_splits)
  have "pair_lookup h' key (ycontent (h ! a)) = Some v"
    using p heap_ext_fields(2) [OF assms(1)] yheap_okD(1) [OF assms(2,3)]
    by (subst pair_lookup_cong [of _ h' h]) auto
  then show ?thesis by (simp add: map_value_def m k pair_lookup_append_Some)
qed

lemma node_at_ext:
  assumes "heap_ext h h'" and "yheap_ok h" and "a < length h" and "node_at h a path = Some n"
  shows "node_at h' a path = Some n"
  using assms(3,4)
proof (induction path arbitrary: a)
  case Nil
  then show ?case by simp
next
  case (Cons seg path)
  note f = heap_ext_fields [OF assms(1) Cons.prems(1)]
  show ?case
  proof (cases "ykind (h ! a)")
    case MappingNode
    with Cons.prems obtain v where v: "map_value h a seg = Some v" "node_at h v path = Some n"
      by (auto split: option.splits)
    have "v < length h" using map_value_less [OF assms(2) Cons.prems(1) v(1)] .
    with Cons.IH v(2) map_value_ext [OF assms(1,2) Cons.prems(1) v(1)] MappingNode f
    show ?thesis by simp
  next
    case SequenceNode
    obtain more where "h' ! a = (h ! a)\<lparr>ycontent := ycontent (h ! a) @ more\<rparr>" "more = []"
      using heap_extD [OF assms(1) Cons.prems(1)] SequenceNode by auto
    then have c: "ycontent (h' ! a) = ycontent (h ! a)" by simp
    from Cons.prems SequenceNode obtain i where i: "atoi seg = Some i" "0 \<le> i"
      "i < int (length (ycontent (h ! a)))" "node_at h (ycontent (h ! a) ! nat i) path = Some n"
      by (auto split: option.splits if_splits)
    have "ycontent (h ! a) ! nat i < length h"
      using yheap_okD(1) [OF assms(2) Cons.prems(1)] i(2,3) by (simp add: nat_less_iff)
    with Cons.IH i SequenceNode f c show ?thesis by simp
  qed (use Cons.prems in auto)
qed

section \<open>Lemmas on one step\<close>

lemma insert_child_ext:
  assumes "parent < length h" and "ykind (h ! parent) = MappingNode"
    and "insert_child h ins parent segment child = (cur, h', ins')"
  shows "heap_ext h h'"
  unfolding heap_ext_def
proof (intro conjI allI impI)
  have h': "h' = (h @ [new_node ScalarNode ''!!str'' segment, child])
      [parent := (h ! parent)\<lparr>ycontent := ycontent (h ! parent) @ [length h, Suc (length h)]\<rparr>]"
    using assms(3) by (auto simp: insert_child_def Let_def)
  show "length h \<le> length h'" by (simp add: h')
  fix a assume "a < length h"
  then show "\<exists>more. h' ! a = (h ! a)\<lparr>ycontent := ycontent (h ! a) @ more\<rparr> \<and>
      (ykind (h ! a) \<noteq> MappingNode \<longrightarrow> more = [])"
    using assms(1,2)
    by (intro exI [of _ "if a = parent then [length h, Suc (length h)] else []"])
      (auto simp: h' nth_append nth_list_update)
qed

lemma insert_child_ok:
  assumes "yheap_ok h" and "parent < length h" and "ykind (h ! parent) = MappingNode"
    and "ycontent child = []"
    and "insert_child h ins parent segment child = (cur, h', ins')"
  shows "yheap_ok h'"
proof -
  have h': "h' = (h @ [new_node ScalarNode ''!!str'' segment, child])
      [parent := (h ! parent)\<lparr>ycontent := ycontent (h ! parent) @ [length h, Suc (length h)]\<rparr>]"
    using assms(5) by (auto simp: insert_child_def Let_def)
  have len: "length h' = length h + 2" by (simp add: h')
  have "n \<in> set h \<union> {new_node ScalarNode ''!!str'' segment, child,
      (h ! parent)\<lparr>ycontent := ycontent (h ! parent) @ [length h, Suc (length h)]\<rparr>}"
    if "n \<in> set h'" for n
    using that set_update_subset_insert [of "h @ [new_node ScalarNode ''!!str'' segment, child]"]
    by (fastforce simp: h')
  moreover have "\<forall>a\<in>set (ycontent (h ! parent)). a < length h"
    "even (length (ycontent (h ! parent)))"
    using yheap_okD [OF assms(1,2)] assms(3) by auto
  ultimately show ?thesis
    using assms(1,4) unfolding yheap_ok_def len
    by (fastforce simp: new_node_def)
qed

lemma insert_child_value:
  assumes "yheap_ok h" and "parent < length h" and "ykind (h ! parent) = MappingNode"
    and "map_value h parent segment = None"
    and "insert_child h ins parent segment child = (cur, h', ins')"
  shows "map_value h' parent segment = Some cur" and "cur < length h'" and "h' ! cur = child"
proof -
  have h': "h' = (h @ [new_node ScalarNode ''!!str'' segment, child])
      [parent := (h ! parent)\<lparr>ycontent := ycontent (h ! parent) @ [length h, Suc (length h)]\<rparr>]"
    and cur: "cur = Suc (length h)"
    using assms(5) by (auto simp: insert_child_def Let_def)
  show "cur < length h'" by (simp add: h' cur)
  show "h' ! cur = child" using assms(2) by (simp add: h' cur nth_append)
  have key: "yvalue (h' ! length h) = segment"
    using assms(2) by (simp add: h' nth_append new_node_def)
  have p: "pair_lookup h segment (ycontent (h ! parent)) = None"
    using assms(3,4) by (simp add: map_value_def)
  have "pair_lookup h' segment (ycontent (h ! parent)) = None"
    using p heap_ext_fields(2) [OF insert_child_ext [OF assms(2,3,5)]] yheap_okD(1) [OF assms(1,2)]
    by (subst pair_lookup_cong [of _ h' h]) auto
  then have "pair_lookup h' segment (ycontent (h ! parent) @ [length h, cur]) = Some cur"
    using yheap_okD(2) [OF assms(1,2,3)] by (simp add: pair_lookup_append_None key)
  then show "map_value h' parent segment = Some cur"
    using assms(2,3) by (simp add: map_value_def h' cur)
qed

lemma descend_step:
  assumes "yheap_ok h" and "cur < length h"
    and "descend h ins cur before seg is_last value = Inr (n, h', ins')"
  shows "heap_ext h h'" and "yheap_ok h'" and "n < length h'"
    and "node_at h' cur (seg # path) = node_at h' n path"
proof -
  have "heap_ext h h' \<and> yheap_ok h' \<and> n < length h' \<and>
      node_at h' cur (seg # path) = node_at h' n path"
  proof (cases "ykind (h ! cur)")
    case MappingNode
    show ?thesis
    proof (cases "map_value h cur seg")
      case None
      then obtain child where child: "insert_child h ins cur seg child = (n, h', ins')"
        "ycontent child = []"
        using assms(3) MappingNode
        by (auto simp: descend_def new_node_def split: if_splits)
      note e = insert_child_ext [OF assms(2) MappingNode child(1)]
      from insert_child_value [OF assms(1,2) MappingNode None child(1)] e
        insert_child_ok [OF assms(1,2) MappingNode child(2,1)]
        heap_ext_fields(1) [OF e assms(2)] MappingNode
      show ?thesis by simp
    next
      case (Some v)
      with assms MappingNode have "h' = h" "n = v" by (auto simp: descend_def)
      with Some MappingNode map_value_less [OF assms(1,2) Some] assms(1) show ?thesis by simp
    qed
  next
    case SequenceNode
    with assms(3) have "case atoi seg of None \<Rightarrow> False
      | Some i \<Rightarrow> 0 \<le> i \<and> i < int (length (ycontent (h ! cur))) \<and>
          n = ycontent (h ! cur) ! nat i \<and> h' = h"
      by (cases "atoi seg") (simp_all add: descend_def eq_commute split: if_splits)
    then obtain i where i: "atoi seg = Some i" "0 \<le> i" "i < int (length (ycontent (h ! cur)))"
      "n = ycontent (h ! cur) ! nat i" "h' = h"
      by (cases "atoi seg") simp_all
    have "n < length h"
      using yheap_okD(1) [OF assms(1,2)] i by (simp add: nat_less_iff)
    with i SequenceNode assms(1) show ?thesis by simp
  qed (use assms(3) in \<open>simp_all add: descend_def\<close>)
  then show "heap_ext h h'" and "yheap_ok h'" and "n < length h'"
    and "node_at h' cur (seg # path) = node_at h' n path" by blast+
qed

lemma set_scalar_main:
  assumes "yheap_ok h" and "cur < length h"
    and "set_scalar h ins cur before path value = Inr (n, h', ins')"
  shows "heap_ext h h' \<and> yheap_ok h' \<and> n < length h' \<and> ykind (h' ! n) = ScalarNode \<and>
    node_at h' cur path = Some n"
  using assms
proof (induction h ins cur before path "value" rule: set_scalar.induct)
  case (1 h ins cur before val)
  then show ?case by simp
next
  case (2 h ins cur before seg val)
  then have d: "descend h ins cur before seg True val = Inr (n, h', ins')"
    and k: "ykind (h' ! n) = ScalarNode"
    by (auto simp: result_iff split: if_splits)
  note s = descend_step [OF "2.prems"(1,2) d]
  have "node_at h' cur [seg] = Some n" using s(4) [of "[]"] by simp
  with s(1-3) k show ?case by blast
next
  case (3 h ins cur before seg s2 path val)
  then obtain m h1 ins1 where d: "descend h ins cur before seg False val = Inr (m, h1, ins1)"
    and r: "set_scalar h1 ins1 m (before @ [seg]) (s2 # path) val = Inr (n, h', ins')"
    by (auto simp: result_iff)
  note s = descend_step [OF "3.prems"(1,2) d]
  have IH: "heap_ext h1 h' \<and> yheap_ok h' \<and> n < length h' \<and> ykind (h' ! n) = ScalarNode \<and>
      node_at h' m (s2 # path) = Some n"
    using "3.IH" [OF s(2,3) r] by blast
  have cur1: "cur < length h1" using s(1) "3.prems"(2) by (auto simp: heap_ext_def)
  have step1: "node_at h1 cur [seg] = Some m" using s(4) [of "[]"] by simp
  have "node_at h' cur [seg] = Some m"
    using node_at_ext [OF _ s(2) cur1 step1] IH by blast
  then have "node_at h' cur (seg # s2 # path) = node_at h' m (s2 # path)"
    by (auto split: ykind.splits option.splits if_splits)
  with IH heap_ext_trans [OF s(1)] show ?case by simp
qed

section \<open>Properties\<close>

text \<open>
  C21. When setting a field succeeds, the field's path afterwards leads to a scalar node; every
  path of the manifest that led somewhere still leads to the same node, no existing node
  changes its kind, value or position, and only mappings have gained entries (at their end).
\<close>

theorem set_scalar_correct:
  assumes "yheap_ok h" and "root < length h"
    and "set_scalar h ins root [] path value = Inr (n, h', ins')"
  shows "node_at h' root path = Some n \<and> ykind (h' ! n) = ScalarNode \<and>
    (\<forall>a p m. a < length h \<longrightarrow> node_at h a p = Some m \<longrightarrow> node_at h' a p = Some m) \<and>
    (\<forall>a < length h. ykind (h' ! a) = ykind (h ! a) \<and> yvalue (h' ! a) = yvalue (h ! a) \<and>
      yline (h' ! a) = yline (h ! a) \<and>
      (ykind (h ! a) \<noteq> MappingNode \<longrightarrow> ycontent (h' ! a) = ycontent (h ! a)) \<and>
      (\<exists>more. ycontent (h' ! a) = ycontent (h ! a) @ more))"
proof -
  note m = set_scalar_main [OF assms]
  then have e: "heap_ext h h'" by blast
  have "ykind (h' ! a) = ykind (h ! a) \<and> yvalue (h' ! a) = yvalue (h ! a) \<and>
      yline (h' ! a) = yline (h ! a) \<and>
      (ykind (h ! a) \<noteq> MappingNode \<longrightarrow> ycontent (h' ! a) = ycontent (h ! a)) \<and>
      (\<exists>more. ycontent (h' ! a) = ycontent (h ! a) @ more)" if a: "a < length h" for a
    using heap_extD [OF e a] heap_ext_fields [OF e a] by fastforce
  with m node_at_ext [OF e assms(1)] show ?thesis by blast
qed

definition demo_heap :: yheap where
  "demo_heap =
     [\<lparr>ykind = MappingNode, ystyle = 0, ytag = ''!!map'', yvalue = '''', ycontent = [1, 2],
       yline = 1, ycolumn = 1\<rparr>,
      \<lparr>ykind = ScalarNode, ystyle = 0, ytag = ''!!str'', yvalue = ''tag'', ycontent = [],
       yline = 1, ycolumn = 1\<rparr>,
      \<lparr>ykind = ScalarNode, ystyle = 0, ytag = ''!!str'', yvalue = ''old'', ycontent = [],
       yline = 1, ycolumn = 6\<rparr>]"

theorem set_scalar_correct_witness:
  "(\<exists>n h' ins'. set_scalar demo_heap [] 0 [] [''image'', ''digest''] ''d'' = Inr (n, h', ins') \<and>
     node_at h' 0 [''image'', ''digest''] = Some n \<and> node_at h' 0 [''tag''] = Some 2)"
proof -
  have ok: "yheap_ok demo_heap" "0 < length demo_heap" by (auto simp: yheap_ok_def demo_heap_def)
  obtain n h' ins' where
    s: "set_scalar demo_heap [] 0 [] [''image'', ''digest''] ''d'' = Inr (n, h', ins')"
    by (simp add: demo_heap_def descend_def insert_child_def map_value_def new_node_def
        add_insertion_def)
  have t: "node_at demo_heap 0 [''tag''] = Some 2"
    by (simp add: demo_heap_def map_value_def)
  from set_scalar_correct [OF ok s] s t ok(2) show ?thesis by blast
qed

end
