(* ===== verification/Yaml_Edit.thy ===== *)
theory Yaml_Edit
  imports Yaml_Node
begin

text \<open>
  \<^verbatim>\<open>internal/writeback/yaml.go\<close>, byte level: finding the span of a scalar token, rendering
  its replacement, finding where new mapping entries go, and splicing all edits into the
  original bytes, last edit first. The node graph only supplies positions, so every byte
  outside the edited spans has to survive. Go iterates its edit maps in an unspecified
  order; the order is an argument (the association lists are in iteration order).
\<close>

section \<open>The YAML library\<close>

text \<open>
  The library calls: \<open>yaml_decode\<close> is the \<^verbatim>\<open>Decode\<close> loop up to end of input,
  \<open>yaml_unmarshal\<close> reads one document. An encoder call can fail in \<^verbatim>\<open>Encode\<close> (outer
  error) or in \<^verbatim>\<open>Close\<close> (inner error).
\<close>

record yaml_lib =
  yaml_decode :: "string \<Rightarrow> (yheap \<times> yaddr list) result"
  yaml_unmarshal :: "string \<Rightarrow> (yheap \<times> yaddr) result"
  yaml_encode_scalar :: "ynode \<Rightarrow> go_error + string result"
  yaml_encode_mapping :: "yheap \<Rightarrow> yaddr list \<Rightarrow> go_error + string result"

section \<open>Token spans\<close>

text \<open>
  The scan after an opening quote at index \<open>i - 1\<close>: a backslash in a double-quoted scalar
  and a doubled single quote skip two bytes; the first closing quote ends the token.
\<close>

function quoted_end :: "char \<Rightarrow> nat \<Rightarrow> string \<Rightarrow> nat option" where
  "quoted_end q i [] = None"
| "quoted_end q i (c # r) =
     (if q = CHR 34 \<and> c = CHR 92 then quoted_end q (i + 2) (tl r)
      else if c = q then
        (if q = CHR 39 \<and> r \<noteq> [] \<and> hd r = CHR 39 then quoted_end q (i + 2) (tl r)
         else Some (i + 1))
      else quoted_end q (i + 1) r)"
  by pat_completeness auto
termination
  by (relation "measure (\<lambda>(q, i, s). length s)") auto

text \<open>
  The length of a plain scalar: up to the end of the line or a comment, that is a hash after
  a blank (\<open>after_blank\<close> says whether the byte before is one).
\<close>

definition is_blank :: "char \<Rightarrow> bool" where
  "is_blank c \<longleftrightarrow> c = CHR 32 \<or> c = tab"

fun plain_len :: "bool \<Rightarrow> string \<Rightarrow> nat" where
  "plain_len after_blank [] = 0"
| "plain_len after_blank (c # r) =
     (if c = newline \<or> c = carriage then 0
      else if c = CHR ''#'' \<and> after_blank then 0
      else Suc (plain_len (is_blank c) r))"

definition scalar_token_end :: "string \<Rightarrow> nat \<Rightarrow> ystyle \<Rightarrow> nat result" where
  "scalar_token_end input start style =
     (if length input \<le> start then Inl (Errorf ''edited scalar starts past end of manifest'')
      else let q = (if style AND DoubleQuotedStyle \<noteq> 0 then Some (CHR 34)
                    else if style AND SingleQuotedStyle \<noteq> 0 then Some (CHR 39) else None)
      in case q of
           Some c \<Rightarrow>
             (case quoted_end c (start + 1) (drop (start + 1) input) of
                Some e \<Rightarrow> Inr e
              | None \<Rightarrow> Inl (Errorf ''unterminated quoted scalar''))
         | None \<Rightarrow>
             (let token = take (plain_len False (drop start input)) (drop start input)
              in Inr (start + length (rev (dropWhile is_blank (rev token))))))"

section \<open>Replacement text\<close>

definition safe_plain_scalar :: "yaml_lib \<Rightarrow> string \<Rightarrow> bool" where
  "safe_plain_scalar Y v =
     (if v = '''' \<or> contains_any v [carriage, newline] then False
      else case yaml_unmarshal Y (''value: '' @ v @ [newline]) of
        Inl e \<Rightarrow> False
      | Inr (h, doc) \<Rightarrow>
          (case ycontent (h ! doc) of
             [root] \<Rightarrow>
               (case map_value h root ''value'' of
                  None \<Rightarrow> False
                | Some n \<Rightarrow> ykind (h ! n) = ScalarNode \<and> yvalue (h ! n) = v)
           | _ \<Rightarrow> False))"

definition render_scalar :: "yaml_lib \<Rightarrow> string \<Rightarrow> ystyle \<Rightarrow> string result" where
  "render_scalar Y v style =
     (if style = 0 \<and> safe_plain_scalar Y v then Inr v
      else case yaml_encode_scalar Y ((new_node ScalarNode ''!!str'' v)\<lparr>ystyle := style\<rparr>) of
        Inl e \<Rightarrow> Inl (Wrapped ''encode replacement scalar'' e)
      | Inr (Inl e) \<Rightarrow> Inl (Wrapped ''close scalar encoder'' e)
      | Inr (Inr out) \<Rightarrow> Inr (trim_suffix out [newline]))"

text \<open>\<^verbatim>\<open>strings.Repeat(" ", n)\<close> panics on a negative count.\<close>

definition repeat_space :: "int \<Rightarrow> string outcome" where
  "repeat_space n =
     (if n < 0 then Abort (Panic ''strings: negative Repeat count'')
      else Ok (replicate (nat n) (CHR 32)))"

definition render_mapping_entries ::
    "yaml_lib \<Rightarrow> yheap \<Rightarrow> yaddr list \<Rightarrow> int \<Rightarrow> string outcome" where
  "render_mapping_entries Y h content indent =
     (case yaml_encode_mapping Y h content of
        Inl e \<Rightarrow> Fail (Wrapped ''encode inserted YAML mapping'' e)
      | Inr (Inl e) \<Rightarrow> Fail (Wrapped ''close inserted YAML mapping encoder'' e)
      | Inr (Inr out) \<Rightarrow>
          obind (repeat_space indent) (\<lambda>prefix.
            Ok (str_join [newline]
                 (map (\<lambda>line. prefix @ line) (split_on newline (trim_suffix out [newline])))
               @ [newline])))"

section \<open>Insertion points\<close>

fun newline_offsets :: "nat \<Rightarrow> string \<Rightarrow> nat list" where
  "newline_offsets i [] = []"
| "newline_offsets i (c # r) =
     (if c = newline then Suc i # newline_offsets (Suc i) r else newline_offsets (Suc i) r)"

definition line_starts :: "string \<Rightarrow> nat list" where
  "line_starts input = 0 # newline_offsets 0 input"

text \<open>The loop over the lines after the mapping's first entry.\<close>

fun find_dedent :: "string \<Rightarrow> int \<Rightarrow> nat list \<Rightarrow> nat option" where
  "find_dedent input indent [] = None"
| "find_dedent input indent (s # rest) =
     (let e = (case rest of [] \<Rightarrow> length input | e # _ \<Rightarrow> e);
          text = trim_right_set [carriage, newline] (take (e - s) (drop s input));
          trimmed = trim_space text;
          line_indent = length text - length (trim_left_set '' '' text)
      in if trimmed = '''' \<or> has_prefix trimmed ''#'' then find_dedent input indent rest
         else if int line_indent < indent then Some s
         else find_dedent input indent rest)"

definition mapping_insertion_point ::
    "string \<Rightarrow> nat list \<Rightarrow> yheap \<Rightarrow> yaddr \<Rightarrow> (nat \<times> int) result" where
  "mapping_insertion_point input starts h node =
     (case ycontent (h ! node) of
        [] \<Rightarrow> Inl (Errorf ''cannot insert into an empty or non-mapping YAML node'')
      | first # _ \<Rightarrow>
          if ykind (h ! node) \<noteq> MappingNode
          then Inl (Errorf ''cannot insert into an empty or non-mapping YAML node'')
          else let indent = int (ycolumn (h ! first)) - 1
               in case find_dedent input indent (drop (yline (h ! first)) starts) of
                    Some s \<Rightarrow> Inr (s, indent)
                  | None \<Rightarrow> Inr (length input, indent))"

section \<open>Edits\<close>

record scalar_edit =
  edit_start :: nat
  edit_end :: nat
  edit_value :: string

definition scalar_edit_for ::
    "yaml_lib \<Rightarrow> string \<Rightarrow> nat list \<Rightarrow> yheap \<Rightarrow> yaddr \<times> string \<Rightarrow> scalar_edit result" where
  "scalar_edit_for Y input starts h nv =
     (let (node, v) = nv; n = h ! node in
      if yline n < 1 \<or> length starts < yline n \<or> ycolumn n < 1
      then Inl (Errorf ''invalid YAML source position for edited scalar'')
      else if ystyle n AND (LiteralStyle OR FoldedStyle) \<noteq> 0
      then Inl (Errorf ''block scalar targets are not supported'')
      else let start = starts ! (yline n - 1) + ycolumn n - 1 in
        rbind (scalar_token_end input start (ystyle n)) (\<lambda>e.
        rbind (render_scalar Y v (ystyle n)) (\<lambda>rendered.
        Inr \<lparr>edit_start = start, edit_end = e, edit_value = rendered\<rparr>)))"

definition insertion_edit_for ::
    "yaml_lib \<Rightarrow> string \<Rightarrow> nat list \<Rightarrow> yheap \<Rightarrow> yaddr \<times> yaddr list \<Rightarrow> scalar_edit outcome" where
  "insertion_edit_for Y input starts h pc =
     (let (parent, content) = pc in
      case mapping_insertion_point input starts h parent of
        Inl e \<Rightarrow> Fail e
      | Inr (start, indent) \<Rightarrow>
          obind (render_mapping_entries Y h content indent) (\<lambda>rendered.
            let rendered = (if 0 < start \<and> input ! (start - 1) \<noteq> newline
                            then newline # rendered else rendered)
            in Ok \<lparr>edit_start = start, edit_end = start, edit_value = rendered\<rparr>))"

fun omap :: "('a \<Rightarrow> 'b outcome) \<Rightarrow> 'a list \<Rightarrow> 'b list outcome" where
  "omap f [] = Ok []"
| "omap f (x # xs) = obind (f x) (\<lambda>y. obind (omap f xs) (\<lambda>ys. Ok (y # ys)))"

text \<open>
  \<^verbatim>\<open>for j := i + 1; ... { if edits[i].start < edits[j].start { swap } }\<close>: one pass carries the
  element at \<open>i\<close> along the rest; the outer loop repeats it on what is left.
\<close>

fun exchange_pass :: "scalar_edit \<Rightarrow> scalar_edit list \<Rightarrow> scalar_edit \<times> scalar_edit list" where
  "exchange_pass x [] = (x, [])"
| "exchange_pass x (y # ys) =
     (if edit_start x < edit_start y
      then (let (m, r) = exchange_pass y ys in (m, x # r))
      else (let (m, r) = exchange_pass x ys in (m, y # r)))"

lemma exchange_pass_length: "exchange_pass x ys = (m, r) \<Longrightarrow> length r = length ys"
  by (induction x ys arbitrary: m r rule: exchange_pass.induct) (auto split: if_splits prod.splits)

function exchange_sort :: "scalar_edit list \<Rightarrow> scalar_edit list" where
  "exchange_sort [] = []"
| "exchange_sort (x # xs) = (let (m, r) = exchange_pass x xs in m # exchange_sort r)"
  by pat_completeness auto
termination
  by (relation "measure length") (auto dest: exchange_pass_length [OF sym])

text \<open>\<^verbatim>\<open>append(out[:start], append([]byte(value), out[end:]...)...)\<close>; slicing past the end panics.\<close>

definition splice :: "scalar_edit \<Rightarrow> string \<Rightarrow> string outcome" where
  "splice e out =
     (if length out < edit_end e \<or> length out < edit_start e
      then Abort (Panic ''slice bounds out of range'')
      else Ok (take (edit_start e) out @ edit_value e @ drop (edit_end e) out))"

fun splice_all :: "scalar_edit list \<Rightarrow> string \<Rightarrow> string outcome" where
  "splice_all [] out = Ok out"
| "splice_all (e # es) out = obind (splice e out) (splice_all es)"

text \<open>The edits in the order the two map loops append them.\<close>

definition collect_edits ::
    "yaml_lib \<Rightarrow> string \<Rightarrow> yheap \<Rightarrow> (yaddr \<times> string) list \<Rightarrow> insertions
      \<Rightarrow> scalar_edit list outcome" where
  "collect_edits Y input h values ins =
     (let starts = line_starts input in
      obind (omap (\<lambda>nv. of_result (scalar_edit_for Y input starts h nv)) values) (\<lambda>es1.
      obind (omap (insertion_edit_for Y input starts h) ins) (\<lambda>es2.
      Ok (es1 @ es2))))"

definition apply_yaml_edits ::
    "yaml_lib \<Rightarrow> string \<Rightarrow> yheap \<Rightarrow> (yaddr \<times> string) list \<Rightarrow> insertions \<Rightarrow> string outcome" where
  "apply_yaml_edits Y input h values ins =
     obind (collect_edits Y input h values ins) (\<lambda>es.
       splice_all (exchange_sort es) input)"

section \<open>The exchange sort\<close>

lemma exchange_pass_mset:
  "exchange_pass x ys = (m, r) \<Longrightarrow> add_mset m (mset r) = add_mset x (mset ys)"
proof (induction x ys arbitrary: m r rule: exchange_pass.induct)
  case (1 x)
  then show ?case by simp
next
  case (2 x y ys)
  show ?case
  proof (cases "edit_start x < edit_start y")
    case True
    then obtain r' where p: "exchange_pass y ys = (m, r')" and r: "r = x # r'"
      using "2.prems" by (auto split: prod.splits)
    from "2.IH"(1) [OF True p] show ?thesis by (simp add: r add_mset_commute [of m x])
  next
    case False
    then obtain r' where p: "exchange_pass x ys = (m, r')" and r: "r = y # r'"
      using "2.prems" by (auto split: prod.splits)
    from "2.IH"(2) [OF False p] show ?thesis
      by (simp add: r add_mset_commute [of m y] add_mset_commute [of x y])
  qed
qed

lemma exchange_pass_set: "exchange_pass x ys = (m, r) \<Longrightarrow> insert m (set r) = insert x (set ys)"
  using exchange_pass_mset [of x ys m r]
  by (metis list.set(2) mset.simps(2) set_mset_mset)

lemma exchange_pass_max:
  "exchange_pass x ys = (m, r) \<Longrightarrow> edit_start x \<le> edit_start m \<and>
    (\<forall>y\<in>set ys. edit_start y \<le> edit_start m)"
proof (induction x ys arbitrary: m r rule: exchange_pass.induct)
  case (1 x)
  then show ?case by simp
next
  case (2 x y ys)
  show ?case
  proof (cases "edit_start x < edit_start y")
    case True
    then obtain r' where p: "exchange_pass y ys = (m, r')"
      using "2.prems" by (auto split: prod.splits)
    from "2.IH"(1) [OF True p] True show ?thesis by auto
  next
    case False
    then obtain r' where p: "exchange_pass x ys = (m, r')"
      using "2.prems" by (auto split: prod.splits)
    from "2.IH"(2) [OF False p] False show ?thesis by auto
  qed
qed

lemma exchange_sort_mset: "mset (exchange_sort es) = mset es"
proof (induction es rule: exchange_sort.induct)
  case (2 x xs)
  obtain m r where p: "exchange_pass x xs = (m, r)" by fastforce
  from "2.IH" [OF p [symmetric] refl] exchange_pass_mset [OF p] show ?case by (simp add: p)
qed simp

lemma exchange_sort_desc: "sorted_wrt (\<lambda>a b. edit_start b \<le> edit_start a) (exchange_sort es)"
proof (induction es rule: exchange_sort.induct)
  case (2 x xs)
  obtain m r where p: "exchange_pass x xs = (m, r)" by fastforce
  have "set r \<subseteq> insert x (set xs)"
    using exchange_pass_set [OF p] by blast
  then have "\<forall>e\<in>set (exchange_sort r). edit_start e \<le> edit_start m"
    using exchange_pass_max [OF p] mset_eq_permuteD [OF exchange_sort_mset [of r]] by auto
  with "2.IH" [OF p [symmetric] refl] show ?case by (simp add: p)
qed simp

lemma exchange_sort_strict:
  assumes "distinct (map edit_start es)"
  shows "sorted_wrt (\<lambda>a b. edit_start b < edit_start a) (exchange_sort es)"
  using assms exchange_sort_desc exchange_sort_mset [of es] distinct_map_permute
  by (intro sorted_key_strict) blast+

text \<open>With distinct starts the order in which the edits were collected does not matter.\<close>

lemma exchange_sort_unique:
  assumes "mset es = mset es'" and "distinct (map edit_start es)"
  shows "exchange_sort es = exchange_sort es'"
proof (rule sorted_wrt_unique [where P = "\<lambda>a b. edit_start b < edit_start a"])
  show "sorted_wrt (\<lambda>a b. edit_start b < edit_start a) (exchange_sort es)"
    using exchange_sort_strict [OF assms(2)] .
  show "sorted_wrt (\<lambda>a b. edit_start b < edit_start a) (exchange_sort es')"
    using exchange_sort_strict assms distinct_map_permute by blast
qed (simp_all add: exchange_sort_mset assms(1))

section \<open>Splicing\<close>

text \<open>
  What the edited text should be: walking the edits by ascending start, the original bytes
  up to each span, its replacement, and the original bytes after the last span.
\<close>

fun weave :: "string \<Rightarrow> nat \<Rightarrow> scalar_edit list \<Rightarrow> string" where
  "weave input pos [] = drop pos input"
| "weave input pos (e # es) =
     take (edit_start e - pos) (drop pos input) @ edit_value e @ weave input (edit_end e) es"

text \<open>Spans in the input, one after the other from position \<open>pos\<close>.\<close>

fun spans_from :: "string \<Rightarrow> nat \<Rightarrow> scalar_edit list \<Rightarrow> bool" where
  "spans_from input pos [] \<longleftrightarrow> pos \<le> length input"
| "spans_from input pos (e # es) \<longleftrightarrow>
     pos \<le> edit_start e \<and> edit_start e \<le> edit_end e \<and> spans_from input (edit_end e) es"

lemma spans_from_le: "spans_from input pos es \<Longrightarrow> pos \<le> length input"
  by (induction es arbitrary: pos) fastforce+

lemma splice_all_append:
  "splice_all (es @ fs) out = obind (splice_all es out) (splice_all fs)"
  by (induction es arbitrary: out) (auto simp: obind_def split: outcome.splits)

lemma splice_all_rev_weave:
  assumes "spans_from input pos es"
  shows "splice_all (rev es) input = Ok (take pos input @ weave input pos es)"
  using assms
proof (induction es arbitrary: pos)
  case Nil
  then show ?case by simp
next
  case (Cons e es)
  then have e: "pos \<le> edit_start e" "edit_start e \<le> edit_end e"
    and r: "spans_from input (edit_end e) es" by auto
  note len = spans_from_le [OF r]
  have "take pos input @ take (edit_start e - pos) (drop pos input) = take (edit_start e) input"
    using e(1) by (metis le_add_diff_inverse take_add)
  then have t: "take pos input @ take (edit_start e - pos) (drop pos input) @ xs
      = take (edit_start e) input @ xs" for xs
    by (metis append.assoc)
  show ?case
    using e len by (simp add: splice_all_append Cons.IH [OF r] splice_def t min_absorb1 min_absorb2)
qed

text \<open>Disjoint spans inside the input.\<close>

definition spans_disjoint :: "string \<Rightarrow> scalar_edit list \<Rightarrow> bool" where
  "spans_disjoint input es \<longleftrightarrow>
     (\<forall>e\<in>set es. edit_start e \<le> edit_end e \<and> edit_end e \<le> length input) \<and>
     (\<forall>a\<in>set es. \<forall>b\<in>set es. edit_start a < edit_start b \<longrightarrow> edit_end a \<le> edit_start b)"

lemma spans_disjoint_ascending:
  assumes "spans_disjoint input es" and "sorted_wrt (\<lambda>a b. edit_start a < edit_start b) asc"
    and "set asc \<subseteq> set es" and "pos \<le> length input" and "\<forall>e\<in>set asc. pos \<le> edit_start e"
  shows "spans_from input pos asc"
  using assms(2-5)
proof (induction asc arbitrary: pos)
  case Nil
  then show ?case by simp
next
  case (Cons e asc)
  have "edit_end e \<le> edit_start b" if "b \<in> set asc" for b
    using assms(1) Cons.prems that unfolding spans_disjoint_def by fastforce
  moreover have "edit_start e \<le> edit_end e" "edit_end e \<le> length input"
    using assms(1) Cons.prems(2) by (auto simp: spans_disjoint_def)
  ultimately show ?case using Cons by auto
qed

section \<open>Collecting edits\<close>

definition the_ok :: "'a outcome \<Rightarrow> 'a" where
  "the_ok r = (case r of Ok a \<Rightarrow> a)"

lemma omap_Ok: "omap f xs = Ok ys \<longleftrightarrow> (\<forall>x\<in>set xs. \<exists>y. f x = Ok y) \<and> ys = map (the_ok \<circ> f) xs"
  by (induction xs arbitrary: ys) (auto simp: result_iff the_ok_def)

lemma omap_permute:
  assumes "omap f xs = Ok ys" and "mset xs = mset xs'"
  shows "\<exists>ys'. omap f xs' = Ok ys' \<and> mset ys' = mset ys"
  using assms mset_eq_permuteD [OF assms(2)] by (auto simp: omap_Ok)

lemma collect_edits_permute:
  assumes "collect_edits Y input h values ins = Ok es"
    and "mset values = mset values'" and "mset ins = mset ins'"
  shows "\<exists>es'. collect_edits Y input h values' ins' = Ok es' \<and> mset es' = mset es"
proof -
  obtain es1 es2 where
    1: "omap (\<lambda>nv. of_result (scalar_edit_for Y input (line_starts input) h nv)) values = Ok es1"
    and 2: "omap (insertion_edit_for Y input (line_starts input) h) ins = Ok es2"
    and es: "es = es1 @ es2"
    using assms(1) by (auto simp: collect_edits_def Let_def result_iff)
  from omap_permute [OF 1 assms(2)] omap_permute [OF 2 assms(3)] es show ?thesis
    by (auto simp: collect_edits_def Let_def)
qed

section \<open>Token lemmas\<close>

lemma quoted_end_Some:
  "quoted_end q i s = Some e \<Longrightarrow> \<exists>k < length s. e = i + k + 1 \<and> s ! k = q"
proof (induction q i s rule: quoted_end.induct)
  case (1 q i)
  then show ?case by simp
next
  case (2 q i c r)
  have skip: ?case if ex: "\<exists>k < length (tl r). e = i + 2 + k + 1 \<and> tl r ! k = q"
  proof -
    obtain k where k: "k < length (tl r)" "e = i + 2 + k + 1" "tl r ! k = q" using ex by blast
    then show ?thesis by (cases r) (auto intro!: exI [of _ "Suc (Suc k)"])
  qed
  have one: ?case if ex: "\<exists>k < length r. e = i + 1 + k + 1 \<and> r ! k = q"
  proof -
    obtain k where "k < length r" "e = i + 1 + k + 1" "r ! k = q" using ex by blast
    then show ?thesis by (intro exI [of _ "Suc k"]) simp
  qed
  consider (esc) "q = CHR 34 \<and> c = CHR 92"
    | (dbl) "\<not> (q = CHR 34 \<and> c = CHR 92)" "c = q" "q = CHR 39 \<and> r \<noteq> [] \<and> hd r = CHR 39"
    | (quote) "\<not> (q = CHR 34 \<and> c = CHR 92)" "c = q" "\<not> (q = CHR 39 \<and> r \<noteq> [] \<and> hd r = CHR 39)"
    | (other) "\<not> (q = CHR 34 \<and> c = CHR 92)" "c \<noteq> q"
    by blast
  then show ?case
  proof cases
    case esc
    with "2.prems" "2.IH"(1) show ?thesis by (intro skip) simp
  next
    case dbl
    with "2.prems" "2.IH"(2) show ?thesis by (intro skip) simp
  next
    case quote
    have "quoted_end q i (c # r) = Some (i + 1)"
      by (subst quoted_end.simps(2), subst if_not_P [OF quote(1)], subst if_P [OF quote(2)],
          subst if_not_P [OF quote(3)], rule refl)
    with "2.prems" quote(2) show ?thesis by (intro exI [of _ 0]) simp
  next
    case other
    with "2.prems" "2.IH"(3) show ?thesis by (intro one) simp
  qed
qed

lemma plain_len_le: "plain_len b s \<le> length s"
  by (induction b s rule: plain_len.induct) auto

lemma plain_len_line: "c \<in> set (take (plain_len b s) s) \<Longrightarrow> c \<noteq> newline \<and> c \<noteq> carriage"
  by (induction b s rule: plain_len.induct) (auto split: if_splits)

text \<open>Where a plain token stops: the end of the text or line, or a comment after a blank.\<close>

definition at_token_stop :: "bool \<Rightarrow> string \<Rightarrow> bool" where
  "at_token_stop after_blank rest \<longleftrightarrow>
     (case rest of [] \<Rightarrow> True
      | c # _ \<Rightarrow> c = newline \<or> c = carriage \<or> (c = CHR ''#'' \<and> after_blank))"

lemma plain_len_stop:
  "at_token_stop (if plain_len b s = 0 then b else is_blank (s ! (plain_len b s - 1)))
     (drop (plain_len b s) s)"
proof (induction b s rule: plain_len.induct)
  case (2 b c r)
  then show ?case
    by (cases "plain_len (is_blank c) r") (auto simp: at_token_stop_def split: list.splits)
qed (simp add: at_token_stop_def)

lemma drop_rev_dropWhile:
  "\<exists>w. xs = rev (dropWhile P (rev xs)) @ w \<and> (\<forall>x\<in>set w. P x)"
  by (rule exI [of _ "rev (takeWhile P (rev xs))"])
    (metis rev_append rev_rev_ident set_rev set_takeWhileD takeWhile_dropWhile_id)

text \<open>The span of a plain token: nothing but blanks between it and a place where a token stops.\<close>

lemma plain_token:
  assumes "scalar_token_end input start style = Inr e"
    and "style AND DoubleQuotedStyle = 0" and "style AND SingleQuotedStyle = 0"
  obtains blanks stop after where
    "drop start input = take (e - start) (drop start input) @ blanks @ stop"
    and "start \<le> e" and "e \<le> length input"
    and "\<forall>c\<in>set (take (e - start) (drop start input) @ blanks). c \<noteq> newline \<and> c \<noteq> carriage"
    and "\<forall>c\<in>set blanks. is_blank c" and "at_token_stop after stop"
proof -
  define s where "s = drop start input"
  define n where "n = plain_len False s"
  define tok where "tok = rev (dropWhile is_blank (rev (take n s)))"
  have e: "e = start + length tok" and lt: "start < length input"
    using assms by (auto simp: scalar_token_end_def Let_def s_def n_def tok_def split: if_splits)
  obtain blanks where w: "take n s = tok @ blanks" "\<forall>c\<in>set blanks. is_blank c"
    using drop_rev_dropWhile [of "take n s" is_blank] by (auto simp: tok_def)
  have s: "s = tok @ blanks @ drop n s"
    using w(1) by (metis append.assoc append_take_drop_id)
  have t: "take (e - start) s = tok" by (subst s) (simp add: e)
  have len: "length s = length tok + length blanks + length (drop n s)"
    by (subst s) simp
  have "e \<le> length input" using len lt by (simp add: e s_def)
  moreover have "\<forall>c\<in>set (tok @ blanks). c \<noteq> newline \<and> c \<noteq> carriage"
    using plain_len_line [of _ False s] w(1) by (simp add: n_def)
  moreover have "at_token_stop (if n = 0 then False else is_blank (s ! (n - 1))) (drop n s)"
    using plain_len_stop [of False s] unfolding n_def .
  ultimately show thesis using s w(2) t e that by (auto simp: s_def)
qed

section \<open>Properties\<close>

text \<open>
  C6. The edit is surgical: when the edits have distinct starts and disjoint spans, the output
  is the input with exactly those spans replaced; every byte before, between and after the
  spans is copied unchanged and in order.
\<close>

theorem apply_edits_surgical:
  assumes "collect_edits Y input h values ins = Ok es"
    and "distinct (map edit_start es)" and "spans_disjoint input es"
  shows "\<exists>asc. mset asc = mset es \<and> sorted_wrt (\<lambda>a b. edit_start a < edit_start b) asc \<and>
    apply_yaml_edits Y input h values ins = Ok (weave input 0 asc)"
proof (intro exI conjI)
  let ?asc = "rev (exchange_sort es)"
  show m: "mset ?asc = mset es" by (simp add: exchange_sort_mset)
  show s: "sorted_wrt (\<lambda>a b. edit_start a < edit_start b) ?asc"
    using exchange_sort_strict [OF assms(2)] by (simp add: sorted_wrt_rev)
  have "spans_from input 0 ?asc"
    using spans_disjoint_ascending [OF assms(3) s] mset_eq_permuteD [OF m] by simp
  from splice_all_rev_weave [OF this] assms(1)
  show "apply_yaml_edits Y input h values ins = Ok (weave input 0 ?asc)"
    by (simp add: apply_yaml_edits_def)
qed

text \<open>
  C22. When all edits have distinct starts, the written manifest does not depend on the order in
  which Go happens to iterate over the edit and insertion maps.
\<close>

theorem apply_edits_order_independent:
  assumes "collect_edits Y input h values ins = Ok es" and "distinct (map edit_start es)"
    and "mset values = mset values'" and "mset ins = mset ins'"
  shows "apply_yaml_edits Y input h values' ins' = apply_yaml_edits Y input h values ins"
proof -
  obtain es' where es': "collect_edits Y input h values' ins' = Ok es'" "mset es' = mset es"
    using collect_edits_permute [OF assms(1,3,4)] by blast
  have "exchange_sort es = exchange_sort es'"
    using exchange_sort_unique [OF es'(2) [symmetric] assms(2)] .
  with assms(1) es'(1) show ?thesis by (simp add: apply_yaml_edits_def)
qed

text \<open>
  Two new groups of entries that go to the same place come out in an order that depends on
  Go's map iteration: the second one collected ends up first. So the manifest written for an
  outer and an inner mapping that both end at the same line is not determined by the code.
\<close>

theorem same_point_insertions_order_dependent:
  assumes "insertion_edit_for Y input (line_starts input) h p = Ok \<lparr>edit_start = s, edit_end = s, edit_value = v\<rparr>"
    and "insertion_edit_for Y input (line_starts input) h q = Ok \<lparr>edit_start = s, edit_end = s, edit_value = w\<rparr>"
    and "s \<le> length input"
  shows "apply_yaml_edits Y input h [] [p, q] = Ok (take s input @ w @ v @ drop s input) \<and>
    apply_yaml_edits Y input h [] [q, p] = Ok (take s input @ v @ w @ drop s input)"
  using assms by (simp add: apply_yaml_edits_def collect_edits_def splice_def)

text \<open>
  The span found for a scalar lies inside the manifest and after its start. A quoted token
  ends with its quote. A plain token stays on one line, and only blanks separate it from the
  end of the line, the end of the file or a comment, all of which are kept.
\<close>

theorem scalar_token_end_bounds:
  assumes "scalar_token_end input start style = Inr e"
  shows "start \<le> e \<and> e \<le> length input \<and>
    (style AND DoubleQuotedStyle \<noteq> 0 \<longrightarrow> start + 1 < e \<and> input ! (e - 1) = CHR 34) \<and>
    (style AND DoubleQuotedStyle = 0 \<and> style AND SingleQuotedStyle \<noteq> 0 \<longrightarrow>
      start + 1 < e \<and> input ! (e - 1) = CHR 39) \<and>
    (style AND DoubleQuotedStyle = 0 \<and> style AND SingleQuotedStyle = 0 \<longrightarrow>
      (\<exists>blanks stop after. drop e input = blanks @ stop \<and>
        (\<forall>c\<in>set (take (e - start) (drop start input) @ blanks). c \<noteq> newline \<and> c \<noteq> carriage) \<and>
        (\<forall>c\<in>set blanks. is_blank c) \<and> at_token_stop after stop))"
proof -
  have quoted: "start + 1 < e \<and> e \<le> length input \<and> input ! (e - 1) = q"
    if "quoted_end q (start + 1) (drop (start + 1) input) = Some e" for q
    using quoted_end_Some [OF that] by auto
  show ?thesis
  proof (cases "style AND DoubleQuotedStyle = 0 \<and> style AND SingleQuotedStyle = 0")
    case True
    then obtain blanks stop after where
      d: "drop start input = take (e - start) (drop start input) @ blanks @ stop"
      and b: "start \<le> e" "e \<le> length input"
      and rest: "\<forall>c\<in>set (take (e - start) (drop start input) @ blanks). c \<noteq> newline \<and> c \<noteq> carriage"
      "\<forall>c\<in>set blanks. is_blank c" "at_token_stop after stop"
      using plain_token [OF assms] by blast
    have "drop (e - start) (drop start input) = blanks @ stop"
      by (metis append_eq_conv_conj append_take_drop_id d)
    then have "drop e input = blanks @ stop" using b(1) by simp
    with True b rest show ?thesis by blast
  next
    case False
    with assms show ?thesis
      using quoted [of "CHR 34"] quoted [of "CHR 39"]
      by (auto simp: scalar_token_end_def Let_def split: if_splits option.splits)
  qed
qed

text \<open>
  Adding a field under a mapping that is empty in the source (such as \<^verbatim>\<open>image: {}\<close>) is
  never edited: the guard against empty mappings does not fire, because the new key is
  already in the node, and the negative indentation of that key makes the renderer panic.
\<close>

theorem insert_into_empty_mapping_panics:
  assumes "parent < length h" and "ycontent (h ! parent) = []"
    and "ykind (h ! parent) = MappingNode"
    and "insert_child h ins parent segment child = (cur, h', ins')"
    and "yaml_encode_mapping Y h' [length h, cur] = Inr (Inr out)"
  shows "insertion_edit_for Y input (line_starts input) h' (parent, [length h, cur]) =
    Abort (Panic ''strings: negative Repeat count'')"
proof -
  have none: "find_dedent input (- 1) starts = None" for starts
    by (induction starts) (simp_all add: Let_def)
  have h': "h' = (h @ [new_node ScalarNode ''!!str'' segment, child])
      [parent := (h ! parent)\<lparr>ycontent := [length h, cur]\<rparr>]"
    using assms(2,4) by (auto simp: insert_child_def Let_def)
  have "h' ! parent = (h ! parent)\<lparr>ycontent := [length h, cur]\<rparr>"
    and "h' ! length h = new_node ScalarNode ''!!str'' segment"
    using assms(1) by (auto simp: h' nth_append)
  with assms(3,5) none show ?thesis
    by (simp add: insertion_edit_for_def mapping_insertion_point_def new_node_def
        render_mapping_entries_def repeat_space_def)
qed

section \<open>Witnesses\<close>

fun demo_entries :: "yheap \<Rightarrow> yaddr list \<Rightarrow> string" where
  "demo_entries h (k # v # rest) =
     yvalue (h ! k) @ '': '' @ yvalue (h ! v) @ [newline] @ demo_entries h rest"
| "demo_entries h _ = []"

text \<open>A library instance that writes plain scalars and flat mappings.\<close>

definition demo_yaml :: yaml_lib where
  "demo_yaml =
     \<lparr>yaml_decode = (\<lambda>s. Inr (demo_heap, [])),
      yaml_unmarshal = (\<lambda>s. Inl (Errorf ''no document'')),
      yaml_encode_scalar = (\<lambda>n. Inr (Inr (yvalue n @ [newline]))),
      yaml_encode_mapping = (\<lambda>h cs. Inr (Inr (demo_entries h cs)))\<rparr>"

definition demo_input :: string where
  "demo_input = ''tag: old'' @ [newline] @ ''x: 1'' @ [newline]"

lemma demo_collect:
  "collect_edits demo_yaml demo_input demo_heap [(2, ''v2'')] [] =
    Ok [\<lparr>edit_start = 5, edit_end = 8, edit_value = ''v2''\<rparr>]"
  by code_simp

theorem apply_edits_surgical_witness:
  "\<exists>asc. mset asc = {#\<lparr>edit_start = 5, edit_end = 8, edit_value = ''v2''\<rparr>#} \<and>
     apply_yaml_edits demo_yaml demo_input demo_heap [(2, ''v2'')] [] = Ok (weave demo_input 0 asc)"
proof -
  have "spans_disjoint demo_input [\<lparr>edit_start = 5, edit_end = 8, edit_value = ''v2''\<rparr>]"
    by (simp add: spans_disjoint_def demo_input_def)
  from apply_edits_surgical [OF demo_collect _ this] show ?thesis by auto
qed

theorem scalar_token_end_bounds_witness:
  "scalar_token_end demo_input 5 0 = Inr 8 \<and> (5::nat) \<le> 8 \<and> 8 \<le> length demo_input"
proof -
  have "scalar_token_end demo_input 5 0 = Inr 8" by code_simp
  with scalar_token_end_bounds [OF this] show ?thesis by blast
qed

text \<open>A mapping with an empty mapping inside: \<^verbatim>\<open>image: {}\<close>.\<close>

definition demo_empty_heap :: yheap where
  "demo_empty_heap = [\<lparr>ykind = MappingNode, ystyle = 32, ytag = ''!!map'', yvalue = '''',
     ycontent = [], yline = 1, ycolumn = 8\<rparr>]"

theorem insert_into_empty_mapping_panics_witness:
  "(case insert_child demo_empty_heap [] 0 ''tag'' (new_node ScalarNode ''!!str'' ''v2'') of
      (cur, h', ins') \<Rightarrow>
        insertion_edit_for demo_yaml ''image: {}'' (line_starts ''image: {}'') h' (0, [1, cur]) =
          Abort (Panic ''strings: negative Repeat count''))"
proof -
  obtain cur h' ins' where i:
    "insert_child demo_empty_heap [] 0 ''tag'' (new_node ScalarNode ''!!str'' ''v2'') = (cur, h', ins')"
    by (metis prod_cases3)
  have l: "length demo_empty_heap = 1" by (simp add: demo_empty_heap_def)
  have e: "yaml_encode_mapping demo_yaml h' [length demo_empty_heap, cur] =
      Inr (Inr (demo_entries h' [length demo_empty_heap, cur]))" by (simp add: demo_yaml_def)
  have "insertion_edit_for demo_yaml ''image: {}'' (line_starts ''image: {}'') h'
      (0, [length demo_empty_heap, cur]) = Abort (Panic ''strings: negative Repeat count'')"
    by (rule insert_into_empty_mapping_panics [OF _ _ _ i e]) (simp_all add: demo_empty_heap_def)
  with i l show ?thesis by simp
qed

text \<open>
  A manifest whose outer and inner mapping both end at the end of the file:
  \<^verbatim>\<open>spec:\<close>, \<^verbatim>\<open>  image:\<close>, \<^verbatim>\<open>    tag: x\<close>. Nodes 1 (\<^verbatim>\<open>spec\<close>) and 3 (\<^verbatim>\<open>image\<close>) each get an entry.
\<close>

definition demo_nested :: string where
  "demo_nested = ''spec:'' @ [newline] @ ''  image:'' @ [newline] @ ''    tag: x'' @ [newline]"

definition demo_scalar :: "string \<Rightarrow> nat \<Rightarrow> nat \<Rightarrow> ynode" where
  "demo_scalar v l c = (new_node ScalarNode ''!!str'' v)\<lparr>yline := l, ycolumn := c\<rparr>"

definition demo_mapping :: "yaddr list \<Rightarrow> nat \<Rightarrow> nat \<Rightarrow> ynode" where
  "demo_mapping cs l c =
     (new_node MappingNode ''!!map'' '''')\<lparr>yline := l, ycolumn := c, ycontent := cs\<rparr>"

definition demo_nested_heap :: yheap where
  "demo_nested_heap =
     [demo_scalar ''image'' 2 3, demo_mapping [0, 3, 6, 7] 2 3,
      demo_scalar ''tag'' 3 5, demo_mapping [2, 5, 8, 9] 3 5,
      demo_scalar ''spec'' 1 1, demo_scalar ''x'' 3 10,
      new_node ScalarNode ''!!str'' ''rev'', new_node ScalarNode ''!!str'' ''r1'',
      new_node ScalarNode ''!!str'' ''digest'', new_node ScalarNode ''!!str'' ''d1'']"

text \<open>Two scalars of a manifest, edited in either order, and a new entry after the second.\<close>

definition demo_two_heap :: yheap where
  "demo_two_heap =
     [demo_scalar ''old'' 1 6, demo_scalar ''x'' 2 1, demo_scalar ''1'' 2 4, demo_mapping [1, 2, 4, 5] 2 1,
      new_node ScalarNode ''!!str'' ''rev'', new_node ScalarNode ''!!str'' ''r1'']"

lemma demo_two_collect:
  "collect_edits demo_yaml demo_input demo_two_heap [(0, ''v2''), (2, ''7'')] [(3, [4, 5])] =
    Ok [\<lparr>edit_start = 5, edit_end = 8, edit_value = ''v2''\<rparr>, \<lparr>edit_start = 12, edit_end = 13, edit_value = ''7''\<rparr>,
      \<lparr>edit_start = 14, edit_end = 14, edit_value = demo_entries demo_two_heap [4, 5]\<rparr>]"
  by code_simp

theorem apply_edits_order_independent_witness:
  "apply_yaml_edits demo_yaml demo_input demo_two_heap [(2, ''7''), (0, ''v2'')] [(3, [4, 5])] =
    Ok (''tag: v2'' @ [newline] @ ''x: 7'' @ [newline] @ demo_entries demo_two_heap [4, 5])"
proof -
  have run: "apply_yaml_edits demo_yaml demo_input demo_two_heap [(0, ''v2''), (2, ''7'')] [(3, [4, 5])] =
      Ok (''tag: v2'' @ [newline] @ ''x: 7'' @ [newline] @ demo_entries demo_two_heap [4, 5])"
    by code_simp
  have starts: "distinct (map edit_start [\<lparr>edit_start = 5, edit_end = 8, edit_value = ''v2''\<rparr>,
      \<lparr>edit_start = 12, edit_end = 13, edit_value = ''7''\<rparr>,
      \<lparr>edit_start = 14, edit_end = 14, edit_value = demo_entries demo_two_heap [4, 5]\<rparr>])"
    by simp
  have swapped: "mset [(0::yaddr, ''v2''), (2, ''7'')] = mset [(2, ''7''), (0, ''v2'')]" by (simp add: add_mset_commute)
  show ?thesis
    using apply_edits_order_independent [OF demo_two_collect starts swapped refl] run by simp
qed

theorem same_point_insertions_order_dependent_witness:
  "apply_yaml_edits demo_yaml demo_nested demo_nested_heap [] [(1, [6, 7]), (3, [8, 9])]
    \<noteq> apply_yaml_edits demo_yaml demo_nested demo_nested_heap [] [(3, [8, 9]), (1, [6, 7])]"
proof -
  let ?v = "''  rev: r1'' @ [newline]" and ?w = "''    digest: d1'' @ [newline]"
  let ?s = "length demo_nested"
  have p: "insertion_edit_for demo_yaml demo_nested (line_starts demo_nested) demo_nested_heap
      (1, [6, 7]) = Ok \<lparr>edit_start = ?s, edit_end = ?s, edit_value = ?v\<rparr>" by code_simp
  have q: "insertion_edit_for demo_yaml demo_nested (line_starts demo_nested) demo_nested_heap
      (3, [8, 9]) = Ok \<lparr>edit_start = ?s, edit_end = ?s, edit_value = ?w\<rparr>" by code_simp
  from same_point_insertions_order_dependent [OF p q order_refl] show ?thesis by simp
qed

end
