(* ===== verification/Manifest.thy ===== *)
theory Manifest
  imports Yaml_Edit
begin

text \<open>
  \<^verbatim>\<open>UpdateManifest\<close> of \<^verbatim>\<open>internal/writeback/yaml.go\<close>: decode the documents, render every patch
  of every target in every matching document, and turn the touched nodes into byte edits.
  The template engine is a parameter (\<open>render\<close>: parse and execute with
  \<^verbatim>\<open>missingkey=error\<close>), and so is the order in which Go iterates over the two edit maps.
\<close>

type_synonym renderer = "string \<Rightarrow> strmap \<Rightarrow> string result"

record map_order =
  order_edits :: "(yaddr \<times> string) list \<Rightarrow> (yaddr \<times> string) list"
  order_insertions :: "insertions \<Rightarrow> insertions"

definition map_order_ok :: "map_order \<Rightarrow> bool" where
  "map_order_ok ord \<longleftrightarrow>
     (\<forall>xs. mset (order_edits ord xs) = mset xs) \<and> (\<forall>xs. mset (order_insertions ord xs) = mset xs)"

record manifest_lib =
  lib_yaml :: yaml_lib
  lib_selector :: selector_compile
  lib_render :: renderer
  lib_order :: map_order

record edit_state =
  st_heap :: yheap
  st_edits :: "(yaddr \<times> string) list"
  st_insertions :: insertions

section \<open>One patch, one target, all targets\<close>

definition field_path :: "string \<Rightarrow> string list" where
  "field_path field = split_on (CHR ''.'') field"

definition record_value :: "yaddr \<Rightarrow> string \<Rightarrow> edit_state \<Rightarrow> edit_state" where
  "record_value node v st =
     st\<lparr>st_edits := (if 0 < yline (st_heap st ! node) then AList.update node v (st_edits st)
                     else st_edits st),
        st_heap := (st_heap st)[node := (st_heap st ! node)\<lparr>yvalue := v, ytag := ''!!str''\<rparr>]\<rparr>"

definition apply_patch ::
    "manifest_lib \<Rightarrow> strmap \<Rightarrow> target_spec \<Rightarrow> yaddr \<Rightarrow> patch_spec \<Rightarrow> edit_state \<Rightarrow> edit_state outcome" where
  "apply_patch L data target root p st =
     (case lib_render L (patch_template p) data of
        Inl e \<Rightarrow> Fail (Wrapped (''render template for field '' @ go_quote (patch_field p)) e)
      | Inr v \<Rightarrow>
          if trim_space v = '''' then Ok st
          else case set_scalar (st_heap st) (st_insertions st) root [] (field_path (patch_field p)) v of
            Inl e \<Rightarrow> Fail (Wrapped (''target '' @ target_kind target @ ''/'' @ target_name target
                       @ '' field '' @ go_quote (patch_field p)) e)
          | Inr (node, h, ins) \<Rightarrow>
              Ok (record_value node v (st\<lparr>st_heap := h, st_insertions := ins\<rparr>)))"

fun apply_patches ::
    "manifest_lib \<Rightarrow> strmap \<Rightarrow> target_spec \<Rightarrow> yaddr \<Rightarrow> patch_spec list \<Rightarrow> edit_state \<Rightarrow> edit_state outcome" where
  "apply_patches L data target root [] st = Ok st"
| "apply_patches L data target root (p # ps) st =
     obind (apply_patch L data target root p st) (apply_patches L data target root ps)"

text \<open>The documents of the manifest, in order; the count is of the matching ones.\<close>

fun apply_docs ::
    "manifest_lib \<Rightarrow> strmap \<Rightarrow> target_spec \<Rightarrow> yaddr list \<Rightarrow> nat \<Rightarrow> edit_state
      \<Rightarrow> (nat \<times> edit_state) outcome" where
  "apply_docs L data target [] matched st = Ok (matched, st)"
| "apply_docs L data target (doc # docs) matched st =
     (case document_map (st_heap st) doc of
        Inl e \<Rightarrow> Fail e
      | Inr root \<Rightarrow>
          obind (matches_target (lib_selector L) (st_heap st) root target) (\<lambda>ok.
            if \<not> ok then apply_docs L data target docs matched st
            else obind (apply_patches L data target root (target_patches target) st)
                   (apply_docs L data target docs (Suc matched))))"

definition target_not_found :: "target_spec \<Rightarrow> go_error" where
  "target_not_found target =
     Errorf (''target '' @ target_kind target @ ''/'' @ target_name target @ '' not found in manifest'')"

fun apply_targets ::
    "manifest_lib \<Rightarrow> strmap \<Rightarrow> yaddr list \<Rightarrow> target_spec list \<Rightarrow> edit_state \<Rightarrow> edit_state outcome" where
  "apply_targets L data docs [] st = Ok st"
| "apply_targets L data docs (t # ts) st =
     obind (apply_docs L data t docs 0 st) (\<lambda>(matched, st').
       if matched = 0 then Fail (target_not_found t) else apply_targets L data docs ts st')"

definition update_manifest ::
    "manifest_lib \<Rightarrow> string \<Rightarrow> target_spec list \<Rightarrow> strmap \<Rightarrow> (string \<times> bool) outcome" where
  "update_manifest L input targets data =
     (case yaml_decode (lib_yaml L) input of
        Inl e \<Rightarrow> Fail (Wrapped ''decode manifest'' e)
      | Inr (h, all_docs) \<Rightarrow>
          (let docs = filter (\<lambda>d. ycontent (h ! d) \<noteq> []) all_docs in
           obind (apply_targets L data docs targets
                    \<lparr>st_heap = h, st_edits = [], st_insertions = []\<rparr>) (\<lambda>st.
           if st_edits st = [] \<and> st_insertions st = [] then Ok (input, False)
           else obind (apply_yaml_edits (lib_yaml L) input (st_heap st)
                         (order_edits (lib_order L) (st_edits st))
                         (order_insertions (lib_order L) (st_insertions st))) (\<lambda>out.
                Ok (out, out \<noteq> input)))))"

section \<open>Where the edits come from\<close>

text \<open>
  The parser gives every node its own place: what is a key in one mapping is not also a value
  or an item somewhere.
\<close>

fun keys_of :: "yaddr list \<Rightarrow> yaddr list" where
  "keys_of (k # v # rest) = k # keys_of rest"
| "keys_of _ = []"

fun values_of :: "yaddr list \<Rightarrow> yaddr list" where
  "values_of (k # v # rest) = v # values_of rest"
| "values_of _ = []"

definition items_of :: "ynode \<Rightarrow> yaddr list" where
  "items_of n = (case ykind n of
     MappingNode \<Rightarrow> values_of (ycontent n) | SequenceNode \<Rightarrow> ycontent n | _ \<Rightarrow> [])"

definition keys_in :: "yheap \<Rightarrow> yaddr set" where
  "keys_in h = (\<Union>n\<in>set h. if ykind n = MappingNode then set (keys_of (ycontent n)) else {})"

definition keys_apart :: "yheap \<Rightarrow> bool" where
  "keys_apart h \<longleftrightarrow> (\<forall>n\<in>set h. set (items_of n) \<inter> keys_in h = {})"

text \<open>
  The heap while it is edited, against the one that was decoded: nodes keep their kind and
  place, keys keep their text, and only mappings get new children, which are new nodes.
\<close>

definition grown :: "yheap \<Rightarrow> yheap \<Rightarrow> bool" where
  "grown h h' \<longleftrightarrow> length h \<le> length h' \<and>
     (\<forall>a < length h. ykind (h' ! a) = ykind (h ! a) \<and> yline (h' ! a) = yline (h ! a) \<and>
        (\<exists>more. ycontent (h' ! a) = ycontent (h ! a) @ more \<and> set more \<subseteq> {length h..} \<and>
           (ykind (h ! a) \<noteq> MappingNode \<longrightarrow> more = []))) \<and>
     (\<forall>a. length h \<le> a \<and> a < length h' \<longrightarrow>
        yline (h' ! a) = 0 \<and> set (ycontent (h' ! a)) \<subseteq> {length h..}) \<and>
     (\<forall>k\<in>keys_in h. yvalue (h' ! k) = yvalue (h ! k))"

lemma grown_refl [simp]: "grown h h"
  by (auto simp: grown_def intro!: exI [of _ "[]"])

lemma grown_old:
  "grown h h' \<Longrightarrow> a < length h \<Longrightarrow> a < length h' \<and> ykind (h' ! a) = ykind (h ! a) \<and> yline (h' ! a) = yline (h ! a) \<and>
    (\<exists>more. ycontent (h' ! a) = ycontent (h ! a) @ more \<and> set more \<subseteq> {length h..} \<and>
       (ykind (h ! a) \<noteq> MappingNode \<longrightarrow> more = []))"
  unfolding grown_def by fastforce

lemma grown_new:
  "grown h h' \<Longrightarrow> length h \<le> a \<Longrightarrow> a < length h' \<Longrightarrow>
    yline (h' ! a) = 0 \<and> set (ycontent (h' ! a)) \<subseteq> {length h..}"
  unfolding grown_def by blast

lemma keys_of_subset: "set (keys_of xs) \<subseteq> set xs" and values_of_subset: "set (values_of xs) \<subseteq> set xs"
  by (induction xs rule: keys_of.induct) auto

lemma keys_of_append: "set (keys_of xs) \<subseteq> set (keys_of (xs @ ys))"
  by (induction xs rule: keys_of.induct) auto

lemma values_of_append: "even (length xs) \<Longrightarrow> values_of (xs @ ys) = values_of xs @ values_of ys"
  by (induction xs rule: values_of.induct) auto

lemma keys_in_less: "yheap_ok h \<Longrightarrow> k \<in> keys_in h \<Longrightarrow> k < length h"
  using keys_of_subset by (fastforce simp: keys_in_def yheap_ok_def split: if_splits)

lemma keys_in_at:
  "a < length h \<Longrightarrow> ykind (h ! a) = MappingNode \<Longrightarrow> set (keys_of (ycontent (h ! a))) \<subseteq> keys_in h"
  by (fastforce simp: keys_in_def)

lemma keys_in_grown:
  assumes "grown h h'"
  shows "keys_in h \<subseteq> keys_in h'"
proof
  fix k assume "k \<in> keys_in h"
  then obtain n where "n \<in> set h" "ykind n = MappingNode" "k \<in> set (keys_of (ycontent n))"
    by (auto simp: keys_in_def split: if_splits)
  then obtain a where a: "a < length h" "ykind (h ! a) = MappingNode" "k \<in> set (keys_of (ycontent (h ! a)))"
    by (metis in_set_conv_nth)
  with assms obtain more where m: "ycontent (h' ! a) = ycontent (h ! a) @ more" "ykind (h' ! a) = MappingNode"
    "a < length h'" by (fastforce simp: grown_def)
  with a(3) keys_of_append have "k \<in> set (keys_of (ycontent (h' ! a)))" by fastforce
  with m(2,3) keys_in_at show "k \<in> keys_in h'" by blast
qed

lemma grown_trans:
  assumes "grown h h1" and "grown h1 h2"
  shows "grown h h2"
  unfolding grown_def
proof (intro conjI allI impI ballI)
  have l: "length h \<le> length h1" "length h1 \<le> length h2" using assms by (simp_all add: grown_def)
  then show "length h \<le> length h2" by simp
  show "yvalue (h2 ! k) = yvalue (h ! k)" if "k \<in> keys_in h" for k
    using that keys_in_grown [OF assms(1)] assms by (auto simp: grown_def)
  fix a
  show "ykind (h2 ! a) = ykind (h ! a)" "yline (h2 ! a) = yline (h ! a)" if "a < length h"
    using that l assms by (simp_all add: grown_def)
  show "\<exists>more. ycontent (h2 ! a) = ycontent (h ! a) @ more \<and> set more \<subseteq> {length h..} \<and>
      (ykind (h ! a) \<noteq> MappingNode \<longrightarrow> more = [])" if a: "a < length h"
  proof -
    obtain m1 where m1: "ycontent (h1 ! a) = ycontent (h ! a) @ m1" "set m1 \<subseteq> {length h..}"
      "ykind (h ! a) \<noteq> MappingNode \<longrightarrow> m1 = []" "ykind (h1 ! a) = ykind (h ! a)"
      using a assms(1) unfolding grown_def by blast
    obtain m2 where m2: "ycontent (h2 ! a) = ycontent (h1 ! a) @ m2" "set m2 \<subseteq> {length h1..}"
      "ykind (h1 ! a) \<noteq> MappingNode \<longrightarrow> m2 = []"
      using a l assms(2) unfolding grown_def by (meson less_le_trans)
    show ?thesis using m1 m2 l by (intro exI [of _ "m1 @ m2"]) auto
  qed
  assume new: "length h \<le> a \<and> a < length h2"
  have "yline (h2 ! a) = 0 \<and> set (ycontent (h2 ! a)) \<subseteq> {length h..}"
  proof (cases "a < length h1")
    case True
    obtain more where m: "yline (h2 ! a) = yline (h1 ! a)" "ycontent (h2 ! a) = ycontent (h1 ! a) @ more"
      "set more \<subseteq> {length h1..}"
      using grown_old [OF assms(2) True] by blast
    have "set more \<subseteq> {length h..}" using m(3) l(1) by (meson atLeast_iff order_trans subset_iff)
    with m grown_new [OF assms(1) _ True] new show ?thesis by simp
  next
    case False
    have "{length h1..} \<subseteq> {length h..}" using l(1) by simp
    with False grown_new [OF assms(2), of a] new show ?thesis by (meson leI order_trans)
  qed
  then show "yline (h2 ! a) = 0" "set (ycontent (h2 ! a)) \<subseteq> {length h..}" by simp_all
qed

lemma insert_child_grown:
  assumes "yheap_ok h" and "parent < length h" and "ykind (h ! parent) = MappingNode"
    and "ycontent child = []" and "yline child = 0"
    and "insert_child h ins parent segment child = (cur, h', ins')"
  shows "grown h h'"
proof -
  have h': "h' = (h @ [new_node ScalarNode ''!!str'' segment, child])
      [parent := (h ! parent)\<lparr>ycontent := ycontent (h ! parent) @ [length h, Suc (length h)]\<rparr>]"
    using assms(6) by (auto simp: insert_child_def Let_def)
  show ?thesis
    unfolding grown_def
  proof (intro conjI allI impI ballI)
    show "length h \<le> length h'" by (simp add: h')
    show "yvalue (h' ! k) = yvalue (h ! k)" if "k \<in> keys_in h" for k
      using keys_in_less [OF assms(1) that] assms(2) by (simp add: h' nth_append nth_list_update)
    fix a
    show "ykind (h' ! a) = ykind (h ! a)" "yline (h' ! a) = yline (h ! a)" if "a < length h"
      using that assms(2) by (simp_all add: h' nth_append nth_list_update)
    show "\<exists>more. ycontent (h' ! a) = ycontent (h ! a) @ more \<and> set more \<subseteq> {length h..} \<and>
        (ykind (h ! a) \<noteq> MappingNode \<longrightarrow> more = [])" if "a < length h"
      using that assms(2,3)
      by (intro exI [of _ "if a = parent then [length h, Suc (length h)] else []"])
        (auto simp: h' nth_append nth_list_update)
    assume new: "length h \<le> a \<and> a < length h'"
    then have "h' ! a = new_node ScalarNode ''!!str'' segment \<or> h' ! a = child"
      using assms(2) by (auto simp: h' nth_append less_Suc_eq)
    then show "yline (h' ! a) = 0" "set (ycontent (h' ! a)) \<subseteq> {length h..}"
      using assms(4,5) by (auto simp: new_node_def)
  qed
qed

lemma descend_grown:
  assumes "yheap_ok h" and "cur < length h"
    and "descend h ins cur before seg is_last value = Inr (n, h', ins')"
  shows "grown h h'"
proof (cases "ykind (h ! cur) = MappingNode \<and> map_value h cur seg = None")
  case True
  then obtain child where "insert_child h ins cur seg child = (n, h', ins')" "ycontent child = []" "yline child = 0"
    using assms(3) by (auto simp: descend_def new_node_def split: if_splits)
  with insert_child_grown [OF assms(1,2)] True show ?thesis by blast
next
  case False
  with assms(3) have "h' = h"
    by (auto simp: descend_def split: ykind.splits option.splits if_splits)
  then show ?thesis by simp
qed

lemma set_scalar_grown:
  assumes "yheap_ok h" and "cur < length h" and "set_scalar h ins cur before path value = Inr (n, h', ins')"
  shows "grown h h'"
  using assms
proof (induction h ins cur before path "value" rule: set_scalar.induct)
  case (1 h ins cur before val)
  then show ?case by simp
next
  case (2 h ins cur before seg val)
  then show ?case by (auto simp: result_iff split: if_splits intro: descend_grown)
next
  case (3 h ins cur before seg s2 path val)
  then obtain m h1 ins1 where d: "descend h ins cur before seg False val = Inr (m, h1, ins1)"
    and r: "set_scalar h1 ins1 m (before @ [seg]) (s2 # path) val = Inr (n, h', ins')"
    by (auto simp: result_iff)
  note s = descend_step [OF "3.prems"(1,2) d]
  show ?case
    by (rule grown_trans [OF descend_grown [OF "3.prems"(1,2) d] "3.IH" [OF s(2,3) r]])
qed


text \<open>A path only leaves the decoded nodes for good: what it finds among them was there before.\<close>

lemma pair_lookup_value: "pair_lookup h key cs = Some v \<Longrightarrow> v \<in> set (values_of cs)"
  by (induction h key cs rule: pair_lookup.induct) (auto split: if_splits)

lemma pair_lookup_keys:
  "(\<And>k. k \<in> set (keys_of cs) \<Longrightarrow> yvalue (h' ! k) = yvalue (h ! k)) \<Longrightarrow> pair_lookup h' key cs = pair_lookup h key cs"
  by (induction h key cs rule: pair_lookup.induct) auto

lemma node_at_step:
  assumes "node_at h a (seg # path) = Some n"
  shows "\<exists>b\<in>set (items_of (h ! a)). b \<in> set (ycontent (h ! a)) \<and> node_at h b path = Some n"
proof (cases "ykind (h ! a)")
  case MappingNode
  with assms show ?thesis
    by (auto simp: items_of_def map_value_def dest: pair_lookup_SomeD pair_lookup_value split: option.splits)
next
  case SequenceNode
  with assms obtain i where i: "0 \<le> i" "i < int (length (ycontent (h ! a)))"
    "node_at h (ycontent (h ! a) ! nat i) path = Some n"
    by (auto split: option.splits if_splits)
  then have "ycontent (h ! a) ! nat i \<in> set (ycontent (h ! a))" by (intro nth_mem) simp
  with SequenceNode i show ?thesis by (auto simp: items_of_def)
qed (use assms in auto)

lemma node_at_new:
  assumes "grown h h'" and "yheap_ok h'" and "length h \<le> a" and "a < length h'" and "node_at h' a path = Some n"
  shows "length h \<le> n"
  using assms(3-5)
proof (induction path arbitrary: a)
  case (Cons seg path)
  have next_one: "length h \<le> b \<and> b < length h'" if "b \<in> set (ycontent (h' ! a))" for b
    using that grown_new [OF assms(1) Cons.prems(1,2)] yheap_okD(1) [OF assms(2) Cons.prems(2)] by auto
  from node_at_step [OF Cons.prems(3)] obtain b where "b \<in> set (ycontent (h' ! a))" "node_at h' b path = Some n"
    by blast
  with Cons.IH next_one show ?case by blast
qed simp

lemma node_at_original:
  assumes g: "grown h h'" and ok: "yheap_ok h" "yheap_ok h'" and "a < length h"
    and "node_at h' a path = Some n" and "n < length h"
  shows "node_at h a path = Some n"
  using assms(4,5)
proof (induction path arbitrary: a)
  case (Cons seg path)
  obtain more where m: "ykind (h' ! a) = ykind (h ! a)" "ycontent (h' ! a) = ycontent (h ! a) @ more"
    "set more \<subseteq> {length h..}" "ykind (h ! a) \<noteq> MappingNode \<longrightarrow> more = []" "a < length h'"
    using grown_old [OF g Cons.prems(1)] by blast
  show ?case
  proof (cases "ykind (h ! a)")
    case MappingNode
    with Cons.prems m obtain v where v: "pair_lookup h' seg (ycontent (h ! a) @ more) = Some v" "node_at h' v path = Some n"
      by (auto simp: map_value_def split: option.splits)
    have keys: "pair_lookup h' seg (ycontent (h ! a)) = pair_lookup h seg (ycontent (h ! a))"
      by (rule pair_lookup_keys) (use g keys_in_at [OF Cons.prems(1) MappingNode] in \<open>auto simp: grown_def\<close>)
    have ev: "even (length (ycontent (h ! a)))" using yheap_okD(2) [OF ok(1) Cons.prems(1) MappingNode] .
    show ?thesis
    proof (cases "pair_lookup h seg (ycontent (h ! a))")
      case None
      with v(1) keys ev have "v \<in> set more"
        by (auto simp: pair_lookup_append_None dest: pair_lookup_SomeD)
      moreover have "v < length h'"
        using yheap_okD(1) [OF ok(2) m(5)] \<open>v \<in> set more\<close> m(2) by auto
      ultimately have "length h \<le> n" using node_at_new [OF g ok(2) _ _ v(2)] m(3) by auto
      with assms(6) show ?thesis by simp
    next
      case (Some u)
      with v(1) keys have "v = u" using pair_lookup_append_Some [of h' seg _ u] by fastforce
      moreover have "u < length h"
        using yheap_okD(1) [OF ok(1) Cons.prems(1)] pair_lookup_SomeD [OF Some] by blast
      ultimately show ?thesis using Cons.IH v(2) Some MappingNode by (simp add: map_value_def)
    qed
  next
    case SequenceNode
    with Cons.prems m obtain i where i: "atoi seg = Some i" "0 \<le> i" "i < int (length (ycontent (h ! a)))"
      "node_at h' (ycontent (h ! a) ! nat i) path = Some n"
      by (auto split: option.splits if_splits)
    have "ycontent (h ! a) ! nat i < length h"
      using yheap_okD(1) [OF ok(1) Cons.prems(1)] i(2,3) by (simp add: nat_less_iff)
    with Cons.IH i SequenceNode show ?thesis by simp
  qed (use Cons.prems m in auto)
qed simp

text \<open>The last node of a path that is not empty is a value or an item, so not a key.\<close>

lemma node_at_item:
  assumes "yheap_ok h" and "a < length h" and "node_at h a path = Some n" and "path \<noteq> []"
  shows "\<exists>b < length h. n \<in> set (items_of (h ! b))"
  using assms(2-4)
proof (induction path arbitrary: a)
  case (Cons seg path)
  from node_at_step [OF Cons.prems(2)] obtain b where
    b: "b \<in> set (items_of (h ! a))" "b \<in> set (ycontent (h ! a))" "node_at h b path = Some n"
    by blast
  then have "b < length h" using yheap_okD(1) [OF assms(1) Cons.prems(1)] by blast
  with Cons b show ?case by (cases path) auto
qed simp

lemma item_not_key:
  assumes g: "grown h h'" and ok: "yheap_ok h" and ap: "keys_apart h" and "b < length h'" and "n \<in> set (items_of (h' ! b))"
  shows "n \<notin> keys_in h"
proof
  assume k: "n \<in> keys_in h"
  then have n: "n < length h" by (rule keys_in_less [OF ok])
  have child: "n \<in> set (ycontent (h' ! b))"
    using assms(5) values_of_subset by (auto simp: items_of_def split: ykind.splits)
  with grown_new [OF g _ assms(4)] n have b: "b < length h" by (meson atLeast_iff leD leI subsetD)
  then obtain more where m: "ykind (h' ! b) = ykind (h ! b)" "ycontent (h' ! b) = ycontent (h ! b) @ more"
    "set more \<subseteq> {length h..}" "ykind (h ! b) \<noteq> MappingNode \<longrightarrow> more = []"
    using grown_old [OF g b] by blast
  have "n \<in> set (items_of (h ! b))"
  proof (cases "ykind (h ! b) = MappingNode")
    case True
    with assms(5) m yheap_okD(2) [OF ok b] have "n \<in> set (values_of (ycontent (h ! b))) \<union> set (values_of more)"
      by (simp add: items_of_def values_of_append)
    with m(3) n values_of_subset [of more] True show ?thesis by (fastforce simp: items_of_def)
  next
    case False
    with assms(5) m show ?thesis by (cases "ykind (h ! b)") (auto simp: items_of_def)
  qed
  with ap k b show False by (fastforce simp: keys_apart_def)
qed

lemma record_value_grown:
  assumes "grown h (st_heap st)" and "node < length (st_heap st)" and "node \<notin> keys_in h"
  shows "grown h (st_heap (record_value node v st))"
  using assms
  unfolding grown_def record_value_def
  by (auto simp: nth_list_update)

lemma yheap_ok_record:
  assumes "yheap_ok (st_heap st)" and "node < length (st_heap st)"
  shows "yheap_ok (st_heap (record_value node v st))"
proof -
  have "n \<in> set (st_heap st) \<or> n = (st_heap st ! node)\<lparr>yvalue := v, ytag := ''!!str''\<rparr>"
    if "n \<in> set (st_heap (record_value node v st))" for n
    using that set_update_subset_insert [of "st_heap st" node] by (fastforce simp: record_value_def)
  with assms nth_mem [OF assms(2)] show ?thesis
    unfolding yheap_ok_def by (fastforce simp: record_value_def)
qed

lemma document_map_original:
  assumes g: "grown h h'" and ok: "yheap_ok h" and "d < length h" and "document_map h' d = Inr root"
  shows "document_map h d = Inr root" and "root < length h"
proof -
  obtain more where m: "ykind (h' ! d) = ykind (h ! d)" "ycontent (h' ! d) = ycontent (h ! d) @ more"
    "ykind (h ! d) \<noteq> MappingNode \<longrightarrow> more = []"
    using grown_old [OF g assms(3)] by blast
  from assms(4) have d: "ycontent (h' ! d) = [root]" "ykind (h' ! d) = DocumentNode" "ykind (h' ! root) = MappingNode"
    by (auto simp: document_map_def split: list.splits if_splits)
  with m have c: "ycontent (h ! d) = [root]" "ykind (h ! d) = DocumentNode" by auto
  with yheap_okD(1) [OF ok assms(3)] show r: "root < length h" by simp
  with c d(3) grown_old [OF g r] show "document_map h d = Inr root" by (simp add: document_map_def)
qed

text \<open>Keys are inserted only at nodes on the way of the path.\<close>

lemma set_update_subset: "set (AList.update k v al) \<subseteq> insert (k, v) (set al)"
  by (induction al) auto

lemma descend_places:
  assumes "yheap_ok h" and "cur < length h" and "descend h ins cur before seg is_last val = Inr (n, h', ins')"
    and "a \<in> fst ` set ins'"
  shows "a \<in> fst ` set ins \<or> a = cur \<and> 0 < yline (h' ! cur)"
proof (cases "ykind (h ! cur) = MappingNode \<and> map_value h cur seg = None")
  case True
  then obtain child where c: "insert_child h ins cur seg child = (n, h', ins')"
    using assms(3) by (auto simp: descend_def split: if_splits)
  have "yline (h' ! cur) = yline (h ! cur)"
    using heap_ext_fields [OF descend_step(1) [OF assms(1-3)] assms(2)] by simp
  with c assms(4) set_update_subset show ?thesis
    by (fastforce simp: insert_child_def Let_def add_insertion_def split: if_splits)
next
  case False
  with assms(3,4) show ?thesis
    by (auto simp: descend_def split: ykind.splits option.splits if_splits)
qed

lemma set_scalar_places:
  assumes "yheap_ok h" and "cur < length h" and "set_scalar h ins cur before path val = Inr (n, h', ins')"
    and "a \<in> fst ` set ins'"
  shows "a \<in> fst ` set ins \<or>
    0 < yline (h' ! a) \<and> a < length h' \<and> (\<exists>pre suf. path = pre @ suf \<and> suf \<noteq> [] \<and> node_at h' cur pre = Some a)"
  using assms
proof (induction h ins cur before path "val" rule: set_scalar.induct)
  case (1 h ins cur before val)
  then show ?case by simp
next
  case (2 h ins cur before seg val)
  then have d: "descend h ins cur before seg True val = Inr (n, h', ins')"
    by (auto simp: result_iff split: if_splits)
  have "cur < length h'" using descend_step(1) [OF "2.prems"(1,2) d] "2.prems"(2) by (simp add: heap_ext_def)
  with descend_places [OF "2.prems"(1,2) d "2.prems"(4)] show ?case
    by (fastforce intro: exI [of _ "[]"])
next
  case (3 h ins cur before seg s2 path val)
  then obtain m h1 ins1 where d: "descend h ins cur before seg False val = Inr (m, h1, ins1)"
    and r: "set_scalar h1 ins1 m (before @ [seg]) (s2 # path) val = Inr (n, h', ins')"
    by (auto simp: result_iff)
  note s = descend_step [OF "3.prems"(1,2) d]
  note m = set_scalar_main [OF s(2,3) r]
  have cur1: "cur < length h1" using s(1) "3.prems"(2) by (simp add: heap_ext_def)
  have cur: "cur < length h'" "yline (h' ! cur) = yline (h1 ! cur)"
    using m cur1 heap_ext_fields [of h1 h' cur] by (auto simp: heap_ext_def)
  have "node_at h1 cur [seg] = Some m" using s(4) [of "[]"] by simp
  with node_at_ext [OF _ s(2) cur1] m have "node_at h' cur [seg] = Some m" by blast
  then have step: "node_at h' cur (seg # p) = node_at h' m p" for p
    by (auto split: ykind.splits option.splits if_splits)
  from "3.IH" [OF s(2,3) r "3.prems"(4)] show ?case
  proof (elim disjE conjE exE)
    assume "a \<in> fst ` set ins1"
    from descend_places [OF "3.prems"(1,2) d this] cur show ?thesis
      by (fastforce intro: exI [of _ "[]"])
  next
    fix pre suf
    assume "0 < yline (h' ! a)" "a < length h'" "s2 # path = pre @ suf" "suf \<noteq> []" "node_at h' m pre = Some a"
    then show ?thesis
      by (intro disjI2 conjI exI [of _ "seg # pre"] exI [of _ suf]) (simp_all add: step del: node_at.simps)
  qed
qed

text \<open>
  The target selects a document: it is the root of a document that matches when its turn comes,
  after the patches of earlier targets and documents.
\<close>

definition doc_selected ::
    "manifest_lib \<Rightarrow> strmap \<Rightarrow> target_spec \<Rightarrow> yaddr list \<Rightarrow> edit_state \<Rightarrow> yaddr \<Rightarrow> bool" where
  "doc_selected L data t docs st root \<longleftrightarrow>
     (\<exists>ds doc ds' m st1. docs = ds @ doc # ds' \<and> apply_docs L data t ds 0 st = Ok (m, st1) \<and>
        document_map (st_heap st1) doc = Inr root \<and>
        matches_target (lib_selector L) (st_heap st1) root t = Ok True)"

definition target_selected ::
    "manifest_lib \<Rightarrow> strmap \<Rightarrow> yaddr list \<Rightarrow> target_spec list \<Rightarrow> edit_state \<Rightarrow> target_spec \<Rightarrow> yaddr \<Rightarrow> bool" where
  "target_selected L data docs targets st t root \<longleftrightarrow>
     (\<exists>ts ts' st1. targets = ts @ t # ts' \<and> apply_targets L data docs ts st = Ok st1 \<and>
        doc_selected L data t docs st1 root)"

text \<open>
  A write configured by the targets: in a document that one of them selects, the field of one of
  its patches leads, in the manifest as it was decoded, to the node, and the value is what the
  patch's template renders to, which is not blank.
\<close>

definition configured_write ::
    "manifest_lib \<Rightarrow> strmap \<Rightarrow> yheap \<Rightarrow> yaddr list \<Rightarrow> target_spec list \<Rightarrow> yaddr \<Rightarrow> string \<Rightarrow> bool" where
  "configured_write L data h docs targets node v \<longleftrightarrow>
     (\<exists>t root p. target_selected L data docs targets \<lparr>st_heap = h, st_edits = [], st_insertions = []\<rparr> t root \<and>
        p \<in> set (target_patches t) \<and> lib_render L (patch_template p) data = Inr v \<and> trim_space v \<noteq> '''' \<and>
        node_at h root (field_path (patch_field p)) = Some node)"

text \<open>
  A place where keys may be inserted: the field of such a patch leads through it, but not to it.
\<close>

definition configured_place ::
    "manifest_lib \<Rightarrow> strmap \<Rightarrow> yheap \<Rightarrow> yaddr list \<Rightarrow> target_spec list \<Rightarrow> yaddr \<Rightarrow> bool" where
  "configured_place L data h docs targets node \<longleftrightarrow>
     (\<exists>t root p pre suf. target_selected L data docs targets \<lparr>st_heap = h, st_edits = [], st_insertions = []\<rparr> t root \<and>
        p \<in> set (target_patches t) \<and> field_path (patch_field p) = pre @ suf \<and> suf \<noteq> [] \<and>
        node_at h root pre = Some node)"

text \<open>The state while the edits are collected, for the writes and places that are allowed.\<close>

definition collecting :: "yheap \<Rightarrow> (yaddr \<Rightarrow> string \<Rightarrow> bool) \<Rightarrow> (yaddr \<Rightarrow> bool) \<Rightarrow> edit_state \<Rightarrow> bool" where
  "collecting h W P st \<longleftrightarrow> grown h (st_heap st) \<and> yheap_ok (st_heap st) \<and>
     (\<forall>(node, v)\<in>set (st_edits st). W node v) \<and> (\<forall>a\<in>fst ` set (st_insertions st). P a)"

definition patch_write :: "manifest_lib \<Rightarrow> strmap \<Rightarrow> yheap \<Rightarrow> target_spec \<Rightarrow> yaddr \<Rightarrow> yaddr \<Rightarrow> string \<Rightarrow> bool" where
  "patch_write L data h t root node v \<longleftrightarrow>
     (\<exists>p\<in>set (target_patches t). lib_render L (patch_template p) data = Inr v \<and> trim_space v \<noteq> '''' \<and>
        node_at h root (field_path (patch_field p)) = Some node)"

definition patch_place :: "yheap \<Rightarrow> target_spec \<Rightarrow> yaddr \<Rightarrow> yaddr \<Rightarrow> bool" where
  "patch_place h t root node \<longleftrightarrow>
     (\<exists>p\<in>set (target_patches t). \<exists>pre suf. field_path (patch_field p) = pre @ suf \<and> suf \<noteq> [] \<and>
        node_at h root pre = Some node)"

lemma field_path_nonempty: "field_path f \<noteq> []"
proof -
  have "split_on c s \<noteq> []" for c s by (induction s) (auto split: list.splits)
  then show ?thesis by (simp add: field_path_def)
qed

lemma apply_patch_collecting:
  assumes ok: "yheap_ok h" and ap: "keys_apart h" and st: "collecting h W P st" and root: "root < length h"
    and p: "p \<in> set (target_patches t)" and W: "\<And>n v. patch_write L data h t root n v \<Longrightarrow> W n v"
    and P: "\<And>n. patch_place h t root n \<Longrightarrow> P n"
    and run: "apply_patch L data t root p st = Ok st'"
  shows "collecting h W P st'"
proof -
  from run obtain v where v: "lib_render L (patch_template p) data = Inr v"
    by (auto simp: apply_patch_def split: sum.splits)
  show ?thesis
  proof (cases "trim_space v = ''''")
    case True
    with st run v show ?thesis by (simp add: apply_patch_def)
  next
    case False
    with run v obtain node h1 ins where
      s: "set_scalar (st_heap st) (st_insertions st) root [] (field_path (patch_field p)) v = Inr (node, h1, ins)"
      and st': "st' = record_value node v (st\<lparr>st_heap := h1, st_insertions := ins\<rparr>)"
      by (auto simp: apply_patch_def split: sum.splits)
    have g: "grown h (st_heap st)" and ok1: "yheap_ok (st_heap st)" using st by (simp_all add: collecting_def)
    have r: "root < length (st_heap st)" using grown_old [OF g root] by simp
    note m = set_scalar_main [OF ok1 r s]
    have g1: "grown h h1" by (rule grown_trans [OF g set_scalar_grown [OF ok1 r s]])
    have r1: "root < length h1" using grown_old [OF g1 root] by simp
    obtain b where "b < length h1" "node \<in> set (items_of (h1 ! b))"
      using node_at_item [OF _ r1 _ field_path_nonempty] m by blast
    with item_not_key [OF g1 ok ap] have nk: "node \<notin> keys_in h" by blast
    have new: "W node v" if "0 < yline (h1 ! node)"
    proof (rule W)
      have "node < length h"
        using that grown_new [OF g1, of node] m by (cases "node < length h") auto
      with node_at_original [OF g1 ok _ root] m have "node_at h root (field_path (patch_field p)) = Some node" by blast
      with p v False show "patch_write L data h t root node v" unfolding patch_write_def by blast
    qed
    have old: "\<forall>(n, u)\<in>set (st_edits st). W n u" using st by (simp add: collecting_def)
    have "\<forall>(n, u)\<in>set (st_edits st'). W n u"
    proof (cases "0 < yline (h1 ! node)")
      case True
      then have "set (st_edits st') \<subseteq> insert (node, v) (set (st_edits st))"
        using set_update_subset by (simp add: st' record_value_def)
      with old new [OF True] show ?thesis by blast
    qed (use old in \<open>simp add: st' record_value_def\<close>)
    moreover have "P a" if a: "a \<in> fst ` set (st_insertions st')" for a
    proof -
      from a have "a \<in> fst ` set ins" by (simp add: st' record_value_def)
      from set_scalar_places [OF ok1 r s this] show ?thesis
      proof (elim disjE conjE exE)
        assume "a \<in> fst ` set (st_insertions st)"
        with st show ?thesis unfolding collecting_def by blast
      next
        fix pre suf
        assume pos: "0 < yline (h1 ! a)" "a < length h1" and path: "field_path (patch_field p) = pre @ suf" "suf \<noteq> []"
          and at: "node_at h1 root pre = Some a"
        have "a < length h" using pos grown_new [OF g1, of a] by (cases "a < length h") auto
        with node_at_original [OF g1 ok _ root at] m have "node_at h root pre = Some a" by blast
        with p path show ?thesis by (intro P) (auto simp: patch_place_def)
      qed
    qed
    moreover have "grown h (st_heap st')" "yheap_ok (st_heap st')"
      unfolding st' using g1 m by (simp_all add: record_value_grown [OF _ _ nk] yheap_ok_record)
    ultimately show ?thesis unfolding collecting_def by simp
  qed
qed

lemma apply_patches_collecting:
  assumes "yheap_ok h" and "keys_apart h" and "root < length h" and "\<And>n v. patch_write L data h t root n v \<Longrightarrow> W n v"
    and "\<And>n. patch_place h t root n \<Longrightarrow> P n"
    and "set ps \<subseteq> set (target_patches t)" and "collecting h W P st" and "apply_patches L data t root ps st = Ok st'"
  shows "collecting h W P st'"
  using assms(6-8)
proof (induction ps arbitrary: st)
  case (Cons p ps)
  then obtain st1 where one: "apply_patch L data t root p st = Ok st1" and rest: "apply_patches L data t root ps st1 = Ok st'"
    by (auto simp: result_iff)
  have "collecting h W P st1"
    by (rule apply_patch_collecting [OF assms(1,2) Cons.prems(2) assms(3) _ assms(4,5) one]) (use Cons.prems(1) in simp_all)
  with Cons.IH Cons.prems(1) rest show ?case by simp
qed simp

lemma apply_docs_append:
  "apply_docs L data t (xs @ ys) k st = obind (apply_docs L data t xs k st) (\<lambda>(m, st1). apply_docs L data t ys m st1)"
  by (induction L data t xs k st rule: apply_docs.induct) (auto simp: obind_def split: sum.split outcome.split)

lemma apply_docs_collecting:
  assumes ok: "yheap_ok h" "keys_apart h" and st: "collecting h W P st"
    and "\<forall>d\<in>set docs. d < length h" and "apply_docs L data t docs 0 st = Ok (m, st')"
    and "\<And>root n v. doc_selected L data t docs st root \<Longrightarrow> patch_write L data h t root n v \<Longrightarrow> W n v"
    and "\<And>root n. doc_selected L data t docs st root \<Longrightarrow> patch_place h t root n \<Longrightarrow> P n"
  shows "collecting h W P st'"
  using assms(4-7)
proof (induction docs arbitrary: m st' rule: rev_induct)
  case Nil
  with st show ?case by simp
next
  case (snoc doc docs)
  then obtain k st1 where pre: "apply_docs L data t docs 0 st = Ok (k, st1)"
    and one: "apply_docs L data t [doc] k st1 = Ok (m, st')"
    by (auto simp: apply_docs_append result_iff)
  have c: "collecting h W P st1"
  proof (rule snoc.IH [OF _ pre])
    have later: "doc_selected L data t (docs @ [doc]) st root" if "doc_selected L data t docs st root" for root
      using that unfolding doc_selected_def by (metis append.assoc append_Cons)
    show "W n v" if "doc_selected L data t docs st root" "patch_write L data h t root n v" for root n v
      using that snoc.prems(3) later by blast
    show "P n" if "doc_selected L data t docs st root" "patch_place h t root n" for root n
      using that snoc.prems(4) later by blast
  qed (use snoc.prems in auto)
  from one obtain root b where root: "document_map (st_heap st1) doc = Inr root"
    and match: "matches_target (lib_selector L) (st_heap st1) root t = Ok b"
    by (auto simp: result_iff split: sum.splits)
  show ?case
  proof (cases b)
    case False
    with one root match c show ?thesis by (auto simp: result_iff)
  next
    case True
    with one root match have p: "apply_patches L data t root (target_patches t) st1 = Ok st'"
      by (auto simp: result_iff)
    have sel: "doc_selected L data t (docs @ [doc]) st root"
      unfolding doc_selected_def
      by (rule exI [of _ docs], rule exI [of _ doc], rule exI [of _ "[]"], rule exI [of _ k], rule exI [of _ st1])
        (use pre root match True in simp)
    have "root < length h"
      by (rule document_map_original(2) [OF _ ok(1) _ root]) (use c snoc.prems(1) in \<open>auto simp: collecting_def\<close>)
    from apply_patches_collecting [OF ok this snoc.prems(3) [OF sel] snoc.prems(4) [OF sel] subset_refl c p] show ?thesis .
  qed
qed

lemma apply_targets_append:
  "apply_targets L data docs (xs @ ys) st = obind (apply_targets L data docs xs st) (apply_targets L data docs ys)"
  by (induction xs arbitrary: st) (auto simp: obind_def split: outcome.split)

lemma apply_targets_collecting:
  assumes ok: "yheap_ok h" "keys_apart h" and st: "collecting h W P st"
    and docs: "\<forall>d\<in>set docs. d < length h" and "apply_targets L data docs targets st = Ok st'"
    and "\<And>t root n v. target_selected L data docs targets st t root \<Longrightarrow> patch_write L data h t root n v \<Longrightarrow> W n v"
    and "\<And>t root n. target_selected L data docs targets st t root \<Longrightarrow> patch_place h t root n \<Longrightarrow> P n"
  shows "collecting h W P st'"
  using assms(5-7)
proof (induction targets arbitrary: st' rule: rev_induct)
  case Nil
  with st show ?case by simp
next
  case (snoc t targets)
  then obtain st1 m where pre: "apply_targets L data docs targets st = Ok st1"
    and one: "apply_docs L data t docs 0 st1 = Ok (m, st')"
    by (auto simp: apply_targets_append result_iff split: if_splits)
  have c: "collecting h W P st1"
  proof (rule snoc.IH [OF pre])
    have later: "target_selected L data docs (targets @ [t]) st t' root"
      if "target_selected L data docs targets st t' root" for t' root
      using that unfolding target_selected_def by (metis append.assoc append_Cons)
    show "W n v" if "target_selected L data docs targets st t' root" "patch_write L data h t' root n v" for t' root n v
      using that snoc.prems(2) later by blast
    show "P n" if "target_selected L data docs targets st t' root" "patch_place h t' root n" for t' root n
      using that snoc.prems(3) later by blast
  qed
  have now: "target_selected L data docs (targets @ [t]) st t root" if "doc_selected L data t docs st1 root" for root
    using that pre unfolding target_selected_def by blast
  show ?case
    by (rule apply_docs_collecting [OF ok c docs one]) (use now snoc.prems(2,3) in blast)+
qed

section \<open>When nothing changes\<close>

lemma weave_identity:
  assumes "spans_from input pos es"
    and "\<forall>e\<in>set es. edit_value e = take (edit_end e - edit_start e) (drop (edit_start e) input)"
  shows "weave input pos es = drop pos input"
  using assms
proof (induction es arbitrary: pos)
  case Nil
  then show ?case by simp
next
  case (Cons e es)
  then have e: "pos \<le> edit_start e" "edit_start e \<le> edit_end e"
    and v: "edit_value e = take (edit_end e - edit_start e) (drop (edit_start e) input)" by auto
  have "drop (edit_start e) input = edit_value e @ drop (edit_end e) input"
    using e(2) by (metis append_take_drop_id drop_drop le_add_diff_inverse2 v)
  moreover have "drop pos input = take (edit_start e - pos) (drop pos input) @ drop (edit_start e) input"
    using e(1) by (metis append_take_drop_id drop_drop le_add_diff_inverse2)
  moreover have "weave input (edit_end e) es = drop (edit_end e) input"
    using Cons by simp
  ultimately show ?case by simp
qed

lemma apply_edits_identity:
  assumes "collect_edits Y input h values ins = Ok es"
    and "distinct (map edit_start es)" and "spans_disjoint input es"
    and "\<forall>e\<in>set es. edit_value e = take (edit_end e - edit_start e) (drop (edit_start e) input)"
  shows "apply_yaml_edits Y input h values ins = Ok input"
proof -
  let ?asc = "rev (exchange_sort es)"
  have m: "set ?asc = set es" using mset_eq_permuteD [OF exchange_sort_mset [of es]] by simp
  have s: "sorted_wrt (\<lambda>a b. edit_start a < edit_start b) ?asc"
    using exchange_sort_strict [OF assms(2)] by (simp add: sorted_wrt_rev)
  have f: "spans_from input 0 ?asc"
    using spans_disjoint_ascending [OF assms(3) s] m by simp
  have "weave input 0 ?asc = drop 0 input"
    using weave_identity [OF f] assms(4) m by blast
  with splice_all_rev_weave [OF f] assms(1) show ?thesis by (simp add: apply_yaml_edits_def)
qed

section \<open>Properties\<close>

text \<open>
  C5. Only configured fields are written. When the manifest changes, every scalar that is
  replaced is the node to which, in the manifest as it was read, the field of one of a
  target's patches leads from the root of a document that this target selects, and its new
  value is that patch's rendered template, which is never blank; and keys are inserted only
  in mappings that such a field leads through.
\<close>

theorem manifest_writes_only_configured:
  assumes "yaml_decode (lib_yaml L) input = Inr (h, all_docs)"
    and "yheap_ok h" and "keys_apart h" and "\<forall>d\<in>set all_docs. d < length h"
    and "update_manifest L input targets data = Ok (out, True)"
  shows "\<exists>st. apply_targets L data (filter (\<lambda>d. ycontent (h ! d) \<noteq> []) all_docs) targets
        \<lparr>st_heap = h, st_edits = [], st_insertions = []\<rparr> = Ok st \<and>
      apply_yaml_edits (lib_yaml L) input (st_heap st) (order_edits (lib_order L) (st_edits st))
        (order_insertions (lib_order L) (st_insertions st)) = Ok out \<and> out \<noteq> input \<and>
      (\<forall>(node, v)\<in>set (st_edits st).
        configured_write L data h (filter (\<lambda>d. ycontent (h ! d) \<noteq> []) all_docs) targets node v) \<and>
      (\<forall>parent\<in>fst ` set (st_insertions st).
        configured_place L data h (filter (\<lambda>d. ycontent (h ! d) \<noteq> []) all_docs) targets parent)"
proof -
  let ?docs = "filter (\<lambda>d. ycontent (h ! d) \<noteq> []) all_docs"
  let ?st0 = "\<lparr>st_heap = h, st_edits = [], st_insertions = []\<rparr>"
  from assms(1,5) obtain st where
    st: "apply_targets L data ?docs targets ?st0 = Ok st"
    and out: "apply_yaml_edits (lib_yaml L) input (st_heap st)
      (order_edits (lib_order L) (st_edits st))
      (order_insertions (lib_order L) (st_insertions st)) = Ok out" "out \<noteq> input"
    by (auto simp: update_manifest_def Let_def result_iff split: if_splits)
  have "collecting h (configured_write L data h ?docs targets) (configured_place L data h ?docs targets) st"
  proof (rule apply_targets_collecting [OF assms(2,3) _ _ st])
    show "configured_write L data h ?docs targets n v"
      if "target_selected L data ?docs targets ?st0 t root" "patch_write L data h t root n v" for t root n v
      using that unfolding configured_write_def patch_write_def by blast
    show "configured_place L data h ?docs targets n"
      if "target_selected L data ?docs targets ?st0 t root" "patch_place h t root n" for t root n
      using that unfolding configured_place_def patch_place_def by blast
  qed (use assms(2,4) in \<open>simp_all add: collecting_def\<close>)
  with st out show ?thesis unfolding collecting_def by blast
qed

text \<open>
  A manifest that already holds the rendered values is returned byte for byte and reported
  unchanged, so no commit follows: it is enough that every edit replaces its span by the
  text that is already there.
\<close>

theorem manifest_noop_when_current:
  assumes "yaml_decode (lib_yaml L) input = Inr (h, all_docs)"
    and "apply_targets L data (filter (\<lambda>d. ycontent (h ! d) \<noteq> []) all_docs) targets
        \<lparr>st_heap = h, st_edits = [], st_insertions = []\<rparr> = Ok st"
    and "collect_edits (lib_yaml L) input (st_heap st) (order_edits (lib_order L) (st_edits st))
        (order_insertions (lib_order L) (st_insertions st)) = Ok es"
    and "distinct (map edit_start es)" and "spans_disjoint input es"
    and "\<forall>e\<in>set es. edit_value e = take (edit_end e - edit_start e) (drop (edit_start e) input)"
  shows "update_manifest L input targets data = Ok (input, False)"
  using apply_edits_identity [OF assms(3-6)] assms(1,2)
  by (simp add: update_manifest_def Let_def)

text \<open>
  A target that no document matches fails the whole update, before any byte is edited: the
  caller gets the \<^verbatim>\<open>not found in manifest\<close> error and no output.
\<close>

theorem manifest_missing_target_fails:
  assumes "yaml_decode (lib_yaml L) input = Inr (h, all_docs)"
    and "\<forall>doc\<in>set all_docs. ycontent (h ! doc) \<noteq> [] \<longrightarrow>
      (\<exists>root. document_map h doc = Inr root \<and> matches_target (lib_selector L) h root t = Ok False)"
  shows "update_manifest L input (t # ts) data = Fail (target_not_found t)"
proof -
  have "apply_docs L data t docs 0 \<lparr>st_heap = h, st_edits = [], st_insertions = []\<rparr> =
      Ok (0, \<lparr>st_heap = h, st_edits = [], st_insertions = []\<rparr>)"
    if "set docs \<subseteq> {doc\<in>set all_docs. ycontent (h ! doc) \<noteq> []}" for docs
    using that assms(2) by (induction docs) auto
  from this [of "filter (\<lambda>d. ycontent (h ! d) \<noteq> []) all_docs"] assms(1) show ?thesis
    by (simp add: update_manifest_def Let_def)
qed

section \<open>Witnesses\<close>

definition demo_doc_with :: "string \<Rightarrow> string" where
  "demo_doc_with v = concat (map (\<lambda>l. l @ [newline])
     [''apiVersion: v1'', ''kind: A'', ''metadata:'', ''  name: x'', ''spec:'', ''  tag: '' @ v])"

definition demo_doc :: string where
  "demo_doc = demo_doc_with ''old''"

definition demo_doc_heap :: yheap where
  "demo_doc_heap =
     [(new_node DocumentNode '''' '''')\<lparr>yline := 1, ycolumn := 1, ycontent := [1]\<rparr>,
      demo_mapping [2, 3, 4, 5, 6, 7, 10, 11] 1 1,
      demo_scalar ''apiVersion'' 1 1, demo_scalar ''v1'' 1 13,
      demo_scalar ''kind'' 2 1, demo_scalar ''A'' 2 7,
      demo_scalar ''metadata'' 3 1, demo_mapping [8, 9] 4 3,
      demo_scalar ''name'' 4 3, demo_scalar ''x'' 4 9,
      demo_scalar ''spec'' 5 1, demo_mapping [12, 13] 6 3,
      demo_scalar ''tag'' 6 3, demo_scalar ''old'' 6 8]"

definition demo_lib :: manifest_lib where
  "demo_lib =
     \<lparr>lib_yaml = demo_yaml\<lparr>yaml_decode := (\<lambda>s. Inr (demo_doc_heap, [0]))\<rparr>,
      lib_selector = (\<lambda>s. Inr (\<lambda>m. True)),
      lib_render = (\<lambda>t data. Inr (gomap_get data t)),
      lib_order = \<lparr>order_edits = (\<lambda>xs. xs), order_insertions = (\<lambda>xs. xs)\<rparr>\<rparr>"

definition demo_target :: "string \<Rightarrow> target_spec" where
  "demo_target name =
     \<lparr>target_api_version = ''v1'', target_kind = ''A'', target_name = name,
      target_namespace = '''', target_selector = None,
      target_patches = [\<lparr>patch_field = ''spec.tag'', patch_template = ''tag''\<rparr>]\<rparr>"

lemma demo_decode: "yaml_decode (lib_yaml demo_lib) s = Inr (demo_doc_heap, [0])"
  by (simp add: demo_lib_def)

lemma demo_update:
  "update_manifest demo_lib demo_doc [demo_target ''x''] [''tag'' \<mapsto> ''v2''] =
    Ok (demo_doc_with ''v2'', True)"
  by code_simp

lemma demo_doc_heap_ok: "yheap_ok demo_doc_heap" "keys_apart demo_doc_heap"
  by code_simp+

theorem manifest_writes_only_configured_witness:
  "apply_targets demo_lib [''tag'' \<mapsto> ''v2''] [0] [demo_target ''x'']
      \<lparr>st_heap = demo_doc_heap, st_edits = [], st_insertions = []\<rparr> =
      Ok \<lparr>st_heap = demo_doc_heap[13 := (demo_doc_heap ! 13)\<lparr>yvalue := ''v2''\<rparr>],
          st_edits = [(13, ''v2'')], st_insertions = []\<rparr> \<and>
    configured_write demo_lib [''tag'' \<mapsto> ''v2''] demo_doc_heap [0] [demo_target ''x''] 13 ''v2'' \<and>
    demo_doc_with ''v2'' \<noteq> demo_doc"
proof -
  let ?st0 = "\<lparr>st_heap = demo_doc_heap, st_edits = [], st_insertions = []\<rparr>"
  have f: "filter (\<lambda>d. ycontent (demo_doc_heap ! d) \<noteq> []) [0] = [0]"
    by (simp add: demo_doc_heap_def)
  have len: "\<forall>d\<in>set [0]. d < length demo_doc_heap" by (simp add: demo_doc_heap_def)
  have run: "apply_targets demo_lib [''tag'' \<mapsto> ''v2''] [0] [demo_target ''x''] ?st0 =
      Ok \<lparr>st_heap = demo_doc_heap[13 := (demo_doc_heap ! 13)\<lparr>yvalue := ''v2''\<rparr>],
          st_edits = [(13, ''v2'')], st_insertions = []\<rparr>"
    by code_simp
  from manifest_writes_only_configured [OF demo_decode demo_doc_heap_ok len demo_update, unfolded f] run
  show ?thesis by auto
qed

theorem manifest_noop_when_current_witness:
  "update_manifest demo_lib demo_doc [demo_target ''x''] [''tag'' \<mapsto> ''old''] = Ok (demo_doc, False)"
proof -
  let ?st = "\<lparr>st_heap = demo_doc_heap, st_edits = [(13, ''old'')], st_insertions = []\<rparr>"
  let ?es = "[\<lparr>edit_start = 56, edit_end = 59, edit_value = ''old''\<rparr>]"
  have st: "apply_targets demo_lib [''tag'' \<mapsto> ''old''] (filter (\<lambda>d. ycontent (demo_doc_heap ! d) \<noteq> []) [0])
      [demo_target ''x''] \<lparr>st_heap = demo_doc_heap, st_edits = [], st_insertions = []\<rparr> = Ok ?st"
    by code_simp
  have es: "collect_edits (lib_yaml demo_lib) demo_doc (st_heap ?st)
      (order_edits (lib_order demo_lib) (st_edits ?st))
      (order_insertions (lib_order demo_lib) (st_insertions ?st)) = Ok ?es"
    by code_simp
  have sp: "spans_disjoint demo_doc ?es" by (simp add: spans_disjoint_def demo_doc_def demo_doc_with_def)
  have same: "\<forall>e\<in>set ?es. edit_value e = take (edit_end e - edit_start e) (drop (edit_start e) demo_doc)"
    by (simp add: demo_doc_def demo_doc_with_def newline_def)
  from manifest_noop_when_current [OF demo_decode st es _ sp same] show ?thesis by simp
qed

theorem manifest_missing_target_fails_witness:
  "update_manifest demo_lib demo_doc [demo_target ''y''] [''tag'' \<mapsto> ''v2''] =
    Fail (target_not_found (demo_target ''y''))"
proof -
  have d: "document_map demo_doc_heap 0 = Inr 1" by code_simp
  have m: "matches_target (lib_selector demo_lib) demo_doc_heap 1 (demo_target ''y'') = Ok False"
    by code_simp
  show ?thesis
    by (rule manifest_missing_target_fails [OF demo_decode]) (use d m in simp)
qed

end
