(* ===== verification/Effects.thy ===== *)
theory Effects
  imports Api Matcher Progress Manifest "HOL-Library.State_Monad"
begin

text \<open>
  The outside world. Everything the controller does not compute itself -- the clock, the
  environment, files, git remotes, HTTP, the Kubernetes API -- is an \<open>env\<close>: one
  function per service, indexed by the number of calls made so far, so that two identical
  calls may be answered differently. A computation is a state transformer on \<open>world\<close>, which
  counts the calls, records each with its answer (newest first), and holds the reconciler's
  own mutable fields. Nothing is assumed about an environment.

  The second half is the program logic of the component proofs: \<open>ensures P m Q\<close> says that
  every call of \<open>m\<close> satisfies \<open>P\<close> and its result \<open>Q\<close>.
\<close>

section \<open>Requests and answers\<close>

datatype json = JNull | JBool bool | JNumber string | JStr string | JArr "json list" | JObj "(string \<times> json) list"

datatype http_method = GET | HEAD

record http_request =
  http_method :: http_method
  http_url :: string
  http_headers :: "(string \<times> string) list"
  http_follow :: bool

text \<open>A body is the bytes that arrive and the error, if any, that ends them early.\<close>

record http_response =
  resp_status :: int
  resp_header :: "string \<Rightarrow> string"
  resp_body :: string
  resp_body_error :: "go_error option"

text \<open>The parts of a \<^verbatim>\<open>url.URL\<close> the program reads or writes.\<close>

record url =
  url_scheme :: string
  url_has_user :: bool
  url_host :: string
  url_path :: string
  url_raw_query :: string
  url_fragment :: string

datatype host_check = KnownHosts string | InsecureHostKey

datatype git_auth = NoAuth | HttpBasic string string | SshKey string host_check

text \<open>A hash reference, as \<^verbatim>\<open>plumbing.Reference\<close>: its name and its object id.\<close>

record git_ref =
  ref_name :: string
  ref_hash :: string

text \<open>What \<^verbatim>\<open>git-upload-pack\<close> advertises: the refs, and the peeled id of each annotated tag.\<close>

record advertised =
  adv_refs :: "git_ref list"
  adv_peeled :: "(string \<times> string) list"

datatype git_call =
    GitClone string string git_auth string
  | GitWorktree string
  | GitCheckout string string string
  | GitAdd string string
  | GitCommit string string time
  | GitHead string
  | GitPush string git_auth

datatype fs_call =
    ReadFile string
  | WriteFile string string
  | CreateTemp string
  | WriteTemp string string
  | CloseTemp string
  | Remove string
  | RemoveAll string
  | Mkdir string nat
  | MkdirTemp string string
  | OpenLock string
  | Flock string
  | Funlock string
  | CloseFd string

datatype file_type = RegularFile | Directory | OtherFile

record file_status =
  file_type :: file_type
  file_uid :: int
  file_mode :: nat

datatype stat_call = Lstat string | Fstat string

datatype kube_get = Found tag_updater | Missing go_error | GetFailed go_error

record credentials =
  cred_token :: string
  cred_username :: string
  cred_password :: string
  cred_ssh_key :: string
  cred_known_hosts :: string
  cred_insecure :: bool

record writer =
  wr_spec :: write_back_spec
  wr_credentials :: credentials
  wr_targets :: "target_spec list"
  wr_data :: strmap

section \<open>The environment and the world\<close>

text \<open>
  \<open>env_patience\<close> bounds the pages the model follows in a paginated listing, which in the
  code is unbounded: running out of it is the outcome \<open>Hang\<close>.
  Fields \<open>env_*\<close> answer calls; fields \<open>lib_*\<close> are pure library functions. \<open>lib_json\<close>
  parses the first JSON value of a stream, \<open>lib_json_all\<close> a whole document.
\<close>

record env =
  env_now :: "nat \<Rightarrow> time"
  env_var :: "string \<Rightarrow> string"
  env_euid :: int
  env_temp_dir :: string
  env_fs :: "nat \<Rightarrow> fs_call \<Rightarrow> string result"
  env_stat :: "nat \<Rightarrow> stat_call \<Rightarrow> file_status result"
  env_readdir :: "nat \<Rightarrow> string \<Rightarrow> string list result"
  env_known_hosts :: "nat \<Rightarrow> string \<Rightarrow> string result"
  env_git :: "nat \<Rightarrow> git_call \<Rightarrow> string result"
  env_ls_remote :: "nat \<Rightarrow> git_auth \<Rightarrow> string \<Rightarrow> advertised result"
  env_http :: "nat \<Rightarrow> http_request \<Rightarrow> http_response result"
  env_get_updater :: "nat \<Rightarrow> string \<Rightarrow> string \<Rightarrow> kube_get"
  env_list_updaters :: "nat \<Rightarrow> tag_updater list result"
  env_update_status :: "nat \<Rightarrow> tag_updater \<Rightarrow> unit result"
  env_secret :: "nat \<Rightarrow> string \<Rightarrow> string \<Rightarrow> strmap result"
  env_app :: "nat \<Rightarrow> string \<Rightarrow> string \<Rightarrow> json result"
  env_recorder :: bool
  env_dynamic :: bool
  env_patience :: nat
  lib_compile :: "string \<Rightarrow> regexp result"
  lib_sort :: "(match \<Rightarrow> match \<Rightarrow> bool) \<Rightarrow> match list \<Rightarrow> match list"
  lib_manifest :: manifest_lib
  lib_ssh_key :: "string \<Rightarrow> unit result"
  lib_request :: "string \<Rightarrow> unit result"
  lib_url_parse :: "string \<Rightarrow> url result"
  lib_url_string :: "url \<Rightarrow> string"
  lib_json :: "string \<Rightarrow> json result"
  lib_json_all :: "string \<Rightarrow> json result"
  lib_parse_time :: "string \<Rightarrow> time option"
  lib_selector_json :: "label_selector option \<Rightarrow> string result"
  lib_duration_text :: "duration \<Rightarrow> string"

datatype event =
    EvFs fs_call "string result"
  | EvStat stat_call "file_status result"
  | EvReadDir string "string list result"
  | EvKnownHosts string "string result"
  | EvGit git_call "string result"
  | EvLsRemote git_auth string "advertised result"
  | EvHttp http_request "http_response result"
  | EvGetUpdater string string kube_get
  | EvListUpdaters "tag_updater list result"
  | EvStatusUpdate tag_updater "unit result"
  | EvGetSecret string string "strmap result"
  | EvGetApp string string "json result"
  | EvRecord bool string string
  | EvApply writer

record world =
  w_tick :: nat
  w_trace :: "event list"
  w_progress :: progress_tracker
  w_first_rev_attempt :: time
  w_last_rev_success :: time

type_synonym 'a io = "(world, 'a) state"

abbreviation ret :: "'a \<Rightarrow> 'a io" where "ret \<equiv> State_Monad.return"

text \<open>A call: the answer is the environment's for this tick, and the call is recorded with it.\<close>

definition ask :: "(nat \<Rightarrow> 'a) \<Rightarrow> ('a \<Rightarrow> event) \<Rightarrow> 'a io" where
  "ask answer ev = State (\<lambda>w. (answer (w_tick w),
     w\<lparr>w_tick := Suc (w_tick w), w_trace := ev (answer (w_tick w)) # w_trace w\<rparr>))"

text \<open>Reading the clock is a call that leaves no event.\<close>

definition clock :: "env \<Rightarrow> time io" where
  "clock E = State (\<lambda>w. (env_now E (w_tick w), w\<lparr>w_tick := Suc (w_tick w)\<rparr>))"

text \<open>A note marks a point of the program in the trace.\<close>

definition note_event :: "event \<Rightarrow> unit io" where
  "note_event e = State (\<lambda>w. ((), w\<lparr>w_trace := e # w_trace w\<rparr>))"

definition read_progress :: "progress_tracker io" where
  "read_progress = State (\<lambda>w. (w_progress w, w))"

definition modify_progress :: "(progress_tracker \<Rightarrow> progress_tracker) \<Rightarrow> unit io" where
  "modify_progress f = State (\<lambda>w. ((), w\<lparr>w_progress := f (w_progress w)\<rparr>))"

definition modify_rev_clock :: "(time \<Rightarrow> time) \<Rightarrow> (time \<Rightarrow> time) \<Rightarrow> unit io" where
  "modify_rev_clock f g = State (\<lambda>w. ((),
     w\<lparr>w_first_rev_attempt := f (w_first_rev_attempt w),
       w_last_rev_success := g (w_last_rev_success w)\<rparr>))"

definition do_fs :: "env \<Rightarrow> fs_call \<Rightarrow> string result io" where
  "do_fs E c = ask (\<lambda>n. env_fs E n c) (EvFs c)"

definition do_stat :: "env \<Rightarrow> stat_call \<Rightarrow> file_status result io" where
  "do_stat E c = ask (\<lambda>n. env_stat E n c) (EvStat c)"

definition do_git :: "env \<Rightarrow> git_call \<Rightarrow> string result io" where
  "do_git E c = ask (\<lambda>n. env_git E n c) (EvGit c)"

definition do_http :: "env \<Rightarrow> http_request \<Rightarrow> http_response result io" where
  "do_http E q = ask (\<lambda>n. env_http E n q) (EvHttp q)"

definition ls_remote :: "env \<Rightarrow> git_auth \<Rightarrow> string \<Rightarrow> advertised result io" where
  "ls_remote E a u = ask (\<lambda>n. env_ls_remote E n a u) (EvLsRemote a u)"

definition load_known_hosts :: "env \<Rightarrow> string \<Rightarrow> string result io" where
  "load_known_hosts E f = ask (\<lambda>n. env_known_hosts E n f) (EvKnownHosts f)"

definition get_secret :: "env \<Rightarrow> string \<Rightarrow> string \<Rightarrow> strmap result io" where
  "get_secret E ns n = ask (\<lambda>i. env_secret E i ns n) (EvGetSecret ns n)"

definition update_status :: "env \<Rightarrow> tag_updater \<Rightarrow> unit result io" where
  "update_status E tu = ask (\<lambda>n. env_update_status E n tu) (EvStatusUpdate tu)"

text \<open>\<^verbatim>\<open>if r.Recorder != nil { r.Recorder.Event(...) }\<close>; the flag is the warning type.\<close>

definition record_event :: "env \<Rightarrow> bool \<Rightarrow> string \<Rightarrow> string \<Rightarrow> unit io" where
  "record_event E warn reason msg =
     (if env_recorder E then note_event (EvRecord warn reason msg) else ret ())"

section \<open>What a computation does\<close>

definition ensures :: "(event \<Rightarrow> bool) \<Rightarrow> 'a io \<Rightarrow> ('a \<Rightarrow> bool) \<Rightarrow> bool" where
  "ensures P m Q \<longleftrightarrow> (\<forall>w. \<exists>es. w_trace (snd (run_state m w)) = es @ w_trace w \<and>
     (\<forall>e\<in>set es. P e) \<and> Q (fst (run_state m w)))"

named_theorems ensures_intro \<open>introduction rules for what a computation does\<close>

lemma ensures_return [ensures_intro]: "Q x \<Longrightarrow> ensures P (ret x) Q"
  by (simp add: ensures_def)

lemma ensures_bind:
  assumes "ensures P m R" and "\<And>x. R x \<Longrightarrow> ensures P (f x) Q"
  shows "ensures P (m \<bind> f) Q"
  unfolding ensures_def
proof
  fix w
  obtain x w1 where m: "run_state m w = (x, w1)" by (cases "run_state m w")
  with assms(1) obtain es where es: "w_trace w1 = es @ w_trace w" "\<forall>e\<in>set es. P e" "R x"
    unfolding ensures_def by (metis fst_conv snd_conv)
  from assms(2) [OF es(3)] obtain es' where es': "w_trace (snd (run_state (f x) w1)) = es' @ w_trace w1"
    "\<forall>e\<in>set es'. P e" "Q (fst (run_state (f x) w1))"
    unfolding ensures_def by blast
  have "w_trace (snd (run_state (m \<bind> f) w)) = (es' @ es) @ w_trace w \<and>
      (\<forall>e\<in>set (es' @ es). P e) \<and> Q (fst (run_state (m \<bind> f) w))"
    using m es es' by auto
  then show "\<exists>es. w_trace (snd (run_state (m \<bind> f) w)) = es @ w_trace w \<and>
      (\<forall>e\<in>set es. P e) \<and> Q (fst (run_state (m \<bind> f) w))" by blast
qed

lemma ensures_weaken:
  "ensures P m Q \<Longrightarrow> (\<And>e. P e \<Longrightarrow> P' e) \<Longrightarrow> (\<And>x. Q x \<Longrightarrow> Q' x) \<Longrightarrow> ensures P' m Q'"
  unfolding ensures_def by meson

lemma ensures_bind_any:
  "ensures P m (\<lambda>_. True) \<Longrightarrow> (\<And>x. ensures P (f x) Q) \<Longrightarrow> ensures P (m \<bind> f) Q"
  by (rule ensures_bind)

lemma ensures_ask: "(\<And>r. P (ev r)) \<Longrightarrow> ensures P (ask answer ev) (\<lambda>_. True)"
  by (simp add: ensures_def ask_def)

lemma ensures_clock [ensures_intro]: "ensures P (clock E) (\<lambda>_. True)"
  by (simp add: ensures_def clock_def)

lemma ensures_note [ensures_intro]: "P e \<Longrightarrow> ensures P (note_event e) (\<lambda>_. True)"
  by (simp add: ensures_def note_event_def)

lemma ensures_progress [ensures_intro]:
  "ensures P read_progress (\<lambda>_. True)"
  "ensures P (modify_progress f) (\<lambda>_. True)"
  "ensures P (modify_rev_clock g h) (\<lambda>_. True)"
  by (simp_all add: ensures_def read_progress_def modify_progress_def modify_rev_clock_def)

lemma ensures_calls [ensures_intro]:
  "(\<And>r. P (EvFs c r)) \<Longrightarrow> ensures P (do_fs E c) (\<lambda>_. True)"
  "(\<And>r. P (EvStat s r)) \<Longrightarrow> ensures P (do_stat E s) (\<lambda>_. True)"
  "(\<And>r. P (EvGit g r)) \<Longrightarrow> ensures P (do_git E g) (\<lambda>_. True)"
  "(\<And>r. P (EvHttp q r)) \<Longrightarrow> ensures P (do_http E q) (\<lambda>_. True)"
  "(\<And>r. P (EvLsRemote a u r)) \<Longrightarrow> ensures P (ls_remote E a u) (\<lambda>_. True)"
  "(\<And>r. P (EvKnownHosts f r)) \<Longrightarrow> ensures P (load_known_hosts E f) (\<lambda>_. True)"
  "(\<And>r. P (EvGetSecret ns n r)) \<Longrightarrow> ensures P (get_secret E ns n) (\<lambda>_. True)"
  "(\<And>r. P (EvStatusUpdate tu r)) \<Longrightarrow> ensures P (update_status E tu) (\<lambda>_. True)"
  by (simp_all add: do_fs_def do_stat_def do_git_def do_http_def ls_remote_def
      load_known_hosts_def get_secret_def update_status_def ensures_ask)

lemma ensures_record [ensures_intro]:
  "P (EvRecord wn r msg) \<Longrightarrow> ensures P (record_event E wn r msg) (\<lambda>_. True)"
  by (simp add: record_event_def ensures_note ensures_return)

lemma ensures_if [ensures_intro]:
  "(b \<Longrightarrow> ensures P m Q) \<Longrightarrow> (\<not> b \<Longrightarrow> ensures P n Q) \<Longrightarrow> ensures P (if b then m else n) Q"
  by simp

lemma ensures_sum [ensures_intro]:
  "(\<And>e. r = Inl e \<Longrightarrow> ensures P (f e) Q) \<Longrightarrow> (\<And>x. r = Inr x \<Longrightarrow> ensures P (g x) Q) \<Longrightarrow>
    ensures P (case r of Inl e \<Rightarrow> f e | Inr x \<Rightarrow> g x) Q"
  by (cases r) auto

lemma ensures_option [ensures_intro]:
  "(r = None \<Longrightarrow> ensures P m Q) \<Longrightarrow> (\<And>x. r = Some x \<Longrightarrow> ensures P (g x) Q) \<Longrightarrow>
    ensures P (case r of None \<Rightarrow> m | Some x \<Rightarrow> g x) Q"
  by (cases r) auto

lemma ensures_outcome [ensures_intro]:
  "(\<And>x. r = Ok x \<Longrightarrow> ensures P (f x) Q) \<Longrightarrow> (\<And>e. r = Fail e \<Longrightarrow> ensures P (g e) Q) \<Longrightarrow>
    (\<And>a. r = Abort a \<Longrightarrow> ensures P (h a) Q) \<Longrightarrow>
    ensures P (case r of Ok x \<Rightarrow> f x | Fail e \<Rightarrow> g e | Abort a \<Rightarrow> h a) Q"
  by (cases r) auto

lemma ensures_prod [ensures_intro]:
  "(\<And>a b. r = (a, b) \<Longrightarrow> ensures P (f a b) Q) \<Longrightarrow> ensures P (case r of (a, b) \<Rightarrow> f a b) Q"
  by (cases r) auto

lemma ensures_let [ensures_intro]:
  "(\<And>x. x = t \<Longrightarrow> ensures P (f x) Q) \<Longrightarrow> ensures P (Let t f) Q"
  by simp

text \<open>From a proved triple to a fact about one run.\<close>

lemma ensuresD:
  "ensures P m Q \<Longrightarrow> run_state m w = (r, w') \<Longrightarrow> Q r"
  "ensures P m Q \<Longrightarrow> run_state m w = (r, w') \<Longrightarrow> w_trace w = [] \<Longrightarrow> \<forall>e\<in>set (w_trace w'). P e"
  unfolding ensures_def by (metis fst_conv, metis append_Nil2 snd_conv)

lemma ensures_run:
  "ensures P m Q \<Longrightarrow> run_state m w = (r, w') \<Longrightarrow>
    \<exists>es. w_trace w' = es @ w_trace w \<and> (\<forall>e\<in>set es. P e) \<and> Q r"
  unfolding ensures_def by (metis fst_conv snd_conv)

lemma ensures_grows:
  "ensures P m Q \<Longrightarrow> run_state m w = (r, w') \<Longrightarrow> set (w_trace w) \<subseteq> set (w_trace w')"
  using ensures_run by fastforce

text \<open>
  The finer triple: \<open>emits m Q\<close> relates the result to the list of calls made, newest first.
\<close>

definition emits :: "'a io \<Rightarrow> ('a \<Rightarrow> event list \<Rightarrow> bool) \<Rightarrow> bool" where
  "emits m Q \<longleftrightarrow> (\<forall>w. \<exists>es. w_trace (snd (run_state m w)) = es @ w_trace w \<and>
     Q (fst (run_state m w)) es)"

named_theorems emits_intro \<open>introduction rules for the calls a computation makes\<close>

lemma emits_return [emits_intro]: "Q x [] \<Longrightarrow> emits (ret x) Q"
  by (simp add: emits_def)

lemma emits_bind:
  assumes "emits m R" and "\<And>x es. R x es \<Longrightarrow> emits (f x) (\<lambda>y new. Q y (new @ es))"
  shows "emits (m \<bind> f) Q"
  unfolding emits_def
proof
  fix w
  obtain x w1 where m: "run_state m w = (x, w1)" by (cases "run_state m w")
  with assms(1) obtain es where es: "w_trace w1 = es @ w_trace w" "R x es"
    unfolding emits_def by (metis fst_conv snd_conv)
  from assms(2) [OF es(2)] obtain new where "w_trace (snd (run_state (f x) w1)) = new @ w_trace w1"
    "Q (fst (run_state (f x) w1)) (new @ es)"
    unfolding emits_def by blast
  with m es(1) show "\<exists>es. w_trace (snd (run_state (m \<bind> f) w)) = es @ w_trace w \<and>
      Q (fst (run_state (m \<bind> f) w)) es" by auto
qed

lemma emits_weaken: "emits m Q \<Longrightarrow> (\<And>x es. Q x es \<Longrightarrow> Q' x es) \<Longrightarrow> emits m Q'"
  unfolding emits_def by meson

lemma emits_conj: "emits m Q \<Longrightarrow> emits m Q' \<Longrightarrow> emits m (\<lambda>x es. Q x es \<and> Q' x es)"
  unfolding emits_def by (metis append_same_eq)

lemma emits_ensures: "ensures P m Q \<Longrightarrow> emits m (\<lambda>x es. (\<forall>e\<in>set es. P e) \<and> Q x)"
  unfolding ensures_def emits_def by blast

lemma emits_run:
  "emits m Q \<Longrightarrow> run_state m w = (r, w') \<Longrightarrow> \<exists>es. w_trace w' = es @ w_trace w \<and> Q r es"
  unfolding emits_def by (metis fst_conv snd_conv)

lemma emits_bind_ask:
  "(\<And>r. emits (f r) (\<lambda>y new. Q y (new @ [ev r]))) \<Longrightarrow> emits (ask answer ev \<bind> f) Q"
  by (rule emits_bind [where R = "\<lambda>r es. es = [ev r]"]) (simp_all add: emits_def ask_def)

lemma emits_bind_call [emits_intro]:
  "(\<And>r. emits (ff r) (\<lambda>y new. Q y (new @ [EvFs c r]))) \<Longrightarrow> emits (do_fs E c \<bind> ff) Q"
  "(\<And>r. emits (fs r) (\<lambda>y new. Q y (new @ [EvStat s r]))) \<Longrightarrow> emits (do_stat E s \<bind> fs) Q"
  "(\<And>r. emits (fg r) (\<lambda>y new. Q y (new @ [EvGit g r]))) \<Longrightarrow> emits (do_git E g \<bind> fg) Q"
  "(\<And>r. emits (fl r) (\<lambda>y new. Q y (new @ [EvLsRemote a u r]))) \<Longrightarrow> emits (ls_remote E a u \<bind> fl) Q"
  "(\<And>r. emits (fk r) (\<lambda>y new. Q y (new @ [EvKnownHosts h r]))) \<Longrightarrow> emits (load_known_hosts E h \<bind> fk) Q"
  "(\<And>r. emits (fx r) (\<lambda>y new. Q y (new @ [EvGetSecret ns n r]))) \<Longrightarrow> emits (get_secret E ns n \<bind> fx) Q"
  "(\<And>r. emits (fu r) (\<lambda>y new. Q y (new @ [EvStatusUpdate tu r]))) \<Longrightarrow> emits (update_status E tu \<bind> fu) Q"
  by (simp_all add: do_fs_def do_stat_def do_git_def ls_remote_def load_known_hosts_def
      get_secret_def update_status_def emits_bind_ask)

lemma emits_bind_silent [emits_intro]:
  "(\<And>t. emits (f t) Q) \<Longrightarrow> emits (clock E \<bind> f) Q"
  "(\<And>t. emits (g t) Q) \<Longrightarrow> emits (read_progress \<bind> g) Q"
  "emits (h ()) Q \<Longrightarrow> emits (modify_progress p \<bind> h) Q"
  "emits (k ()) Q \<Longrightarrow> emits (modify_rev_clock a b \<bind> k) Q"
  "emits (l ()) (\<lambda>y new. Q y (new @ [ev])) \<Longrightarrow> emits (note_event ev \<bind> l) Q"
  by (rule emits_bind [where R = "\<lambda>r es. es = []"] emits_bind [where R = "\<lambda>r es. es = [ev]"];
      simp add: emits_def clock_def read_progress_def modify_progress_def modify_rev_clock_def
        note_event_def)+

lemma emits_cases [emits_intro]:
  "(b \<Longrightarrow> emits m Q) \<Longrightarrow> (\<not> b \<Longrightarrow> emits n Q) \<Longrightarrow> emits (if b then m else n) Q"
  "(\<And>e. r = Inl e \<Longrightarrow> emits (f e) Q) \<Longrightarrow> (\<And>x. r = Inr x \<Longrightarrow> emits (g x) Q) \<Longrightarrow>
    emits (case r of Inl e \<Rightarrow> f e | Inr x \<Rightarrow> g x) Q"
  "(op = None \<Longrightarrow> emits m Q) \<Longrightarrow> (\<And>x. op = Some x \<Longrightarrow> emits (h x) Q) \<Longrightarrow>
    emits (case op of None \<Rightarrow> m | Some x \<Rightarrow> h x) Q"
  "(\<And>x. oc = Ok x \<Longrightarrow> emits (k x) Q) \<Longrightarrow> (\<And>e. oc = Fail e \<Longrightarrow> emits (l e) Q) \<Longrightarrow>
    (\<And>a. oc = Abort a \<Longrightarrow> emits (s a) Q) \<Longrightarrow>
    emits (case oc of Ok x \<Rightarrow> k x | Fail e \<Rightarrow> l e | Abort a \<Rightarrow> s a) Q"
  "(\<And>a b. pr = (a, b) \<Longrightarrow> emits (u a b) Q) \<Longrightarrow> emits (case pr of (a, b) \<Rightarrow> u a b) Q"
  "(\<And>x. x = t \<Longrightarrow> emits (v x) Q) \<Longrightarrow> emits (Let t v) Q"
      by (simp; fail | cases r; simp; fail | cases op; simp; fail | cases oc; simp; fail |
        cases pr; simp; fail)+

text \<open>Calls that only read: no write-back, no commit, no manifest written, no lock released, no status
  update.\<close>

fun reads :: "event \<Rightarrow> bool" where
  "reads (EvGit c r) = False"
| "reads (EvStatusUpdate tu r) = False"
| "reads (EvApply wr) = False"
| "reads (EvFs (WriteFile f c) r) = False"
| "reads (EvFs (Funlock fd) r) = False"
| "reads (EvFs (CloseFd fd) r) = False"
| "reads _ = True"

definition initial_world :: world where
  "initial_world = \<lparr>w_tick = 0, w_trace = [], w_progress = new_tracker 0 0,
     w_first_rev_attempt = 0, w_last_rev_success = 0\<rparr>"

text \<open>A small environment for the examples: every call is answered, nothing is found.\<close>

definition demo_env :: env where
  "demo_env =
     \<lparr>env_now = (\<lambda>n. 1000 + int n), env_var = (\<lambda>v. ''''), env_euid = 0, env_temp_dir = ''/tmp'',
      env_fs = (\<lambda>n c. Inr ''k''), env_stat = (\<lambda>n c. Inl (Errorf ''stat'')),
      env_readdir = (\<lambda>n d. Inr []), env_known_hosts = (\<lambda>n f. Inr ''hosts''),
      env_git = (\<lambda>n c. Inr ''sha''), env_ls_remote = (\<lambda>n a u. Inr \<lparr>adv_refs = [], adv_peeled = []\<rparr>),
      env_http = (\<lambda>n q. Inl (Errorf ''offline'')),
      env_get_updater = (\<lambda>n ns nm. Missing (Errorf ''not found'')),
      env_list_updaters = (\<lambda>n. Inr []), env_update_status = (\<lambda>n tu. Inr ()),
      env_secret = (\<lambda>n ns nm. Inl (Errorf ''no secret'')), env_app = (\<lambda>n ns nm. Inl (Errorf ''no app'')),
      env_recorder = True, env_dynamic = True, env_patience = 3,
      lib_compile = (\<lambda>p. Inr demo_regexp), lib_sort = insertion_sort, lib_manifest = demo_lib,
      lib_ssh_key = (\<lambda>k. Inr ()), lib_request = (\<lambda>u. Inr ()), lib_url_parse = (\<lambda>u. Inl (Errorf ''url'')),
      lib_url_string = (\<lambda>u. ''''),
      lib_json = (\<lambda>b. Inr JNull), lib_json_all = (\<lambda>b. Inr JNull), lib_parse_time = (\<lambda>s. None),
      lib_selector_json = (\<lambda>s. Inr ''null''), lib_duration_text = (\<lambda>d. ''20m0s'')\<rparr>"

end
