(* ===== verification/Conditions.thy ===== *)
theory Conditions
  imports Effects
begin

text \<open>
  Status conditions (\<^verbatim>\<open>meta.SetStatusCondition\<close> of apimachinery, as vendored): a list with at
  most one condition per type, updated in place. The controller reports everything it
  decides through them, so the facts the handlers rest on are laws of an interface.
\<close>

section \<open>The operations\<close>

fun find_condition :: "condition list \<Rightarrow> string \<Rightarrow> condition option" where
  "find_condition [] t = None"
| "find_condition (c # cs) t = (if cond_type c = t then Some c else find_condition cs t)"

definition merge_condition :: "time \<Rightarrow> condition \<Rightarrow> condition \<Rightarrow> condition" where
  "merge_condition now c old =
     old\<lparr>cond_status := cond_status c,
         cond_transition_time :=
           (if cond_status old \<noteq> cond_status c
            then (if cond_transition_time c \<noteq> 0 then cond_transition_time c else now)
            else cond_transition_time old),
         cond_reason := cond_reason c,
         cond_message := cond_message c,
         cond_observed_generation := cond_observed_generation c\<rparr>"

fun update_first :: "(condition \<Rightarrow> bool) \<Rightarrow> (condition \<Rightarrow> condition) \<Rightarrow> condition list \<Rightarrow> condition list" where
  "update_first p f [] = []"
| "update_first p f (c # cs) = (if p c then f c # cs else c # update_first p f cs)"

definition condition_changed :: "condition \<Rightarrow> condition \<Rightarrow> bool" where
  "condition_changed c old \<longleftrightarrow>
     cond_status old \<noteq> cond_status c \<or> cond_reason old \<noteq> cond_reason c \<or>
     cond_message old \<noteq> cond_message c \<or> cond_observed_generation old \<noteq> cond_observed_generation c"

definition set_status_condition :: "time \<Rightarrow> condition \<Rightarrow> condition list \<Rightarrow> condition list \<times> bool" where
  "set_status_condition now c cs =
     (case find_condition cs (cond_type c) of
        None \<Rightarrow> (cs @ [c\<lparr>cond_transition_time :=
                   (if cond_transition_time c = 0 then now else cond_transition_time c)\<rparr>], True)
      | Some old \<Rightarrow>
          (update_first (\<lambda>x. cond_type x = cond_type c) (merge_condition now c) cs,
           condition_changed c old))"

section \<open>The interface\<close>

text \<open>
  What a reader of the conditions sees: the status, reason and message of a type. Setting a
  condition changes this view at its own type and nowhere else.
\<close>

type_synonym verdict = "condition_status \<times> string \<times> string"

locale condition_board =
  fixes put :: "time \<Rightarrow> condition \<Rightarrow> 'b \<Rightarrow> 'b \<times> bool"
    and verdict :: "'b \<Rightarrow> string \<Rightarrow> verdict option"
    and single :: "'b \<Rightarrow> bool"
  assumes verdict_put: "verdict (fst (put now c b)) =
      (verdict b)(cond_type c \<mapsto> (cond_status c, cond_reason c, cond_message c))"
    and single_put: "single b \<Longrightarrow> single (fst (put now c b))"
begin

lemma verdict_put_same [simp]:
  "verdict (fst (put now c b)) (cond_type c) = Some (cond_status c, cond_reason c, cond_message c)"
  by (simp add: verdict_put)

lemma verdict_put_other: "t \<noteq> cond_type c \<Longrightarrow> verdict (fst (put now c b)) t = verdict b t"
  by (simp add: verdict_put)

lemma put_idempotent_verdict:
  "verdict (fst (put n2 c (fst (put n1 c b)))) = verdict (fst (put n1 c b))"
  by (simp add: verdict_put)

lemma put_commute_verdict:
  "cond_type c \<noteq> cond_type d \<Longrightarrow>
    verdict (fst (put n c (fst (put m d b)))) = verdict (fst (put k d (fst (put l c b))))"
  by (auto simp: verdict_put)

end

section \<open>The operations provide the interface\<close>

definition verdict_of :: "condition list \<Rightarrow> string \<Rightarrow> verdict option" where
  "verdict_of cs t =
     map_option (\<lambda>c. (cond_status c, cond_reason c, cond_message c)) (find_condition cs t)"

definition single_conditions :: "condition list \<Rightarrow> bool" where
  "single_conditions cs \<longleftrightarrow> distinct (map cond_type cs)"

lemma merge_condition_type [simp]: "cond_type (merge_condition now c old) = cond_type old"
  by (simp add: merge_condition_def)

lemma find_condition_append:
  "find_condition (cs @ [c]) t =
    (case find_condition cs t of Some x \<Rightarrow> Some x | None \<Rightarrow> if cond_type c = t then Some c else None)"
  by (induction cs) auto

lemma find_update_first:
  "find_condition (update_first (\<lambda>x. cond_type x = k) (merge_condition now c) cs) t =
    (if t = k then map_option (merge_condition now c) (find_condition cs t) else find_condition cs t)"
  by (induction cs) auto

lemma types_update_first:
  "map cond_type (update_first p (merge_condition now c) cs) = map cond_type cs"
  by (induction cs) auto

lemma find_condition_None: "find_condition cs t = None \<longleftrightarrow> t \<notin> cond_type ` set cs"
  by (induction cs) auto

interpretation board: condition_board set_status_condition verdict_of single_conditions
proof unfold_locales
  show "verdict_of (fst (set_status_condition now c cs)) =
      (verdict_of cs)(cond_type c \<mapsto> (cond_status c, cond_reason c, cond_message c))" for now c cs
    by (auto simp: fun_eq_iff verdict_of_def set_status_condition_def find_condition_append
        find_update_first merge_condition_def split: option.splits)
  show "single_conditions (fst (set_status_condition now c cs))" if "single_conditions cs" for now c cs
    using that by (auto simp: single_conditions_def set_status_condition_def types_update_first
        find_condition_None split: option.splits)
qed

lemma set_status_condition_type_found:
  "verdict_of cs (cond_type c) = Some (cond_status c, cond_reason c, cond_message c) \<Longrightarrow>
    cond_observed_generation c = 0 \<Longrightarrow> (\<forall>x\<in>set cs. cond_observed_generation x = 0) \<Longrightarrow>
    \<not> snd (set_status_condition now c cs)"
proof -
  have "find_condition cs t = Some x \<Longrightarrow> x \<in> set cs" for t x
    by (induction cs) (auto split: if_splits)
  then show "verdict_of cs (cond_type c) = Some (cond_status c, cond_reason c, cond_message c) \<Longrightarrow>
    cond_observed_generation c = 0 \<Longrightarrow> (\<forall>x\<in>set cs. cond_observed_generation x = 0) \<Longrightarrow>
    \<not> snd (set_status_condition now c cs)"
    by (auto simp: verdict_of_def set_status_condition_def condition_changed_def split: option.splits)
qed

section \<open>The controller's use\<close>

text \<open>
  The controller never sets a transition time or an observed generation, so a condition is
  its type, status, reason and message; the clock is read at every call.
\<close>

definition mk_condition :: "string \<Rightarrow> condition_status \<Rightarrow> string \<Rightarrow> string \<Rightarrow> condition" where
  "mk_condition t s r m =
     \<lparr>cond_type = t, cond_status = s, cond_observed_generation = 0, cond_transition_time = 0,
      cond_reason = r, cond_message = m\<rparr>"

lemma mk_condition_simps [simp]:
  "cond_type (mk_condition t s r m) = t"
  "cond_status (mk_condition t s r m) = s"
  "cond_reason (mk_condition t s r m) = r"
  "cond_message (mk_condition t s r m) = m"
  by (simp_all add: mk_condition_def)

definition put_condition :: "time \<Rightarrow> condition \<Rightarrow> tag_updater \<Rightarrow> tag_updater" where
  "put_condition now c tu =
     tu\<lparr>updater_status := (updater_status tu)\<lparr>conditions :=
          fst (set_status_condition now c (conditions (updater_status tu)))\<rparr>\<rparr>"

definition set_condition :: "env \<Rightarrow> tag_updater \<Rightarrow> condition \<Rightarrow> tag_updater io" where
  "set_condition E tu c = do { now \<leftarrow> clock E; ret (put_condition now c tu) }"

text \<open>The verdict an updater's status carries for a condition type.\<close>

definition verdict :: "tag_updater \<Rightarrow> string \<Rightarrow> verdict option" where
  "verdict tu t = verdict_of (conditions (updater_status tu)) t"

lemma verdict_put_condition:
  "verdict (put_condition now c tu) t =
    (if t = cond_type c then Some (cond_status c, cond_reason c, cond_message c) else verdict tu t)"
  by (simp add: verdict_def put_condition_def board.verdict_put)

text \<open>Everything but the conditions is untouched.\<close>

definition same_but_conditions :: "tag_updater \<Rightarrow> tag_updater \<Rightarrow> bool" where
  "same_but_conditions tu tu' \<longleftrightarrow>
     tu'\<lparr>updater_status := (updater_status tu')\<lparr>conditions := []\<rparr>\<rparr> =
     tu\<lparr>updater_status := (updater_status tu)\<lparr>conditions := []\<rparr>\<rparr>"

lemma same_but_conditions_refl [simp]: "same_but_conditions tu tu"
  by (simp add: same_but_conditions_def)

lemma same_but_conditions_put [simp]:
  "same_but_conditions tu (put_condition now c tu') = same_but_conditions tu tu'"
  by (simp add: same_but_conditions_def put_condition_def)

end
