(* ===== verification/Ownership.thy ===== *)
theory Ownership
  imports Effects
begin

text \<open>
  The static checks of \<^verbatim>\<open>internal/controller/tagupdater_controller.go\<close>: a complete write-back
  configuration (\<^verbatim>\<open>validateWriteBack\<close>) and one owner per manifest field over all TagUpdaters
  (\<^verbatim>\<open>validateFieldOwnership\<close>). The specification of the latter is a set of claims: who
  configures which field.
\<close>

section \<open>Write-back configuration\<close>

definition missing_write_back :: "write_back_spec \<Rightarrow> string list" where
  "missing_write_back spec =
     (if trim_space (wb_repo spec) = '''' then [''repo''] else []) @
     (if trim_space (wb_branch spec) = '''' then [''branch''] else []) @
     (if trim_space (wb_path spec) = '''' then [''path''] else [])"

definition validate_write_back :: "write_back_spec \<Rightarrow> go_error option" where
  "validate_write_back spec =
     (if missing_write_back spec \<noteq> [] then
        Some (Errorf (''spec.writeBack is required with non-empty repo, branch, and path; add missing field(s): '' @
          str_join '', '' (missing_write_back spec)))
      else None)"

section \<open>Field ownership\<close>

definition owner_of :: "tag_updater \<Rightarrow> string" where
  "owner_of tu = meta_namespace tu @ ''/'' @ meta_name tu"

text \<open>The components of a key, and the key itself: their join with the NUL character.\<close>

definition field_components :: "tag_updater \<Rightarrow> target_spec \<Rightarrow> string \<Rightarrow> string \<Rightarrow> string list" where
  "field_components tu t selector field =
     (let wb = spec_write_back (updater_spec tu) in
      [wb_repo wb, wb_branch wb, wb_path wb, target_api_version t, target_kind t, target_namespace t,
       target_name t, selector, field])"

definition field_key :: "tag_updater \<Rightarrow> target_spec \<Rightarrow> string \<Rightarrow> string \<Rightarrow> string" where
  "field_key tu t selector field = str_join [CHR 0x00] (field_components tu t selector field)"

definition ownership_conflict :: "target_spec \<Rightarrow> string \<Rightarrow> string \<Rightarrow> string \<Rightarrow> go_error" where
  "ownership_conflict t field previous owner =
     Errorf (''manifest field '' @ field @ '' on '' @ target_kind t @ ''/'' @ target_name t @
       '' is owned by both '' @ previous @ '' and '' @ owner @ ''; consolidate it into one TagUpdater'')"

fun claim_patches ::
    "tag_updater \<Rightarrow> target_spec \<Rightarrow> string \<Rightarrow> patch_spec list \<Rightarrow> strmap \<Rightarrow> strmap result" where
  "claim_patches tu t selector [] owners = Inr owners"
| "claim_patches tu t selector (p # ps) owners =
     (let key = field_key tu t selector (patch_field p); owner = owner_of tu in
      case owners key of
        Some previous \<Rightarrow>
          if previous \<noteq> owner then Inl (ownership_conflict t (patch_field p) previous owner)
          else claim_patches tu t selector ps (owners(key \<mapsto> owner))
      | None \<Rightarrow> claim_patches tu t selector ps (owners(key \<mapsto> owner)))"

fun claim_targets :: "env \<Rightarrow> tag_updater \<Rightarrow> target_spec list \<Rightarrow> strmap \<Rightarrow> strmap result" where
  "claim_targets E tu [] owners = Inr owners"
| "claim_targets E tu (t # ts) owners =
     (case lib_selector_json E (target_selector t) of
        Inl e \<Rightarrow> Inl (Wrapped (''serialize selector for '' @ owner_of tu) e)
      | Inr selector \<Rightarrow>
          rbind (claim_patches tu t selector (target_patches t) owners) (claim_targets E tu ts))"

fun claim_updaters :: "env \<Rightarrow> tag_updater list \<Rightarrow> strmap \<Rightarrow> strmap result" where
  "claim_updaters E [] owners = Inr owners"
| "claim_updaters E (tu # tus) owners =
     rbind (claim_targets E tu (spec_targets (updater_spec tu)) owners) (claim_updaters E tus)"

definition validate_field_ownership :: "env \<Rightarrow> tag_updater list \<Rightarrow> go_error option" where
  "validate_field_ownership E updaters =
     (case claim_updaters E updaters Map.empty of Inl e \<Rightarrow> Some e | Inr _ \<Rightarrow> None)"

section \<open>The claims of a configuration\<close>

definition patch_claims :: "tag_updater \<Rightarrow> target_spec \<Rightarrow> string \<Rightarrow> patch_spec list \<Rightarrow> (string \<times> string) list" where
  "patch_claims tu t selector ps = map (\<lambda>p. (field_key tu t selector (patch_field p), owner_of tu)) ps"

definition selector_text :: "env \<Rightarrow> target_spec \<Rightarrow> string" where
  "selector_text E t = (case lib_selector_json E (target_selector t) of Inl e \<Rightarrow> '''' | Inr s \<Rightarrow> s)"

definition updater_claims :: "env \<Rightarrow> tag_updater \<Rightarrow> (string \<times> string) list" where
  "updater_claims E tu =
     concat (map (\<lambda>t. patch_claims tu t (selector_text E t) (target_patches t))
       (spec_targets (updater_spec tu)))"

definition all_claims :: "env \<Rightarrow> tag_updater list \<Rightarrow> (string \<times> string) list" where
  "all_claims E tus = concat (map (updater_claims E) tus)"

text \<open>Claims are compatible with a map when each key keeps its owner.\<close>

fun compatible :: "(string \<times> string) list \<Rightarrow> strmap \<Rightarrow> bool" where
  "compatible [] owners = True"
| "compatible ((k, c) # cs) owners =
     ((case owners k of None \<Rightarrow> True | Some previous \<Rightarrow> previous = c) \<and> compatible cs (owners(k \<mapsto> c)))"

lemma map_of_rev_Cons: "m ++ map_of (rev ((k, c) # cs)) = m(k \<mapsto> c) ++ map_of (rev cs)"
  by (auto simp: map_add_def fun_eq_iff split: option.splits)

lemma compatible_append:
  "compatible (xs @ ys) owners \<longleftrightarrow>
    compatible xs owners \<and> compatible ys (owners ++ map_of (rev xs))"
proof (induction xs owners rule: compatible.induct)
  case (2 k c cs owners)
  show ?case unfolding append_Cons compatible.simps 2 map_of_rev_Cons by (simp add: conj_assoc)
qed simp

lemma compatible_iff:
  "compatible cs owners \<longleftrightarrow>
    (\<forall>k c. (k, c) \<in> set cs \<longrightarrow> (\<forall>d. owners k = Some d \<longrightarrow> d = c)) \<and>
    (\<forall>k c d. (k, c) \<in> set cs \<and> (k, d) \<in> set cs \<longrightarrow> c = d)"
proof (induction cs owners rule: compatible.induct)
  case (1 owners)
  show ?case by simp
next
  case (2 k c cs owners)
  have a: "(case owners k of None \<Rightarrow> True | Some previous \<Rightarrow> previous = c) \<longleftrightarrow> (\<forall>d. owners k = Some d \<longrightarrow> d = c)"
    by (cases "owners k") auto
  have b: "(\<forall>x y. (x, y) \<in> set cs \<longrightarrow> (\<forall>d. (owners(k \<mapsto> c)) x = Some d \<longrightarrow> d = y)) \<longleftrightarrow>
      (\<forall>y. (k, y) \<in> set cs \<longrightarrow> c = y) \<and>
      (\<forall>x y. (x, y) \<in> set cs \<and> x \<noteq> k \<longrightarrow> (\<forall>d. owners x = Some d \<longrightarrow> d = y))"
    by (auto split: if_splits)
  show ?case
    unfolding compatible.simps 2 a b list.set insert_iff prod.inject
    by (intro iffI conjI allI impI; elim conjE disjE; metis)
qed

lemma claim_patches_run:
  "\<exists>e. claim_patches tu t sel ps owners =
    (if compatible (patch_claims tu t sel ps) owners
     then Inr (owners ++ map_of (rev (patch_claims tu t sel ps))) else Inl e)"
proof (induction ps arbitrary: owners)
  case Nil
  then show ?case by (simp add: patch_claims_def)
next
  case (Cons p ps)
  have c: "patch_claims tu t sel (p # ps) =
      (field_key tu t sel (patch_field p), owner_of tu) # patch_claims tu t sel ps"
    by (simp add: patch_claims_def)
  obtain m where m: "m = owners(field_key tu t sel (patch_field p) \<mapsto> owner_of tu)" by blast
  from Cons [of m] obtain e where "claim_patches tu t sel ps m =
    (if compatible (patch_claims tu t sel ps) m
     then Inr (m ++ map_of (rev (patch_claims tu t sel ps))) else Inl e)" by blast
  then show ?case
    unfolding c map_of_rev_Cons claim_patches.simps compatible.simps Let_def m [symmetric]
    by (simp split: option.splits)
qed

lemma claim_targets_run:
  assumes "\<And>t. t \<in> set ts \<Longrightarrow> \<exists>s. lib_selector_json E (target_selector t) = Inr s"
  shows "\<exists>e. claim_targets E tu ts owners =
    (let cs = concat (map (\<lambda>t. patch_claims tu t (selector_text E t) (target_patches t)) ts) in
     if compatible cs owners then Inr (owners ++ map_of (rev cs)) else Inl e)"
  using assms
proof (induction ts arbitrary: owners)
  case Nil
  then show ?case by simp
next
  case (Cons t ts)
  then obtain s where s: "lib_selector_json E (target_selector t) = Inr s" by fastforce
  then have st: "selector_text E t = s" by (simp add: selector_text_def)
  have IH: "\<exists>e. claim_targets E tu ts m =
    (let cs = concat (map (\<lambda>t. patch_claims tu t (selector_text E t) (target_patches t)) ts) in
     if compatible cs m then Inr (m ++ map_of (rev cs)) else Inl e)" for m
    using Cons by auto
  obtain a b where a: "a = patch_claims tu t s (target_patches t)"
    and b: "b = concat (map (\<lambda>t. patch_claims tu t (selector_text E t) (target_patches t)) ts)" by blast
  from claim_patches_run [where tu = tu and t = t and sel = s and ps = "target_patches t" and owners = owners]
  obtain e1 where e1: "claim_patches tu t s (target_patches t) owners =
      (if compatible a owners then Inr (owners ++ map_of (rev a)) else Inl e1)"
    unfolding a by blast
  from IH [of "owners ++ map_of (rev a)"] obtain e2 where e2: "claim_targets E tu ts (owners ++ map_of (rev a)) =
      (if compatible b (owners ++ map_of (rev a)) then Inr ((owners ++ map_of (rev a)) ++ map_of (rev b)) else Inl e2)"
    unfolding Let_def b by blast
  have join: "(owners ++ map_of (rev a)) ++ map_of (rev b) = owners ++ map_of (rev (a @ b))"
    by (simp add: map_add_assoc)
  have "claim_targets E tu (t # ts) owners =
    (if compatible (a @ b) owners then Inr (owners ++ map_of (rev (a @ b)))
     else Inl (if compatible a owners then e2 else e1))"
    unfolding claim_targets.simps s sum.case e1 compatible_append
    by (cases "compatible a owners"; cases "compatible b (owners ++ map_of (rev a))")
      (simp_all only: e2 join if_True if_False simp_thms rbind_simps)
  then show ?case by (simp only: Let_def list.map concat.simps st a [symmetric] b [symmetric]) blast
qed

lemma claim_updaters_run:
  assumes "\<And>tu t. tu \<in> set tus \<Longrightarrow> t \<in> set (spec_targets (updater_spec tu)) \<Longrightarrow>
    \<exists>s. lib_selector_json E (target_selector t) = Inr s"
  shows "(\<exists>m. claim_updaters E tus owners = Inr m) \<longleftrightarrow> compatible (all_claims E tus) owners"
  using assms
proof (induction tus arbitrary: owners)
  case Nil
  then show ?case by (simp add: all_claims_def)
next
  case (Cons tu tus)
  have "\<And>t. t \<in> set (spec_targets (updater_spec tu)) \<Longrightarrow> \<exists>s. lib_selector_json E (target_selector t) = Inr s"
    using Cons.prems [of tu] by simp
  from claim_targets_run [OF this, of "spec_targets (updater_spec tu)" tu owners]
  obtain e where e: "claim_targets E tu (spec_targets (updater_spec tu)) owners =
      (if compatible (updater_claims E tu) owners
       then Inr (owners ++ map_of (rev (updater_claims E tu))) else Inl e)"
    unfolding updater_claims_def Let_def by blast
  have "(\<exists>m. claim_updaters E tus ow = Inr m) \<longleftrightarrow> compatible (all_claims E tus) ow" for ow
    by (rule Cons.IH) (use Cons.prems in auto)
  then show ?case
    by (auto simp: e all_claims_def compatible_append)
qed

text \<open>Without NUL characters a key determines its components.\<close>

lemma join_split:
  "(\<forall>x\<in>set xs. c \<notin> set x) \<Longrightarrow> xs \<noteq> [] \<Longrightarrow> split_on c (str_join [c] xs) = xs"
proof (induction xs rule: induct_list012)
  case (2 x)
  then show ?case by (induction x) auto
next
  case (3 x y ys)
  have a: "split_on c (z @ c # s) = z # split_on c s" if "c \<notin> set z" for z s
    using that by (induction z) auto
  show ?case using 3 a [of x "str_join [c] (y # ys)"] by simp
qed simp

definition no_nul :: "string \<Rightarrow> bool" where
  "no_nul s \<longleftrightarrow> CHR 0x00 \<notin> set s"

lemma field_key_inj:
  assumes "\<forall>s\<in>set (field_components tu t sel f). no_nul s"
    and "\<forall>s\<in>set (field_components tu' t' sel' f'). no_nul s"
    and "field_key tu t sel f = field_key tu' t' sel' f'"
  shows "field_components tu t sel f = field_components tu' t' sel' f'"
proof -
  have ne: "field_components a b c d \<noteq> []" for a b c d
    by (simp add: field_components_def Let_def)
  from join_split [of "field_components tu t sel f" "CHR 0x00"] join_split [of "field_components tu' t' sel' f'" "CHR 0x00"]
  show ?thesis using assms ne by (metis field_key_def no_nul_def)
qed

section \<open>Properties\<close>

text \<open>A field that an updater configures: its components, without NUL characters.\<close>

definition configures :: "env \<Rightarrow> tag_updater \<Rightarrow> string list \<Rightarrow> bool" where
  "configures E tu cs \<longleftrightarrow>
     (\<exists>t\<in>set (spec_targets (updater_spec tu)). \<exists>p\<in>set (target_patches t).
        cs = field_components tu t (selector_text E t) (patch_field p))"

lemma all_claims_mem:
  "(k, c) \<in> set (all_claims E tus) \<longleftrightarrow>
    (\<exists>tu\<in>set tus. \<exists>cs. configures E tu cs \<and> k = str_join [CHR 0x00] cs \<and> c = owner_of tu)"
  by (auto simp: all_claims_def updater_claims_def patch_claims_def configures_def field_key_def)

text \<open>
  C19. Ownership is exclusive, and only real conflicts are refused: when the selectors serialize
  and no component holds a NUL character, the check passes exactly when no field (same
  repository, branch, path, object, selector and patch field) is configured by two
  TagUpdaters of different names.
\<close>

theorem ownership_exclusive:
  assumes "\<And>tu t. tu \<in> set tus \<Longrightarrow> t \<in> set (spec_targets (updater_spec tu)) \<Longrightarrow>
      \<exists>s. lib_selector_json E (target_selector t) = Inr s"
    and "\<And>tu cs. tu \<in> set tus \<Longrightarrow> configures E tu cs \<Longrightarrow> \<forall>s\<in>set cs. no_nul s"
  shows "validate_field_ownership E tus = None \<longleftrightarrow>
    (\<forall>tu\<in>set tus. \<forall>tu'\<in>set tus. \<forall>cs. configures E tu cs \<and> configures E tu' cs \<longrightarrow>
       owner_of tu = owner_of tu')"
proof -
  have key: "cs = cs'" if "tu \<in> set tus" "tu' \<in> set tus" "configures E tu cs" "configures E tu' cs'"
    "str_join [CHR 0x00] cs = str_join [CHR 0x00] cs'" for tu tu' cs cs'
  proof -
    from that(3,4) obtain t s f t' s' f' where c: "cs = field_components tu t s f" "cs' = field_components tu' t' s' f'"
      by (auto simp: configures_def)
    with that assms(2) [OF that(1,3)] assms(2) [OF that(2,4)] show ?thesis
      using field_key_inj [of tu t s f tu' t' s' f'] by (simp add: field_key_def)
  qed
  have "validate_field_ownership E tus = None \<longleftrightarrow> compatible (all_claims E tus) Map.empty"
  proof -
    have "(\<exists>m. claim_updaters E tus Map.empty = Inr m) \<longleftrightarrow> compatible (all_claims E tus) Map.empty"
      by (rule claim_updaters_run) (rule assms(1))
    then show ?thesis by (auto simp: validate_field_ownership_def split: sum.splits)
  qed
  also have "\<dots> \<longleftrightarrow> (\<forall>k c d. (k, c) \<in> set (all_claims E tus) \<and> (k, d) \<in> set (all_claims E tus) \<longrightarrow> c = d)"
    by (simp add: compatible_iff)
  also have "\<dots> \<longleftrightarrow> (\<forall>tu\<in>set tus. \<forall>tu'\<in>set tus. \<forall>cs. configures E tu cs \<and> configures E tu' cs \<longrightarrow>
       owner_of tu = owner_of tu')"
    unfolding all_claims_mem using key by metis
  finally show ?thesis .
qed

section \<open>Witness\<close>

definition demo_spec :: updater_spec where
  "demo_spec =
     \<lparr>spec_source = \<lparr>digest_auth_realm = '''', resolve_digest = False, digest_repo = '''',
        source_type = SourceTypeGit, source_repo = ''git@h:o/app'', tag_pattern = ''p'',
        image_pull_secret_ref = None\<rparr>,
      spec_targets = [demo_target ''x''], spec_interval = 0,
      spec_write_back = \<lparr>wb_repo = ''git@h:o/r'', wb_branch = ''main'', wb_path = ''m.yaml'', wb_secret_name = ''s''\<rparr>,
      spec_argocd_app = Some \<lparr>app_name = ''app'', app_namespace = ''''\<rparr>, spec_managing_app = None,
      spec_rollback = Some \<lparr>rollback_enabled = True, rollback_timeout_spec = 0\<rparr>\<rparr>"

definition demo_updater :: "string \<Rightarrow> tag_updater" where
  "demo_updater name =
     \<lparr>meta_name = name, meta_namespace = ''ns'', meta_generation = 1, updater_spec = demo_spec,
      updater_status = empty_status\<rparr>"

theorem ownership_exclusive_witness:
  "validate_field_ownership demo_env [demo_updater ''a'', demo_updater ''b''] \<noteq> None \<and>
   validate_field_ownership demo_env [demo_updater ''a''] = None"
proof -
  have c: "configures demo_env (demo_updater n) cs \<longleftrightarrow>
      cs = [''git@h:o/r'', ''main'', ''m.yaml'', ''v1'', ''A'', '''', ''x'', ''null'', ''spec.tag'']" for n cs
    by (simp add: configures_def demo_updater_def demo_spec_def demo_target_def field_components_def
        selector_text_def demo_env_def)
  have sel: "\<exists>s. lib_selector_json demo_env (target_selector t) = Inr s" for t
    by (simp add: demo_env_def)
  have nul: "\<forall>s\<in>set cs. no_nul s" if "configures demo_env (demo_updater n) cs" for n cs
    using that by (simp add: c no_nul_def)
  have own: "owner_of (demo_updater n) = ''ns/'' @ n" for n
    by (simp add: owner_of_def demo_updater_def)
  have "validate_field_ownership demo_env [demo_updater ''a'', demo_updater ''b''] = None \<longleftrightarrow>
    (\<forall>tu\<in>set [demo_updater ''a'', demo_updater ''b'']. \<forall>tu'\<in>set [demo_updater ''a'', demo_updater ''b''].
      \<forall>cs. configures demo_env tu cs \<and> configures demo_env tu' cs \<longrightarrow> owner_of tu = owner_of tu')"
    by (rule ownership_exclusive, rule sel) (use nul in auto)
  moreover have "validate_field_ownership demo_env [demo_updater ''a''] = None \<longleftrightarrow>
    (\<forall>tu\<in>set [demo_updater ''a'']. \<forall>tu'\<in>set [demo_updater ''a''].
      \<forall>cs. configures demo_env tu cs \<and> configures demo_env tu' cs \<longrightarrow> owner_of tu = owner_of tu')"
    by (rule ownership_exclusive, rule sel) (use nul in auto)
  ultimately show ?thesis by (simp add: c own)
qed

end
