(* ===== verification/Status_Report.thy ===== *)
theory Status_Report
  imports Conditions Ownership
begin

text \<open>
  How the controller reports: the helpers of
  \<^verbatim>\<open>internal/controller/tagupdater_controller.go\<close> that set the conditions of a
  TagUpdater and keep its progress (\<^verbatim>\<open>stalledCondition\<close>,
  \<^verbatim>\<open>markReconcileSucceeded\<close>, \<^verbatim>\<open>setWriteBackNotAttempted\<close>, \<^verbatim>\<open>setFailed\<close>,
  \<^verbatim>\<open>setFailedBeforeWriteBack\<close>), and the shape of a handler with early returns.
\<close>

section \<open>Stages\<close>

text \<open>
  A stage of the handler goes on with a value, or returns the handler's two results (the
  requeue delay, 0 for the empty result, and the error), or ends abnormally.
\<close>

datatype 'a stage = Next 'a | Return duration "go_error option" | Crash abort

definition and_then :: "'a stage io \<Rightarrow> ('a \<Rightarrow> 'b stage io) \<Rightarrow> 'b stage io" where
  "and_then m f = do {
     s \<leftarrow> m;
     case s of Next a \<Rightarrow> f a | Return d e \<Rightarrow> ret (Return d e) | Crash a \<Rightarrow> ret (Crash a) }"

fun on_next :: "('a \<Rightarrow> bool) \<Rightarrow> 'a stage \<Rightarrow> bool" where
  "on_next Q (Next a) = Q a"
| "on_next Q _ = True"

lemma ensures_stage [ensures_intro]:
  "(\<And>a. s = Next a \<Longrightarrow> ensures P (f a) Q) \<Longrightarrow> (\<And>d e. s = Return d e \<Longrightarrow> ensures P (g d e) Q) \<Longrightarrow>
    (\<And>a. s = Crash a \<Longrightarrow> ensures P (h a) Q) \<Longrightarrow>
    ensures P (case s of Next a \<Rightarrow> f a | Return d e \<Rightarrow> g d e | Crash a \<Rightarrow> h a) Q"
  by (cases s) auto

lemma ensures_and_then:
  assumes "ensures P m (on_next R)" and "\<And>a. R a \<Longrightarrow> ensures P (f a) (on_next Q)"
  shows "ensures P (and_then m f) (on_next Q)"
  unfolding and_then_def
  by (rule ensures_bind [OF assms(1)]) (auto intro!: ensures_intro assms(2))

section \<open>Status and identity\<close>

definition with_status :: "(updater_status \<Rightarrow> updater_status) \<Rightarrow> tag_updater \<Rightarrow> tag_updater" where
  "with_status f tu = tu\<lparr>updater_status := f (updater_status tu)\<rparr>"

text \<open>\<^verbatim>\<open>types.NamespacedName.String\<close>, of a request and of an object.\<close>

definition request_key :: "string \<Rightarrow> string \<Rightarrow> string" where
  "request_key namespace name = namespace @ ''/'' @ name"

definition object_key :: "tag_updater \<Rightarrow> string" where
  "object_key tu = request_key (meta_namespace tu) (meta_name tu)"

section \<open>Reports\<close>

text \<open>What Ready says of a release that is in git.\<close>

definition present_message :: "string \<Rightarrow> string" where
  "present_message tag = ''manifest values for tag '' @ tag @ '' are present in git''"

definition stalled_condition :: "env \<Rightarrow> string \<Rightarrow> condition io" where
  "stalled_condition E key = do {
     now \<leftarrow> clock E;
     tracker \<leftarrow> read_progress;
     ret (if is_stale tracker key now
          then mk_condition ''Stalled'' ConditionTrue ''ReconcileStale''
            ''no successful reconcile within the staleness window; deploys for this updater may be frozen''
          else mk_condition ''Stalled'' ConditionFalse ''Progressing''
            ''reconciles are completing within the staleness window'') }"

definition mark_reconcile_succeeded :: "env \<Rightarrow> tag_updater \<Rightarrow> string \<Rightarrow> tag_updater io" where
  "mark_reconcile_succeeded E tu key = do {
     done_at \<leftarrow> clock E;
     _ \<leftarrow> modify_progress (tracker_success key done_at);
     c \<leftarrow> stalled_condition E key;
     now \<leftarrow> clock E;
     if snd (set_status_condition now c (conditions (updater_status tu))) then do {
       _ \<leftarrow> update_status E (put_condition now c tu);
       ret (put_condition now c tu) }
     else ret (put_condition now c tu) }"

definition set_write_back_not_attempted :: "env \<Rightarrow> tag_updater \<Rightarrow> string \<Rightarrow> tag_updater io" where
  "set_write_back_not_attempted E tu cause =
     set_condition E tu (mk_condition ''WriteBackReady'' ConditionUnknown ''NotAttempted''
       (''write-back not attempted this reconcile: '' @ cause))"

text \<open>The failing helpers report and give the error back; the handler returns it.\<close>

definition set_failed :: "env \<Rightarrow> tag_updater \<Rightarrow> go_error \<Rightarrow> go_error io" where
  "set_failed E tu cause = do {
     tu1 \<leftarrow> set_condition E tu (mk_condition ''Ready'' ConditionFalse ''Error'' (error_text cause));
     c \<leftarrow> stalled_condition E (object_key tu);
     tu2 \<leftarrow> set_condition E tu1 c;
     _ \<leftarrow> update_status E tu2;
     ret cause }"

definition set_failed_before_write_back :: "env \<Rightarrow> tag_updater \<Rightarrow> go_error \<Rightarrow> go_error io" where
  "set_failed_before_write_back E tu cause = do {
     tu1 \<leftarrow> set_write_back_not_attempted E tu (error_text cause);
     set_failed E tu1 cause }"

definition fail_before_write_back :: "env \<Rightarrow> tag_updater \<Rightarrow> duration \<Rightarrow> go_error \<Rightarrow> 'a stage io" where
  "fail_before_write_back E tu delay cause = do {
     e \<leftarrow> set_failed_before_write_back E tu cause;
     ret (Return delay (Some e)) }"

section \<open>Lemmas\<close>

text \<open>
  A property of an updater that setting conditions keeps, Ready True excepted, is a property of
  everything these helpers store.
\<close>

definition says_ready :: "condition \<Rightarrow> bool" where
  "says_ready c \<longleftrightarrow> cond_type c = ''Ready'' \<and> cond_status c = ConditionTrue"

lemma says_ready_mk [simp]: "says_ready (mk_condition t s r m) \<longleftrightarrow> t = ''Ready'' \<and> s = ConditionTrue"
  by (simp add: says_ready_def)

definition keeps_conditions :: "(tag_updater \<Rightarrow> bool) \<Rightarrow> bool" where
  "keeps_conditions I \<longleftrightarrow> (\<forall>now c tu. I tu \<longrightarrow> \<not> says_ready c \<longrightarrow> I (put_condition now c tu))"

definition stores :: "(tag_updater \<Rightarrow> bool) \<Rightarrow> (event \<Rightarrow> bool) \<Rightarrow> bool" where
  "stores I P \<longleftrightarrow> keeps_conditions I \<and> (\<forall>tu r. I tu \<longrightarrow> P (EvStatusUpdate tu r)) \<and>
     (\<forall>e. reads e \<longrightarrow> P e)"

lemma storesD:
  "stores I P \<Longrightarrow> I tu \<Longrightarrow> \<not> says_ready c \<Longrightarrow> I (put_condition now c tu)"
  "stores I P \<Longrightarrow> I tu \<Longrightarrow> P (EvStatusUpdate tu r)"
  "stores I P \<Longrightarrow> reads e \<Longrightarrow> P e"
  by (auto simp: stores_def keeps_conditions_def)

lemma ensures_stores_reads: "stores I P \<Longrightarrow> ensures reads m Q \<Longrightarrow> ensures P m Q"
  by (erule ensures_weaken) (auto dest: storesD)

lemma ensures_put: "(\<And>now. I (put_condition now c tu)) \<Longrightarrow> ensures P (set_condition E tu c) I"
  unfolding set_condition_def by (intro ensures_bind_any ensures_intro) auto

lemma ensures_set_condition: "stores I P \<Longrightarrow> I tu \<Longrightarrow> \<not> says_ready c \<Longrightarrow> ensures P (set_condition E tu c) I"
  by (rule ensures_put) (rule storesD)

lemma ensures_stalled_condition: "ensures P (stalled_condition E key) (\<lambda>c. \<not> says_ready c)"
  unfolding stalled_condition_def by (intro ensures_bind_any ensures_intro) auto

lemma ensures_mark:
  assumes "stores I P" and "I tu"
  shows "ensures P (mark_reconcile_succeeded E tu key) I"
  unfolding mark_reconcile_succeeded_def
  using storesD [OF assms(1)] assms(2)
  by (intro ensures_bind [OF ensures_stalled_condition] ensures_intro ensures_bind_any) auto

lemma ensures_not_attempted:
  "stores I P \<Longrightarrow> I tu \<Longrightarrow> ensures P (set_write_back_not_attempted E tu cause) I"
  unfolding set_write_back_not_attempted_def by (rule ensures_set_condition) simp_all

lemma ensures_set_failed:
  assumes "stores I P" and "I tu"
  shows "ensures P (set_failed E tu cause) (\<lambda>_. True)"
  unfolding set_failed_def
  by (rule ensures_bind [OF ensures_set_condition [OF assms]], simp, rule ensures_bind [OF ensures_stalled_condition],
      rule ensures_bind [OF ensures_set_condition [OF assms(1)]], assumption, assumption,
      intro ensures_bind_any ensures_intro storesD(2) [OF assms(1)]) auto

lemma ensures_fail_before_write_back:
  assumes "stores I P" and "I tu"
  shows "ensures P (fail_before_write_back E tu delay cause) (on_next Q)"
  unfolding fail_before_write_back_def set_failed_before_write_back_def
  by (intro ensures_bind_any ensures_bind [OF ensures_not_attempted [OF assms]]
      ensures_set_failed [OF assms(1)] ensures_return) auto

section \<open>Properties\<close>

text \<open>
  The report of a failure before the write-back leg: exactly one status update is made,
  in which Ready is False with the cause, WriteBackReady is Unknown (whatever an earlier
  reconcile left there), Stalled is set, and nothing but the conditions differs; the cause is
  the error returned.
\<close>

theorem failure_before_write_back_reported:
  assumes "run_state (fail_before_write_back E tu delay cause) w = (s, w')"
  shows "s = Return delay (Some cause) \<and>
    (\<exists>tu' r. w_trace w' = EvStatusUpdate tu' r # w_trace w \<and> same_but_conditions tu tu' \<and>
       verdict tu' ''Ready'' = Some (ConditionFalse, ''Error'', error_text cause) \<and>
       verdict tu' ''WriteBackReady'' = Some (ConditionUnknown, ''NotAttempted'',
         ''write-back not attempted this reconcile: '' @ error_text cause) \<and>
       verdict tu' ''Stalled'' \<noteq> None)"
  using assms
  by (auto simp: fail_before_write_back_def set_failed_before_write_back_def set_failed_def
      set_write_back_not_attempted_def set_condition_def stalled_condition_def clock_def read_progress_def
      update_status_def ask_def verdict_put_condition)

theorem failure_before_write_back_reported_witness:
  "length (w_trace (snd (run_state (fail_before_write_back demo_env (demo_updater ''a'') 0 (Errorf ''boom'')
      :: unit stage io) initial_world))) = 1"
proof -
  let ?m = "fail_before_write_back demo_env (demo_updater ''a'') 0 (Errorf ''boom'') :: unit stage io"
  obtain s w' where run: "run_state ?m initial_world = (s, w')" by (cases "run_state ?m initial_world")
  from failure_before_write_back_reported [OF run] run show ?thesis
    by (auto simp: initial_world_def)
qed

end
