(* ===== verification/Git_Source.thy ===== *)
theory Git_Source
  imports Effects
begin

text \<open>
  \<^verbatim>\<open>internal/source/git.go\<close>: the tags of a git remote and the commit each tag names.
  The reference list is what go-git's \<^verbatim>\<open>Remote.list\<close> makes of the remote's advertisement;
  this one function of go-git is translated too, because the code's handling of annotated
  tags depends on which references it returns.
\<close>

section \<open>Repository URLs\<close>

definition to_https :: "string \<Rightarrow> string" where
  "to_https repo =
     (if has_prefix repo ''https://'' then repo
      else if has_prefix repo ''ssh://'' then
        (let rest = trim_prefix repo ''ssh://'';
             rest = (case index_byte rest (CHR ''@'') of None \<Rightarrow> rest | Some i \<Rightarrow> drop (i + 1) rest)
         in ''https://'' @ rest)
      else if has_prefix repo ''git@'' then
        ''https://'' @ replace1 (trim_prefix repo ''git@'') '':'' ''/''
      else repo)"

definition https_form :: "string \<Rightarrow> bool" where
  "https_form repo \<longleftrightarrow>
     has_prefix repo ''https://'' \<or> has_prefix repo ''ssh://'' \<or> has_prefix repo ''git@''"

lemma to_https_form:
  "if https_form r then has_prefix (to_https r) ''https://'' else to_https r = r"
  by (auto simp: https_form_def to_https_def Let_def has_prefix_def)

section \<open>References\<close>

datatype peeling_option = IgnorePeeled | OnlyPeeled | AppendPeeled

text \<open>\<^verbatim>\<open>git.ListOptions{}\<close> leaves the option at its zero value.\<close>

definition default_peeling :: peeling_option where "default_peeling = IgnorePeeled"

definition ref_tag_prefix :: string where "ref_tag_prefix = ''refs/tags/''"
definition peeled_suffix :: string where "peeled_suffix = ''^{}''"

definition remote_list :: "peeling_option \<Rightarrow> advertised \<Rightarrow> git_ref list" where
  "remote_list p adv =
     (if p = AppendPeeled \<or> p = IgnorePeeled then adv_refs adv else []) @
     (if p = AppendPeeled \<or> p = OnlyPeeled
      then map (\<lambda>(k, v). \<lparr>ref_name = k @ peeled_suffix, ref_hash = v\<rparr>) (adv_peeled adv) else [])"

definition is_tag :: "string \<Rightarrow> bool" where
  "is_tag name = has_prefix name ref_tag_prefix"

text \<open>\<^verbatim>\<open>ReferenceName.Short\<close> of a tag (git refuses white space in a reference name).\<close>

definition ref_short :: "string \<Rightarrow> string" where
  "ref_short name = trim_prefix name ref_tag_prefix"

text \<open>The two maps that \<^verbatim>\<open>tagRevsFromRefs\<close> builds, then their union with the peeled ids on top.\<close>

definition note_ref :: "git_ref \<Rightarrow> strmap \<times> strmap \<Rightarrow> strmap \<times> strmap" where
  "note_ref r acc =
     (case acc of (out, peeled) \<Rightarrow>
        if \<not> is_tag (ref_name r) then (out, peeled)
        else case cut_suffix (ref_short (ref_name r)) peeled_suffix of
          Some bare \<Rightarrow> (out, peeled(bare \<mapsto> ref_hash r))
        | None \<Rightarrow> (out(ref_short (ref_name r) \<mapsto> ref_hash r), peeled))"

definition tag_revs_from_refs :: "git_ref list \<Rightarrow> strmap" where
  "tag_revs_from_refs refs =
     (let (out, peeled) = fold note_ref refs (Map.empty, Map.empty) in out ++ peeled)"

definition tag_names :: "git_ref list \<Rightarrow> string list" where
  "tag_names refs = map (\<lambda>r. ref_short (ref_name r)) (filter (\<lambda>r. is_tag (ref_name r)) refs)"

section \<open>Listing the remote\<close>

record git_source =
  gs_repo :: string
  gs_ssh_key_file :: string
  gs_token :: string
  gs_known_hosts_file :: string
  gs_insecure :: bool

text \<open>The authentication \<^verbatim>\<open>listRefs\<close> chooses, with the URL it will contact.\<close>

definition source_auth :: "env \<Rightarrow> git_source \<Rightarrow> (git_auth \<times> string) result io" where
  "source_auth E g =
     (if gs_token g \<noteq> '''' then
        ret (Inr (HttpBasic ''x-access-token'' (gs_token g), to_https (gs_repo g)))
      else if gs_ssh_key_file g \<noteq> '''' then do {
        pem \<leftarrow> do_fs E (ReadFile (gs_ssh_key_file g));
        case rbind pem (\<lambda>k. map_sum id (\<lambda>_. k) (lib_ssh_key E k)) of
          Inl e \<Rightarrow> ret (Inl (Wrapped (''load SSH key '' @ gs_ssh_key_file g) e))
        | Inr key \<Rightarrow>
            (if gs_known_hosts_file g \<noteq> '''' then do {
               kh \<leftarrow> load_known_hosts E (gs_known_hosts_file g);
               ret (case kh of
                 Inl e \<Rightarrow> Inl (Wrapped (''load known_hosts '' @ gs_known_hosts_file g) e)
               | Inr hosts \<Rightarrow> Inr (SshKey key (KnownHosts hosts), gs_repo g)) }
             else if gs_insecure g then ret (Inr (SshKey key InsecureHostKey, gs_repo g))
             else ret (Inl (Errorf (''SSH source requires GIT_KNOWN_HOSTS_FILE or '' @
                              ''GIT_INSECURE_IGNORE_HOST_KEY=true'')))) }
      else ret (Inr (NoAuth, gs_repo g)))"

definition list_refs :: "env \<Rightarrow> git_source \<Rightarrow> git_ref list result io" where
  "list_refs E g = do {
     a \<leftarrow> source_auth E g;
     case a of
       Inl e \<Rightarrow> ret (Inl e)
     | Inr (auth, repo) \<Rightarrow> do {
         adv \<leftarrow> ls_remote E auth repo;
         ret (case adv of
           Inl e \<Rightarrow> Inl (Wrapped (''ls-remote '' @ repo) e)
         | Inr a \<Rightarrow> Inr (remote_list default_peeling a)) } }"

definition git_tag_revs :: "env \<Rightarrow> git_source \<Rightarrow> strmap result io" where
  "git_tag_revs E g = do {
     refs \<leftarrow> list_refs E g;
     ret (case refs of Inl e \<Rightarrow> Inl e | Inr rs \<Rightarrow> Inr (tag_revs_from_refs rs)) }"

definition git_tags :: "env \<Rightarrow> git_source \<Rightarrow> string list result io" where
  "git_tags E g = do {
     refs \<leftarrow> list_refs E g;
     ret (case refs of Inl e \<Rightarrow> Inl e | Inr rs \<Rightarrow> Inr (tag_names rs)) }"

section \<open>The reduction to tags\<close>

text \<open>A key written at most once: then the order of the writes does not matter.\<close>

definition out_entries :: "git_ref list \<Rightarrow> (string \<times> string) list" where
  "out_entries refs =
     map (\<lambda>r. (ref_short (ref_name r), ref_hash r))
       (filter (\<lambda>r. is_tag (ref_name r) \<and> cut_suffix (ref_short (ref_name r)) peeled_suffix = None) refs)"

definition peeled_entries :: "git_ref list \<Rightarrow> (string \<times> string) list" where
  "peeled_entries refs =
     map (\<lambda>r. (the (cut_suffix (ref_short (ref_name r)) peeled_suffix), ref_hash r))
       (filter (\<lambda>r. is_tag (ref_name r) \<and> cut_suffix (ref_short (ref_name r)) peeled_suffix \<noteq> None) refs)"

lemma fold_note_ref:
  "fold note_ref refs (out, peeled) =
    (out ++ map_of (rev (out_entries refs)), peeled ++ map_of (rev (peeled_entries refs)))"
  by (induction refs arbitrary: out peeled)
    (auto simp: note_ref_def out_entries_def peeled_entries_def map_add_def fun_eq_iff
      split: option.splits)

lemma tag_revs_from_refs_entries:
  "tag_revs_from_refs refs = map_of (rev (out_entries refs)) ++ map_of (rev (peeled_entries refs))"
  by (simp add: tag_revs_from_refs_def fold_note_ref)

lemma tag_name_iff: "is_tag a \<and> ref_short a = t \<longleftrightarrow> a = ref_tag_prefix @ t"
  by (auto simp: is_tag_def ref_short_def has_prefix_iff)

lemma is_tag_simps [simp]: "is_tag (ref_tag_prefix @ t)" "ref_short (ref_tag_prefix @ t) = t"
  by (simp_all add: is_tag_def ref_short_def)

lemma ref_short_inj: "is_tag a \<Longrightarrow> is_tag b \<Longrightarrow> ref_short a = ref_short b \<Longrightarrow> a = b"
  using tag_name_iff by metis

lemma tag_ref_unique:
  "distinct (map ref_name refs) \<Longrightarrow> x \<in> set refs \<Longrightarrow> y \<in> set refs \<Longrightarrow>
    is_tag (ref_name x) \<Longrightarrow> is_tag (ref_name y) \<Longrightarrow>
    ref_short (ref_name x) = ref_short (ref_name y) \<Longrightarrow> x = y"
  using ref_short_inj inj_onD [of ref_name "set refs" x y] by (auto simp: distinct_map)

lemma entry_keys_distinct:
  assumes "distinct (map ref_name refs)"
  shows "distinct (map fst (out_entries refs))" and "distinct (map fst (peeled_entries refs))"
proof -
  have d: "distinct refs" using assms by (simp add: distinct_map)
  have "inj_on (\<lambda>r. ref_short (ref_name r)) {r \<in> set refs. is_tag (ref_name r) \<and>
      cut_suffix (ref_short (ref_name r)) peeled_suffix = None}"
    by (rule inj_onI) (simp add: tag_ref_unique [OF assms])
  with d show "distinct (map fst (out_entries refs))"
    by (simp add: out_entries_def distinct_map comp_def)
  have "x = y" if "x \<in> set refs" "y \<in> set refs" "is_tag (ref_name x)" "is_tag (ref_name y)"
    and "cut_suffix (ref_short (ref_name x)) peeled_suffix = Some bx"
    and "cut_suffix (ref_short (ref_name y)) peeled_suffix = Some by" and "bx = by" for x y bx "by"
    using that tag_ref_unique [OF assms that(1-4)] by (simp add: cut_suffix_Some)
  then have "inj_on (\<lambda>r. the (cut_suffix (ref_short (ref_name r)) peeled_suffix)) {r \<in> set refs.
      is_tag (ref_name r) \<and> cut_suffix (ref_short (ref_name r)) peeled_suffix \<noteq> None}"
    by (intro inj_onI) auto
  with d show "distinct (map fst (peeled_entries refs))"
    by (simp add: peeled_entries_def distinct_map comp_def)
qed

lemma git_ref_iff:
  "is_tag (ref_name r) \<and> ref_short (ref_name r) = t \<and> ref_hash r = h \<longleftrightarrow>
    r = \<lparr>ref_name = ref_tag_prefix @ t, ref_hash = h\<rparr>"
  using tag_name_iff [of "ref_name r" t] by (cases r) auto

lemma out_entries_mem:
  "(t, h) \<in> set (out_entries refs) \<longleftrightarrow>
    \<lparr>ref_name = ref_tag_prefix @ t, ref_hash = h\<rparr> \<in> set refs \<and> cut_suffix t peeled_suffix = None"
proof -
  have "(t, h) \<in> set (out_entries refs) \<longleftrightarrow>
      (\<exists>r\<in>set refs. (is_tag (ref_name r) \<and> ref_short (ref_name r) = t \<and> ref_hash r = h) \<and>
        cut_suffix t peeled_suffix = None)"
    unfolding out_entries_def by auto
  then show ?thesis unfolding git_ref_iff by blast
qed

lemma peeled_entries_mem:
  "(t, h) \<in> set (peeled_entries refs) \<longleftrightarrow>
    \<lparr>ref_name = ref_tag_prefix @ t @ peeled_suffix, ref_hash = h\<rparr> \<in> set refs"
proof -
  have "(t, h) \<in> set (peeled_entries refs) \<longleftrightarrow>
      (\<exists>r\<in>set refs. is_tag (ref_name r) \<and> cut_suffix (ref_short (ref_name r)) peeled_suffix = Some t \<and>
        ref_hash r = h)"
    unfolding peeled_entries_def by force
  then show ?thesis unfolding cut_suffix_Some git_ref_iff by blast
qed

lemma tag_revs_from_refs_lookup:
  assumes "distinct (map ref_name refs)"
  shows "tag_revs_from_refs refs t = Some h \<longleftrightarrow>
    \<lparr>ref_name = ref_tag_prefix @ t @ peeled_suffix, ref_hash = h\<rparr> \<in> set refs \<or>
    (\<forall>p. \<lparr>ref_name = ref_tag_prefix @ t @ peeled_suffix, ref_hash = p\<rparr> \<notin> set refs) \<and>
    cut_suffix t peeled_suffix = None \<and> \<lparr>ref_name = ref_tag_prefix @ t, ref_hash = h\<rparr> \<in> set refs"
proof -
  let ?O = "map_of (rev (out_entries refs))" and ?P = "map_of (rev (peeled_entries refs))"
  have o: "?O t = Some h \<longleftrightarrow> (t, h) \<in> set (out_entries refs)" for t h
    using entry_keys_distinct(1) [OF assms] by (subst map_of_eq_Some_iff) (auto simp: rev_map [symmetric])
  have p: "?P t = Some h \<longleftrightarrow> (t, h) \<in> set (peeled_entries refs)" for t h
    using entry_keys_distinct(2) [OF assms] by (subst map_of_eq_Some_iff) (auto simp: rev_map [symmetric])
  have n: "?P t = None \<longleftrightarrow> (\<forall>h. (t, h) \<notin> set (peeled_entries refs))" for t
    using p by (metis not_None_eq)
  show ?thesis
    by (auto simp: tag_revs_from_refs_entries map_add_Some_iff o p n out_entries_mem peeled_entries_mem)
qed

lemma quiet_source_auth: "ensures reads (source_auth E g) (\<lambda>_. True)"
  unfolding source_auth_def by (intro ensures_intro ensures_bind_any) auto

lemma quiet_list_refs: "ensures reads (list_refs E g) (\<lambda>_. True)"
  unfolding list_refs_def
  by (intro ensures_bind_any quiet_source_auth) (auto intro!: ensures_intro ensures_bind_any)

lemma quiet_git_tags: "ensures reads (git_tags E g) (\<lambda>_. True)"
  unfolding git_tags_def by (intro ensures_bind_any quiet_list_refs) (auto intro!: ensures_intro)

lemma quiet_git_tag_revs: "ensures reads (git_tag_revs E g) (\<lambda>_. True)"
  unfolding git_tag_revs_def by (intro ensures_bind_any quiet_list_refs) (auto intro!: ensures_intro)

section \<open>Properties\<close>

text \<open>
  The revision of a tag: when the listing holds a peeled reference of the tag, its commit;
  otherwise the tag's own id. The result is the same for every order of the listing.
\<close>

theorem tag_revs_prefer_peeled:
  assumes "distinct (map ref_name refs)" and "mset refs' = mset refs"
  shows "tag_revs_from_refs refs' = tag_revs_from_refs refs \<and>
    (tag_revs_from_refs refs t = Some h \<longleftrightarrow>
      \<lparr>ref_name = ref_tag_prefix @ t @ peeled_suffix, ref_hash = h\<rparr> \<in> set refs \<or>
      (\<forall>p. \<lparr>ref_name = ref_tag_prefix @ t @ peeled_suffix, ref_hash = p\<rparr> \<notin> set refs) \<and>
      \<not> has_suffix t peeled_suffix \<and> \<lparr>ref_name = ref_tag_prefix @ t, ref_hash = h\<rparr> \<in> set refs)"
proof (rule conjI)
  have d: "distinct (map ref_name refs')"
    using assms(1) distinct_map_permute [OF assms(2), of ref_name] by simp
  have "tag_revs_from_refs refs' t = tag_revs_from_refs refs t" for t
    by (rule option_eqI, unfold tag_revs_from_refs_lookup [OF d] tag_revs_from_refs_lookup [OF assms(1)]
        mset_eq_permuteD [OF assms(2)]) (rule refl)
  then show "tag_revs_from_refs refs' = tag_revs_from_refs refs" by (rule ext)
  show "tag_revs_from_refs refs t = Some h \<longleftrightarrow>
      \<lparr>ref_name = ref_tag_prefix @ t @ peeled_suffix, ref_hash = h\<rparr> \<in> set refs \<or>
      (\<forall>p. \<lparr>ref_name = ref_tag_prefix @ t @ peeled_suffix, ref_hash = p\<rparr> \<notin> set refs) \<and>
      \<not> has_suffix t peeled_suffix \<and> \<lparr>ref_name = ref_tag_prefix @ t, ref_hash = h\<rparr> \<in> set refs"
    using tag_revs_from_refs_lookup [OF assms(1), of t h] by (auto simp: cut_suffix_def)
qed

text \<open>
  The listing the code asks for never contains the peeled references: with the default
  listing options an annotated tag resolves to the id of its tag object, whatever commit the
  remote advertises for it; asking for the peeled references would give the commit.
\<close>

theorem annotated_tag_resolves_to_tag_object:
  assumes "distinct (map ref_name (adv_refs adv))"
    and "\<forall>r\<in>set (adv_refs adv). \<not> has_suffix (ref_name r) peeled_suffix"
    and "\<lparr>ref_name = ref_tag_prefix @ t, ref_hash = tag_object\<rparr> \<in> set (adv_refs adv)"
    and "adv_peeled adv = [(ref_tag_prefix @ t, commit)]"
  shows "tag_revs_from_refs (remote_list default_peeling adv) t = Some tag_object \<and>
    tag_revs_from_refs (remote_list AppendPeeled adv) t = Some commit"
proof -
  have np: "\<lparr>ref_name = s @ peeled_suffix, ref_hash = p\<rparr> \<notin> set (adv_refs adv)" for s p
    using assms(2) by (force simp: has_suffix_iff)
  have "\<not> has_suffix (ref_tag_prefix @ t) peeled_suffix" using assms(2,3) by force
  then have nt: "cut_suffix t peeled_suffix = None"
    by (auto simp: cut_suffix_None has_suffix_iff)
  have def: "remote_list default_peeling adv = adv_refs adv"
    by (simp add: remote_list_def default_peeling_def)
  have "tag_revs_from_refs (remote_list default_peeling adv) t = Some tag_object"
    unfolding def using tag_revs_from_refs_lookup [OF assms(1), of t tag_object]
      np [of "ref_tag_prefix @ t"] nt assms(3) by auto
  moreover let ?refs = "remote_list AppendPeeled adv"
  have app: "?refs = adv_refs adv @ [\<lparr>ref_name = ref_tag_prefix @ t @ peeled_suffix, ref_hash = commit\<rparr>]"
    using assms(4) by (simp add: remote_list_def peeled_suffix_def)
  have "(ref_tag_prefix @ t) @ peeled_suffix \<notin> ref_name ` set (adv_refs adv)"
    using assms(2) unfolding has_suffix_iff by (metis imageE)
  then have "distinct (map ref_name ?refs)" using assms(1) by (simp add: app)
  from tag_revs_from_refs_lookup [OF this, of t commit]
  have "tag_revs_from_refs ?refs t = Some commit" by (simp add: app)
  ultimately show ?thesis by simp
qed

text \<open>
  A git source never talks SSH without a host key policy: a known_hosts file, when one is
  configured, is always used, and host keys go unchecked only on explicit request; a token
  is used instead of SSH whenever one is set, over HTTPS for every ssh or scp-style remote.
\<close>

theorem source_auth_policy:
  assumes "run_state (source_auth E g) w = (Inr (auth, repo), w')"
  shows "case auth of
      SshKey k InsecureHostKey \<Rightarrow> gs_insecure g \<and> gs_known_hosts_file g = '''' \<and> gs_token g = ''''
    | SshKey k (KnownHosts hosts) \<Rightarrow> gs_known_hosts_file g \<noteq> '''' \<and> gs_token g = ''''
    | HttpBasic u pw \<Rightarrow> gs_token g \<noteq> '''' \<and> pw = gs_token g \<and> repo = to_https (gs_repo g) \<and>
        (if https_form (gs_repo g) then has_prefix repo ''https://'' else repo = gs_repo g)
    | NoAuth \<Rightarrow> gs_token g = '''' \<and> gs_ssh_key_file g = ''''"
  using assms to_https_form [of "gs_repo g"]
  by (auto simp: source_auth_def split: if_splits sum.splits prod.splits git_auth.splits host_check.splits)

section \<open>Witnesses\<close>

definition demo_adv :: advertised where
  "demo_adv = \<lparr>adv_refs = [\<lparr>ref_name = ref_tag_prefix @ ''v2'', ref_hash = ''bb''\<rparr>,
       \<lparr>ref_name = ref_tag_prefix @ ''v1'', ref_hash = ''aa''\<rparr>,
       \<lparr>ref_name = ''refs/heads/main'', ref_hash = ''cc''\<rparr>],
     adv_peeled = [(ref_tag_prefix @ ''v1'', ''dd'')]\<rparr>"

theorem tag_revs_prefer_peeled_witness:
  "tag_revs_from_refs [\<lparr>ref_name = ref_tag_prefix @ ''v1'' @ peeled_suffix, ref_hash = ''dd''\<rparr>,
      \<lparr>ref_name = ref_tag_prefix @ ''v1'', ref_hash = ''aa''\<rparr>] ''v1'' = Some ''dd''"
proof -
  let ?p = "\<lparr>ref_name = ref_tag_prefix @ ''v1'' @ peeled_suffix, ref_hash = ''dd''\<rparr>"
    and ?a = "\<lparr>ref_name = ref_tag_prefix @ ''v1'', ref_hash = ''aa''\<rparr>"
  have d: "distinct (map ref_name [?a, ?p])" by (simp add: peeled_suffix_def)
  have m: "mset [?p, ?a] = mset [?a, ?p]" by simp
  from tag_revs_prefer_peeled [OF d m, of "''v1''" "''dd''"] show ?thesis by simp
qed

theorem annotated_tag_resolves_to_tag_object_witness:
  "tag_revs_from_refs (remote_list default_peeling demo_adv) ''v1'' = Some ''aa''"
proof -
  have d: "distinct (map ref_name (adv_refs demo_adv))"
    by (simp add: demo_adv_def ref_tag_prefix_def)
  have n: "\<forall>r\<in>set (adv_refs demo_adv). \<not> has_suffix (ref_name r) peeled_suffix"
    by (simp add: demo_adv_def ref_tag_prefix_def peeled_suffix_def has_suffix_def)
  have "\<lparr>ref_name = ref_tag_prefix @ ''v1'', ref_hash = ''aa''\<rparr> \<in> set (adv_refs demo_adv)"
    and "adv_peeled demo_adv = [(ref_tag_prefix @ ''v1'', ''dd'')]"
    by (simp_all add: demo_adv_def)
  from annotated_tag_resolves_to_tag_object [OF d n this] show ?thesis by simp
qed

theorem source_auth_policy_witness:
  "fst (run_state (source_auth demo_env \<lparr>gs_repo = ''git@h:o/r'', gs_ssh_key_file = ''/k'', gs_token = '''',
      gs_known_hosts_file = ''/kh'', gs_insecure = True\<rparr>) initial_world) =
    Inr (SshKey ''k'' (KnownHosts ''hosts''), ''git@h:o/r'') \<and> ''/kh'' \<noteq> ''''"
proof -
  let ?g = "\<lparr>gs_repo = ''git@h:o/r'', gs_ssh_key_file = ''/k'', gs_token = '''',
      gs_known_hosts_file = ''/kh'', gs_insecure = True\<rparr>"
  obtain r w' where run: "run_state (source_auth demo_env ?g) initial_world = (r, w')"
    by (cases "run_state (source_auth demo_env ?g) initial_world")
  then have r: "r = Inr (SshKey ''k'' (KnownHosts ''hosts''), ''git@h:o/r'')"
    by (auto simp: source_auth_def demo_env_def do_fs_def load_known_hosts_def ask_def initial_world_def)
  show ?thesis using source_auth_policy [OF run [unfolded r]] run r by simp
qed

end
