(* ===== verification/Paths.thy ===== *)
theory Paths
  imports Go_Strings
begin

text \<open>
  Slash-separated paths (\<^verbatim>\<open>path/filepath\<close> on Unix): \<^verbatim>\<open>Clean\<close> and \<^verbatim>\<open>Join\<close> by lexical
  processing, on the list of path elements.
\<close>

definition path_elements :: "string \<Rightarrow> string list" where
  "path_elements p = filter (\<lambda>e. e \<noteq> '''' \<and> e \<noteq> ''.'') (split_on (CHR ''/'') p)"

definition is_abs :: "string \<Rightarrow> bool" where
  "is_abs p = has_prefix p ''/''"

text \<open>The elements kept so far, last first; \<open>..\<close> removes one, or stays if there is none.\<close>

definition push_element :: "bool \<Rightarrow> string \<Rightarrow> string list \<Rightarrow> string list" where
  "push_element rooted e stack =
     (if e = ''..'' then
        (case stack of
           [] \<Rightarrow> if rooted then [] else [''..'']
         | t # ts \<Rightarrow> if t = ''..'' then ''..'' # stack else ts)
      else e # stack)"

definition clean_elements :: "bool \<Rightarrow> string list \<Rightarrow> string list" where
  "clean_elements rooted es = rev (fold (push_element rooted) es [])"

definition clean_path :: "string \<Rightarrow> string" where
  "clean_path p =
     (let es = clean_elements (is_abs p) (path_elements p) in
      if is_abs p then ''/'' @ str_join ''/'' es
      else if es = [] then ''.'' else str_join ''/'' es)"

definition join_path :: "string \<Rightarrow> string \<Rightarrow> string" where
  "join_path a b =
     (if a = '''' then (if b = '''' then '''' else clean_path b)
      else if b = '''' then clean_path a else clean_path (a @ ''/'' @ b))"

section \<open>Clean elements\<close>

text \<open>An element list is clean when only a leading run of \<open>..\<close> remains.\<close>

definition plain :: "string \<Rightarrow> bool" where
  "plain e \<longleftrightarrow> e \<noteq> '''' \<and> e \<noteq> ''.'' \<and> e \<noteq> ''..'' \<and> CHR ''/'' \<notin> set e"

lemma split_on_no_sep: "w \<in> set (split_on c s) \<Longrightarrow> c \<notin> set w"
  by (induction s arbitrary: w) (auto split: list.splits if_splits)

lemma split_on_none: "c \<notin> set s \<Longrightarrow> split_on c s = [s]"
  by (induction s) auto

lemma split_on_append: "split_on c (s @ c # t) = split_on c s @ split_on c t"
  by (induction s) (auto split: list.splits)

lemma path_elements_mem:
  "e \<in> set (path_elements p) \<Longrightarrow> e \<noteq> '''' \<and> e \<noteq> ''.'' \<and> CHR ''/'' \<notin> set e"
  by (auto simp: path_elements_def split_on_no_sep)

lemma path_elements_append:
  "path_elements (a @ CHR ''/'' # b) = path_elements a @ path_elements b"
  by (simp add: path_elements_def split_on_append)

definition element :: "string \<Rightarrow> bool" where
  "element e \<longleftrightarrow> e \<noteq> '''' \<and> e \<noteq> ''.'' \<and> CHR ''/'' \<notin> set e"

lemma plain_element: "plain e \<longleftrightarrow> element e \<and> e \<noteq> ''..''"
  by (auto simp: plain_def element_def)

lemma list_all_plain_element: "list_all plain es \<Longrightarrow> list_all element es"
  by (auto simp: list_all_iff plain_element)

lemma path_elements_single: "element e \<Longrightarrow> path_elements e = [e]"
  by (auto simp: path_elements_def element_def split_on_none)

lemma path_elements_join:
  "list_all element es \<Longrightarrow> path_elements (str_join ''/'' es) = es"
proof (induction es rule: induct_list012)
  case 1
  show ?case by (simp add: path_elements_def)
next
  case (3 a b es)
  then show ?case using path_elements_append [of a] by (simp add: path_elements_single)
qed (simp add: path_elements_single)

text \<open>The stack holds plain elements above a run of \<open>..\<close> (empty in a rooted path).\<close>

definition stack_ok :: "bool \<Rightarrow> string list \<Rightarrow> bool" where
  "stack_ok rooted stack \<longleftrightarrow>
     (\<exists>ps n. stack = ps @ replicate n ''..'' \<and> list_all plain ps \<and> (rooted \<longrightarrow> n = 0))"

lemma plain_not_dotdot: "plain e \<Longrightarrow> e \<noteq> ''..''"
  by (simp add: plain_def)

lemma stack_ok_push:
  assumes "stack_ok rooted stack" and "e \<noteq> ''''" "e \<noteq> ''.''" "CHR ''/'' \<notin> set e"
  shows "stack_ok rooted (push_element rooted e stack)"
proof -
  from assms(1) obtain ps n where s: "stack = ps @ replicate n ''..''" "list_all plain ps"
    and n: "rooted \<longrightarrow> n = 0" by (auto simp: stack_ok_def)
  show ?thesis
  proof (cases "e = ''..''")
    case False
    with s n assms show ?thesis
      unfolding stack_ok_def push_element_def
      by (intro exI [of _ "e # ps"] exI [of _ n]) (simp add: plain_def)
  next
    case True
    show ?thesis
    proof (cases ps)
      case (Cons p qs)
      then have "push_element rooted e stack = qs @ replicate n ''..''"
        using s True by (simp add: push_element_def plain_def)
      with s n Cons show ?thesis unfolding stack_ok_def by auto
    next
      case Nil
      show ?thesis
      proof (cases "n = 0")
        case True
        with Nil s \<open>e = ''..''\<close> have "push_element rooted e stack = [] @ replicate (if rooted then 0 else 1) ''..''"
          by (simp add: push_element_def)
        then show ?thesis unfolding stack_ok_def by (metis list.pred_inject(1))
      next
        case False
        with Nil s \<open>e = ''..''\<close> have "push_element rooted e stack = [] @ replicate (Suc n) ''..''"
          by (cases n) (simp_all add: push_element_def)
        with False n show ?thesis unfolding stack_ok_def by (metis list.pred_inject(1))
      qed
    qed
  qed
qed

lemma clean_elements_form:
  assumes "\<forall>e\<in>set es. e \<noteq> '''' \<and> e \<noteq> ''.'' \<and> CHR ''/'' \<notin> set e"
  obtains n ps where "clean_elements rooted es = replicate n ''..'' @ ps" and "list_all plain ps"
    and "rooted \<longrightarrow> n = 0"
proof -
  have "stack_ok rooted (fold (push_element rooted) es s)" if "stack_ok rooted s" for s
    using that assms by (induction es arbitrary: s) (auto simp: stack_ok_push)
  moreover have "stack_ok rooted []" by (auto simp: stack_ok_def)
  ultimately obtain ps n where f: "fold (push_element rooted) es [] = ps @ replicate n ''..''"
    "list_all plain ps" "rooted \<longrightarrow> n = 0" unfolding stack_ok_def by blast
  show thesis
    by (rule that [of n "rev ps"]) (use f in \<open>simp_all add: clean_elements_def list_all_rev\<close>)
qed

lemma clean_elements_plain: "list_all plain es \<Longrightarrow> clean_elements rooted es = es"
proof -
  assume p: "list_all plain es"
  have "fold (push_element rooted) es s = rev es @ s" for s
    using p by (induction es arbitrary: s) (auto simp: push_element_def plain_def)
  then show ?thesis by (simp add: clean_elements_def)
qed

lemma clean_elements_append_plain:
  "list_all plain es \<Longrightarrow> clean_elements rooted (ds @ es) = clean_elements rooted ds @ es"
proof -
  assume p: "list_all plain es"
  have "fold (push_element rooted) es s = rev es @ s" for s
    using p by (induction es arbitrary: s) (auto simp: push_element_def plain_def)
  then show ?thesis by (simp add: clean_elements_def)
qed

lemma clean_elements_element: "list_all element (clean_elements rooted (path_elements p))"
proof -
  have "\<forall>e\<in>set (path_elements p). e \<noteq> '''' \<and> e \<noteq> ''.'' \<and> CHR ''/'' \<notin> set e"
    using path_elements_mem by blast
  from clean_elements_form [OF this, of rooted] obtain n ps where
    "clean_elements rooted (path_elements p) = replicate n ''..'' @ ps" "list_all plain ps" by blast
  moreover have "list_all element (replicate n ''..'')" by (induction n) (simp_all add: element_def)
  ultimately show ?thesis by (simp add: list_all_plain_element)
qed

text \<open>The first element of a joined list can be read off the text.\<close>

lemma first_element:
  assumes "list_all element es" and "es \<noteq> []" and "CHR ''/'' \<notin> set p"
  shows "str_join ''/'' es = p \<or> has_prefix (str_join ''/'' es) (p @ ''/'') \<longleftrightarrow> hd es = p"
proof -
  let ?tw = "takeWhile (\<lambda>c. c \<noteq> CHR ''/'')"
  obtain e rest where es: "es = e # rest" using assms(2) by (cases es) auto
  have e: "CHR ''/'' \<notin> set e" using assms(1) by (simp add: es element_def)
  have join: "str_join ''/'' es = e \<and> rest = [] \<or> (\<exists>s. str_join ''/'' es = e @ CHR ''/'' # s)"
    by (cases rest) (simp_all add: es)
  have tw: "?tw (x @ CHR ''/'' # s) = x \<and> ?tw x = x" if "CHR ''/'' \<notin> set x" for x s
    using that by (induction x) auto
  have head: "?tw (str_join ''/'' es) = e" using join tw [OF e] by metis
  show ?thesis
  proof
    assume "str_join ''/'' es = p \<or> has_prefix (str_join ''/'' es) (p @ ''/'')"
    then obtain s where "str_join ''/'' es = p \<or> str_join ''/'' es = p @ CHR ''/'' # s"
      by (auto simp: has_prefix_iff)
    with head tw [OF assms(3)] have "e = p" by metis
    then show "hd es = p" by (simp add: es)
  next
    assume "hd es = p"
    then have "e = p" by (simp add: es)
    from join show "str_join ''/'' es = p \<or> has_prefix (str_join ''/'' es) (p @ ''/'')"
    proof (elim disjE exE conjE)
      fix s assume "str_join ''/'' es = e @ CHR ''/'' # s"
      then have "str_join ''/'' es = (p @ ''/'') @ s" using \<open>e = p\<close> by simp
      then show ?thesis unfolding has_prefix_iff by blast
    qed (simp add: \<open>e = p\<close>)
  qed
qed

section \<open>Children of a directory\<close>

lemma clean_elements_idem:
  "clean_elements rooted (clean_elements rooted (path_elements p)) = clean_elements rooted (path_elements p)"
proof -
  have "\<forall>e\<in>set (path_elements p). e \<noteq> '''' \<and> e \<noteq> ''.'' \<and> CHR ''/'' \<notin> set e"
    using path_elements_mem by blast
  from clean_elements_form [OF this, of rooted] obtain n ps where
    f: "clean_elements rooted (path_elements p) = replicate n ''..'' @ ps" "list_all plain ps" "rooted \<longrightarrow> n = 0" by blast
  have "fold (push_element rooted) (replicate k ''..'') (replicate m ''..'') = replicate (k + m) ''..''" if "\<not> rooted" for k m
    using that
  proof (induction k arbitrary: m)
    case (Suc k)
    then have "push_element rooted ''..'' (replicate m ''..'') = replicate (Suc m) ''..''"
      by (cases m) (simp_all add: push_element_def)
    with Suc.IH [OF Suc.prems, of "Suc m"] show ?case by simp
  qed simp
  from this [of n 0] f(3) have "clean_elements rooted (replicate n ''..'') = replicate n ''..''"
    by (cases rooted) (simp_all add: clean_elements_def)
  with f show ?thesis by (simp add: clean_elements_append_plain)
qed

lemma str_join_snoc: "xs \<noteq> [] \<Longrightarrow> str_join s (xs @ [x]) = str_join s xs @ s @ x"
  by (induction xs rule: induct_list012) auto

text \<open>A clean path that is not empty, from its elements.\<close>

definition canonical :: "bool \<Rightarrow> string list \<Rightarrow> string" where
  "canonical rooted es = (if rooted then ''/'' else '''') @ str_join ''/'' es"

lemma clean_path_canonical:
  "clean_elements (is_abs p) (path_elements p) \<noteq> [] \<Longrightarrow>
    clean_path p = canonical (is_abs p) (clean_elements (is_abs p) (path_elements p))"
  by (cases "is_abs p") (simp_all add: clean_path_def canonical_def Let_def)

lemma path_elements_canonical: "list_all element es \<Longrightarrow> path_elements (canonical rooted es) = es"
  using path_elements_append [of "[]" "str_join ''/'' es"]
  by (simp add: canonical_def path_elements_join) (simp add: path_elements_def)

lemma is_abs_canonical:
  assumes "list_all element es" and "es \<noteq> []"
  shows "is_abs (canonical rooted es @ s) = rooted"
proof -
  obtain e rest where es: "es = e # rest" using assms(2) by (cases es) auto
  obtain c t where e: "e = c # t" "c \<noteq> CHR ''/''" using assms(1) by (cases e) (auto simp: es element_def)
  show ?thesis by (cases rest) (auto simp: canonical_def is_abs_def has_prefix_def es e)
qed

lemma clean_path_child:
  assumes "list_all element es" and "es \<noteq> []" and "clean_elements rooted es = es" and "plain name"
  shows "clean_path (canonical rooted es @ ''/'' @ name) = canonical rooted es @ ''/'' @ name"
proof -
  let ?p = "canonical rooted es @ ''/'' @ name"
  have e: "path_elements ?p = es @ [name]"
    using path_elements_append [of "canonical rooted es" name] assms(1,4)
    by (simp add: path_elements_canonical path_elements_single plain_element)
  have "clean_elements (is_abs ?p) (path_elements ?p) = es @ [name]"
    unfolding is_abs_canonical [OF assms(1,2)] e
    using clean_elements_append_plain [of "[name]" rooted es] assms(3,4) by simp
  then have "clean_path ?p = canonical rooted (es @ [name])"
    using clean_path_canonical [of ?p] unfolding is_abs_canonical [OF assms(1,2)] by simp
  then show ?thesis using assms(2) by (simp add: canonical_def str_join_snoc)
qed

lemma join_path_child:
  assumes "plain base" and "plain name"
  shows "join_path (join_path a base) name = join_path a base @ ''/'' @ name"
proof -
  obtain p ds where p: "join_path a base = clean_path p" "path_elements p = ds @ [base]"
  proof (cases "a = ''''")
    case True
    with assms(1) show ?thesis
      by (intro that [of base "[]"]) (auto simp: join_path_def path_elements_single plain_element element_def)
  next
    case False
    with assms(1) path_elements_append [of a base] show ?thesis
      by (intro that [of "a @ ''/'' @ base" "path_elements a"])
        (auto simp: join_path_def path_elements_single plain_element element_def)
  qed
  let ?es = "clean_elements (is_abs p) (path_elements p)"
  have ne: "?es \<noteq> []"
    using clean_elements_append_plain [of "[base]" "is_abs p" ds] assms(1) p(2) by simp
  have "join_path a base = canonical (is_abs p) ?es"
    unfolding p(1) by (rule clean_path_canonical [OF ne])
  moreover have "join_path (canonical (is_abs p) ?es) name = clean_path (canonical (is_abs p) ?es @ ''/'' @ name)"
    using ne assms(2) path_elements_canonical [OF clean_elements_element, of "is_abs p" "is_abs p" p]
    by (auto simp: join_path_def plain_def path_elements_def)
  ultimately show ?thesis
    using clean_path_child [OF clean_elements_element ne clean_elements_idem assms(2)] by simp
qed

end
