(* ===== verification/Http.thy ===== *)
theory Http
  imports Effects Paths
begin

text \<open>
  What the HTTP sources share: the request, the scheme prefix of a repository, percent
  escaping (\<^verbatim>\<open>net/url\<close>), base64 (\<^verbatim>\<open>encoding/base64\<close>) and the decoding of a JSON value into
  a struct of strings (\<^verbatim>\<open>encoding/json\<close>). The JSON parser itself is a parameter. The two encodings are
  read back by reference decoders.
\<close>

section \<open>Requests\<close>

text \<open>\<^verbatim>\<open>http.NewRequestWithContext\<close> checks the URL; the shared client follows redirects.\<close>

definition send_request ::
    "env \<Rightarrow> http_method \<Rightarrow> string \<Rightarrow> (string \<times> string) list \<Rightarrow> bool \<Rightarrow> http_response result io" where
  "send_request E meth u hs follow =
     do_http E \<lparr>http_method = meth, http_url = u, http_headers = hs, http_follow = follow\<rparr>"

definition split_scheme :: "string \<Rightarrow> string \<times> string" where
  "split_scheme repo =
     (if has_prefix repo ''http://'' then (''http'', trim_prefix repo ''http://'')
      else if has_prefix repo ''https://'' then (''https'', trim_prefix repo ''https://'')
      else (''https'', repo))"

section \<open>Escaping\<close>

definition hex_digit :: "nat \<Rightarrow> char" where
  "hex_digit n = (if n < 10 then char_of (48 + n) else char_of (55 + n))"

definition percent :: "char \<Rightarrow> string" where
  "percent c = (let n = (of_char c :: nat) in [CHR ''%'', hex_digit (n div 16), hex_digit (n mod 16)])"

definition ascii_letter :: "char \<Rightarrow> bool" where
  "ascii_letter c = (let n = (of_char c :: nat) in 65 \<le> n \<and> n \<le> 90 \<or> 97 \<le> n \<and> n \<le> 122)"

definition is_alnum :: "char \<Rightarrow> bool" where
  "is_alnum c \<longleftrightarrow> ascii_letter c \<or> is_digit c"

definition path_safe :: "char \<Rightarrow> bool" where
  "path_safe c \<longleftrightarrow> is_alnum c \<or> c \<in> set ''-_.~$&+=:@''"

definition path_escape :: "string \<Rightarrow> string" where
  "path_escape s = concat (map (\<lambda>c. if path_safe c then [c] else percent c) s)"

definition query_escape :: "string \<Rightarrow> string" where
  "query_escape s =
     concat (map (\<lambda>c. if c = CHR '' '' then ''+'' else if is_alnum c \<or> c \<in> set ''-_.~'' then [c]
                      else percent c) s)"

definition base64_char :: "nat \<Rightarrow> char" where
  "base64_char n =
     (if n < 26 then char_of (65 + n) else if n < 52 then char_of (71 + n)
      else if n < 62 then char_of (n - 4) else if n = 62 then CHR ''+'' else CHR ''/'')"

fun base64_encode :: "string \<Rightarrow> string" where
  "base64_encode [] = []"
| "base64_encode [a] =
     (let n = of_char a * 65536 :: nat
      in [base64_char (n div 262144), base64_char (n div 4096 mod 64), CHR ''='', CHR ''=''])"
| "base64_encode [a, b] =
     (let n = of_char a * 65536 + of_char b * 256 :: nat
      in [base64_char (n div 262144), base64_char (n div 4096 mod 64),
          base64_char (n div 64 mod 64), CHR ''=''])"
| "base64_encode (a # b # c # s) =
     (let n = of_char a * 65536 + of_char b * 256 + of_char c :: nat
      in base64_char (n div 262144) # base64_char (n div 4096 mod 64) #
         base64_char (n div 64 mod 64) # base64_char (n mod 64) # base64_encode s)"

section \<open>Decoding JSON into structs\<close>

text \<open>
  The members of an object are decoded in order; a member belongs to the field of the same
  name, or else of a name equal up to case. \<^verbatim>\<open>null\<close> leaves a string alone and clears a slice;
  a value of another type is an error, reported once the object has been read.
\<close>

record decoded =
  dec_strings :: strmap
  dec_list :: "string list"
  dec_error :: "go_error option"

definition json_type_error :: go_error where
  "json_type_error = Errorf ''json: cannot unmarshal value into Go value''"

definition field_for :: "string list \<Rightarrow> string \<Rightarrow> string option" where
  "field_for names k =
     (if k \<in> set names then Some k else find (\<lambda>f. equal_fold f k) names)"

fun decode_strings :: "string list \<Rightarrow> json list \<Rightarrow> string list \<times> bool" where
  "decode_strings old [] = ([], True)"
| "decode_strings old (j # js) =
     (let (rest, ok) = decode_strings (tl old) js;
          keep = (case old of [] \<Rightarrow> '''' | s # _ \<Rightarrow> s)
      in case j of JStr s \<Rightarrow> (s # rest, ok) | JNull \<Rightarrow> (keep # rest, ok) | _ \<Rightarrow> (keep # rest, False))"

definition note_error :: "decoded \<Rightarrow> decoded" where
  "note_error d =
     d\<lparr>dec_error := (case dec_error d of None \<Rightarrow> Some json_type_error | Some e \<Rightarrow> Some e)\<rparr>"

definition decode_member :: "string list \<Rightarrow> string list \<Rightarrow> string \<times> json \<Rightarrow> decoded \<Rightarrow> decoded" where
  "decode_member names slices kv d =
     (case kv of (k, v) \<Rightarrow>
        case field_for (names @ slices) k of
          None \<Rightarrow> d
        | Some f \<Rightarrow>
            if f \<in> set slices then
              (case v of
                 JNull \<Rightarrow> d\<lparr>dec_list := []\<rparr>
               | JArr js \<Rightarrow> (case decode_strings (dec_list d) js of (xs, ok) \<Rightarrow>
                   (if ok then d\<lparr>dec_list := xs\<rparr> else note_error (d\<lparr>dec_list := xs\<rparr>)))
               | _ \<Rightarrow> note_error d)
            else
              (case v of
                 JNull \<Rightarrow> d
               | JStr s \<Rightarrow> d\<lparr>dec_strings := (dec_strings d)(f \<mapsto> s)\<rparr>
               | _ \<Rightarrow> note_error d))"

definition decode_struct :: "string list \<Rightarrow> string list \<Rightarrow> json \<Rightarrow> decoded result" where
  "decode_struct names slices j =
     (case j of
        JNull \<Rightarrow> Inr \<lparr>dec_strings = Map.empty, dec_list = [], dec_error = None\<rparr>
      | JObj kvs \<Rightarrow>
          (let d = fold (decode_member names slices) kvs
                     \<lparr>dec_strings = Map.empty, dec_list = [], dec_error = None\<rparr>
           in case dec_error d of None \<Rightarrow> Inr d | Some e \<Rightarrow> Inl e)
      | _ \<Rightarrow> Inl json_type_error)"

definition dec_string :: "decoded \<Rightarrow> string \<Rightarrow> string" where
  "dec_string d f = gomap_get (dec_strings d) f"

lemma ensures_send_request [ensures_intro]:
  "(\<And>q r. P (EvHttp q r)) \<Longrightarrow> ensures P (send_request E m u hs fl) (\<lambda>_. True)"
  by (simp add: send_request_def ensures_calls)

lemma decode_struct_single:
  "decode_struct [] [''tags''] (JObj [(''tags'', JArr (map JStr ts))]) =
    Inr \<lparr>dec_strings = Map.empty, dec_list = ts, dec_error = None\<rparr>"
proof -
  have "decode_strings old (map JStr ts) = (ts, True)" for old
    by (induction ts arbitrary: old) simp_all
  then show ?thesis by (simp add: decode_struct_def decode_member_def field_for_def Let_def)
qed

section \<open>Unescaping\<close>

text \<open>A reference decoder (\<^verbatim>\<open>url.PathUnescape\<close>): what the receiver of an escaped segment reads.\<close>

definition hex_value :: "char \<Rightarrow> nat option" where
  "hex_value c =
     (let n = of_char c :: nat in
      if 48 \<le> n \<and> n \<le> 57 then Some (n - 48)
      else if 65 \<le> n \<and> n \<le> 70 then Some (n - 55)
      else if 97 \<le> n \<and> n \<le> 102 then Some (n - 87)
      else None)"

fun path_unescape :: "string \<Rightarrow> string option" where
  "path_unescape [] = Some []"
| "path_unescape (c # s) =
     (if c \<noteq> CHR ''%'' then map_option (Cons c) (path_unescape s)
      else (case s of
        a # b # rest \<Rightarrow>
          (case (hex_value a, hex_value b) of
             (Some h, Some l) \<Rightarrow> map_option (Cons (char_of (16 * h + l))) (path_unescape rest)
           | _ \<Rightarrow> None)
      | _ \<Rightarrow> None))"

lemma hex_value_digit: "n < 16 \<Longrightarrow> hex_value (hex_digit n) = Some n"
  by (auto simp: hex_value_def hex_digit_def Let_def take_bit_eq_mod)

lemma path_safe_plain: "path_safe c \<Longrightarrow> c \<noteq> CHR ''%'' \<and> c \<noteq> CHR ''/''"
  by (auto simp: path_safe_def is_alnum_def ascii_letter_def is_digit_def)

lemma unescape_percent: "path_unescape (percent c @ s) = map_option (Cons c) (path_unescape s)"
proof -
  let ?n = "of_char c :: nat"
  have "?n div 16 < 16" "?n mod 16 < 16" "16 * (?n div 16) + ?n mod 16 = ?n"
    using nat_of_char_less_256 [of c] by (auto simp: less_mult_imp_div_less)
  then show ?thesis by (simp add: percent_def Let_def hex_value_digit)
qed

lemma path_escape_Cons:
  "path_escape (c # s) =
    (if path_safe c then [c] else percent c) @ path_escape s"
  by (simp add: path_escape_def)

lemma path_unescape_escape: "path_unescape (path_escape s) = Some s"
proof (induction s)
  case (Cons c s)
  then show ?case by (cases "path_safe c") (auto simp: path_escape_Cons unescape_percent dest: path_safe_plain)
qed (simp add: path_escape_def)

lemma path_escape_inj: "path_escape s = path_escape t \<Longrightarrow> s = t"
  by (metis option.inject path_unescape_escape)

lemma percent_no_slash: "CHR ''/'' \<notin> set (percent c)"
proof -
  have "hex_value (CHR ''/'') = None" by code_simp
  then have "hex_digit n \<noteq> CHR ''/''" if "n < 16" for n using hex_value_digit [OF that] by auto
  then show ?thesis
    using nat_of_char_less_256 [of c] by (auto simp: percent_def Let_def less_mult_imp_div_less dest: sym)
qed

lemma path_escape_no_slash: "CHR ''/'' \<notin> set (path_escape s)"
  by (auto simp: path_escape_def percent_no_slash dest: path_safe_plain)

section \<open>Decoding base64\<close>

definition base64_value :: "char \<Rightarrow> nat option" where
  "base64_value c =
     (let n = of_char c :: nat in
      if 65 \<le> n \<and> n \<le> 90 then Some (n - 65)
      else if 97 \<le> n \<and> n \<le> 122 then Some (n - 71)
      else if 48 \<le> n \<and> n \<le> 57 then Some (n + 4)
      else if n = 43 then Some 62 else if n = 47 then Some 63 else None)"

text \<open>A reference decoder of padded base64, without its check of the unused bits.\<close>

fun base64_decode :: "string \<Rightarrow> string option" where
  "base64_decode [] = Some []"
| "base64_decode (a # b # c # d # s) =
     (case (base64_value a, base64_value b) of
        (Some i, Some j) \<Rightarrow>
          (if s = [] \<and> c = CHR ''='' \<and> d = CHR ''='' then Some [char_of (i * 4 + j div 16)]
           else (case base64_value c of
             None \<Rightarrow> None
           | Some k \<Rightarrow>
               (if s = [] \<and> d = CHR ''='' then Some [char_of (i * 4 + j div 16), char_of (j mod 16 * 16 + k div 4)]
                else (case base64_value d of
                  None \<Rightarrow> None
                | Some l \<Rightarrow> map_option (\<lambda>t. char_of (i * 4 + j div 16) # char_of (j mod 16 * 16 + k div 4) #
                    char_of (k mod 4 * 64 + l) # t) (base64_decode s)))))
      | _ \<Rightarrow> None)"
| "base64_decode _ = None"

lemma base64_value_char: "n < 64 \<Longrightarrow> base64_value (base64_char n) = Some n"
  by (auto simp: base64_value_def base64_char_def Let_def take_bit_eq_mod)

lemma base64_char_pad: "n < 64 \<Longrightarrow> base64_char n \<noteq> CHR ''=''"
proof
  assume "n < 64" "base64_char n = CHR ''=''"
  moreover have "base64_value (CHR ''='') = None" by code_simp
  ultimately show False using base64_value_char by force
qed

text \<open>Three bytes as four groups of six bits, and back.\<close>

lemma base64_groups:
  fixes x y z :: nat
  assumes "x < 256" "y < 256" "z < 256" and n: "n = x * 65536 + y * 256 + z"
  shows "n div 262144 = x div 4" and "n div 4096 mod 64 = x mod 4 * 16 + y div 16"
    and "n div 64 mod 64 = y mod 16 * 4 + z div 64" and "n mod 64 = z mod 64"
proof -
  define x1 x0 y1 y0 z1 z0 where split: "x1 = x div 4" "x0 = x mod 4" "y1 = y div 16" "y0 = y mod 16"
    "z1 = z div 64" "z0 = z mod 64"
  then have parts: "x = 4 * x1 + x0" "y = 16 * y1 + y0" "z = 64 * z1 + z0"
    "x1 < 64" "x0 < 4" "y1 < 16" "y0 < 16" "z1 < 4" "z0 < 64"
    using assms by (auto simp: less_mult_imp_div_less)
  show "n div 262144 = x div 4"
    unfolding split(1) [symmetric] by (rule div_nat_eqI) (use parts in \<open>simp_all add: n\<close>)
  have "n div 4096 = 64 * x1 + (x0 * 16 + y1)"
    by (rule div_nat_eqI) (use parts in \<open>simp_all add: n\<close>)
  moreover have "x0 * 16 + y1 < 64" using parts by simp
  ultimately show "n div 4096 mod 64 = x mod 4 * 16 + y div 16" by (simp add: split(2,3))
  have "n div 64 = 64 * (64 * x1 + (x0 * 16 + y1)) + (y0 * 4 + z1)"
    by (rule div_nat_eqI) (use parts in \<open>simp_all add: n\<close>)
  moreover have "y0 * 4 + z1 < 64" using parts by simp
  ultimately have "n div 64 mod 64 = y0 * 4 + z1" by (simp only: mod_mult_self4 mod_less)
  then show "n div 64 mod 64 = y mod 16 * 4 + z div 64" by (simp add: split(4,5))
  have "n = 64 * (x * 1024 + y * 4 + z1) + z0" using parts by (simp add: n)
  then have "n mod 64 = z0" using parts(9) by (simp only: mod_mult_self4 mod_less)
  then show "n mod 64 = z mod 64" by (simp add: split(6))
qed

lemma base64_groups_bounds:
  fixes x y z :: nat
  assumes "x < 256" "y < 256" "z < 256"
  shows "x div 4 < 64" "x mod 4 * 16 + y div 16 < 64" "y mod 16 * 4 + z div 64 < 64" "z mod 64 < 64"
    and "x div 4 * 4 + (x mod 4 * 16 + y div 16) div 16 = x"
    and "(x mod 4 * 16 + y div 16) mod 16 * 16 + (y mod 16 * 4 + z div 64) div 4 = y"
    and "(y mod 16 * 4 + z div 64) mod 4 * 64 + z mod 64 = z"
  using assms by (auto simp: less_mult_imp_div_less)

lemma base64_decode_encode: "base64_decode (base64_encode s) = Some s"
proof (induction s rule: base64_encode.induct)
  case 1
  then show ?case by simp
next
  case (2 a)
  note lt = nat_of_char_less_256 [of a]
  from base64_groups [OF lt _ _ refl, of 0 0] base64_groups_bounds [OF lt, of 0 0] show ?case
    by (simp add: Let_def base64_value_char)
next
  case (3 a b)
  note lt = nat_of_char_less_256 [of a] nat_of_char_less_256 [of b]
  have "base64_encode [a, b] = (let x = of_char a; y = of_char b in
      [base64_char (x div 4), base64_char (x mod 4 * 16 + y div 16), base64_char (y mod 16 * 4), CHR ''=''])"
    using base64_groups [OF lt, of 0 "of_char a * 65536 + of_char b * 256"]
    by (simp only: base64_encode.simps Let_def zero_less_numeral add_0_right div_0 simp_thms True_implies_equals)
  with base64_groups_bounds [OF lt, of 0] show ?case
    by (simp add: Let_def base64_value_char base64_char_pad del: base64_encode.simps)
next
  case (4 a b c s)
  note lt = nat_of_char_less_256 [of a] nat_of_char_less_256 [of b] nat_of_char_less_256 [of c]
  have "base64_encode (a # b # c # s) = (let x = of_char a; y = of_char b; z = of_char c in
      base64_char (x div 4) # base64_char (x mod 4 * 16 + y div 16) # base64_char (y mod 16 * 4 + z div 64) #
      base64_char (z mod 64) # base64_encode s)"
    by (simp only: base64_encode.simps Let_def base64_groups [OF lt refl])
  with base64_groups_bounds [OF lt] 4 show ?case
    by (simp add: Let_def base64_value_char base64_char_pad del: base64_encode.simps)
qed

section \<open>Example servers\<close>

definition demo_http_env :: "(http_request \<Rightarrow> http_response) \<Rightarrow> json \<Rightarrow> env" where
  "demo_http_env answer j = demo_env\<lparr>env_http := (\<lambda>n q. Inr (answer q)), lib_json := (\<lambda>s. Inr j),
     lib_request := (\<lambda>u. Inr ())\<rparr>"

definition demo_response :: "int \<Rightarrow> (string \<Rightarrow> string) \<Rightarrow> http_response" where
  "demo_response n h = \<lparr>resp_status = n, resp_header = h, resp_body = '''', resp_body_error = None\<rparr>"

end
