(* ===== verification/Nix_Source.thy ===== *)
theory Nix_Source
  imports Http
begin

text \<open>
  \<^verbatim>\<open>internal/source/nix.go\<close>: the tags of a nix cache and the release record of one tag.
\<close>

section \<open>The repository\<close>

record nix_source =
  ns_repo :: string
  ns_token :: string

definition split_last :: "string \<Rightarrow> (string \<times> string) option" where
  "split_last ref =
     (case last_index_byte ref (CHR ''/'') of
        None \<Rightarrow> None
      | Some i \<Rightarrow> if i = 0 \<or> i = length ref - 1 then None else Some (take i ref, drop (i + 1) ref))"

text \<open>Scheme, host (with any path prefix) and name; both operations start with it.\<close>

definition nix_parts :: "string \<Rightarrow> (string \<times> string \<times> string) result" where
  "nix_parts repo =
     (let (scheme, ref) = split_scheme repo in
      case split_last (trim_suffix ref ''/'') of
        None \<Rightarrow> Inl (Errorf (''nix repo '' @ go_quote repo @ '' must be <host>/<name>''))
      | Some (host, name) \<Rightarrow> Inr (scheme, trim_suffix host ''/v1/tags'', name))"

definition nix_tags_url :: "string \<times> string \<times> string \<Rightarrow> string" where
  "nix_tags_url p = (case p of (scheme, host, name) \<Rightarrow>
     scheme @ ''://'' @ host @ ''/v1/tags/'' @ name @ ''/list'')"

definition nix_record_url :: "string \<times> string \<times> string \<Rightarrow> string \<Rightarrow> string" where
  "nix_record_url p tag = (case p of (scheme, host, name) \<Rightarrow>
     scheme @ ''://'' @ host @ ''/v1/tags/'' @ path_escape name @ ''/'' @ path_escape tag)"

definition nix_auth_header :: "nix_source \<Rightarrow> (string \<times> string) list" where
  "nix_auth_header n =
     (if ns_token n \<noteq> '''' then [(''Authorization'', ''Bearer '' @ ns_token n)] else [])"

definition status_text :: "int \<Rightarrow> string" where
  "status_text n = ''status '' @ (if n < 0 then ''-'' @ nat_digits (nat (- n)) else nat_digits (nat n))"

section \<open>Tags\<close>

definition nix_tags :: "env \<Rightarrow> nix_source \<Rightarrow> string list result io" where
  "nix_tags E n =
     (case nix_parts (ns_repo n) of
        Inl e \<Rightarrow> ret (Inl e)
      | Inr parts \<Rightarrow>
          (case lib_request E (nix_tags_url parts) of
             Inl e \<Rightarrow> ret (Inl (Wrapped ''nix tags request'' e))
           | Inr _ \<Rightarrow> do {
               r \<leftarrow> send_request E GET (nix_tags_url parts) (nix_auth_header n) True;
               ret (case r of
                 Inl e \<Rightarrow> Inl (Wrapped (''ls-tags '' @ ns_repo n) e)
               | Inr resp \<Rightarrow>
                   if resp_status resp \<noteq> 200
                   then Inl (Errorf (''ls-tags '' @ ns_repo n @ '': '' @ status_text (resp_status resp)))
                   else (case rbind (lib_json E (resp_body resp)) (decode_struct [''name''] [''tags'']) of
                       Inl e \<Rightarrow> Inl (Wrapped (''ls-tags '' @ ns_repo n @ '': decode'') e)
                     | Inr d \<Rightarrow> Inr (dec_list d))) }))"

section \<open>The release record of a tag\<close>

definition nix_entry_fields :: "string list" where
  "nix_entry_fields = [''tag'', ''store_path'', ''root'', ''rev'', ''image_tag'']"

definition nix_entry_data :: "decoded \<Rightarrow> strmap" where
  "nix_entry_data d =
     (let m = [''store_path'' \<mapsto> dec_string d ''store_path''];
          m = (if dec_string d ''root'' \<noteq> '''' then m(''root'' \<mapsto> dec_string d ''root'') else m);
          m = m(''rev'' \<mapsto> dec_string d ''rev'')
      in if dec_string d ''image_tag'' \<noteq> '''' then m(''image_tag'' \<mapsto> dec_string d ''image_tag'') else m)"

definition check_nix_entry :: "string \<Rightarrow> decoded \<Rightarrow> strmap result" where
  "check_nix_entry tag d =
     (if dec_string d ''tag'' \<noteq> '''' \<and> dec_string d ''tag'' \<noteq> tag then
        Inl (Errorf (''release record tag '' @ go_quote (dec_string d ''tag'') @
          '' does not match requested tag '' @ go_quote tag))
      else if dec_string d ''store_path'' = '''' then
        Inl (Errorf (''release record for tag '' @ tag @ '' is missing store_path''))
      else if dec_string d ''rev'' = '''' then
        Inl (Errorf (''release record for tag '' @ tag @ '' is missing rev''))
      else Inr (nix_entry_data d))"

definition nix_resolve :: "env \<Rightarrow> nix_source \<Rightarrow> string \<Rightarrow> strmap result io" where
  "nix_resolve E n tag =
     (case nix_parts (ns_repo n) of
        Inl e \<Rightarrow> ret (Inl e)
      | Inr parts \<Rightarrow>
          (case lib_request E (nix_record_url parts tag) of
             Inl e \<Rightarrow> ret (Inl (Wrapped ''nix resolve request'' e))
           | Inr _ \<Rightarrow> do {
               r \<leftarrow> send_request E GET (nix_record_url parts tag) (nix_auth_header n) True;
               ret (case r of
                 Inl e \<Rightarrow> Inl (Wrapped (''resolve '' @ ns_repo n) e)
               | Inr resp \<Rightarrow>
                   if resp_status resp \<noteq> 200
                   then Inl (Errorf (''resolve '' @ nix_record_url parts tag @ '': '' @
                          status_text (resp_status resp)))
                   else (case rbind (lib_json E (resp_body resp)) (decode_struct nix_entry_fields []) of
                       Inl e \<Rightarrow> Inl (Wrapped (''resolve '' @ ns_repo n @ '': decode'') e)
                     | Inr d \<Rightarrow> check_nix_entry tag d)) }))"

section \<open>Lemmas\<close>

lemma quiet_nix_tags: "ensures reads (nix_tags E n) (\<lambda>_. True)"
  unfolding nix_tags_def by (intro ensures_intro ensures_bind_any TrueI) simp_all

lemma quiet_nix_resolve: "ensures reads (nix_resolve E n t) (\<lambda>_. True)"
  unfolding nix_resolve_def by (intro ensures_intro ensures_bind_any TrueI) simp_all

lemma nix_entry_data_dom:
  "dom (nix_entry_data d) \<subseteq> {''store_path'', ''root'', ''rev'', ''image_tag''}"
  by (auto simp: nix_entry_data_def Let_def split: if_splits)

lemma nix_resolve_dom:
  "ensures (\<lambda>_. True) (nix_resolve E n t)
    (\<lambda>r. \<forall>m. r = Inr m \<longrightarrow> dom m \<subseteq> {''store_path'', ''root'', ''rev'', ''image_tag''})"
  unfolding nix_resolve_def
  using nix_entry_data_dom
  by (intro ensures_intro ensures_bind_any TrueI)
    (auto simp: check_nix_entry_def split: sum.splits if_splits)

lemma split_last_Some: "split_last ref = Some (a, b) \<longleftrightarrow> ref = a @ ''/'' @ b \<and> a \<noteq> [] \<and> b \<noteq> [] \<and> CHR ''/'' \<notin> set b"
proof
  assume "split_last ref = Some (a, b)"
  then obtain i where i: "last_index_byte ref (CHR ''/'') = Some i" "i \<noteq> 0" "i \<noteq> length ref - 1"
    and ab: "a = take i ref" "b = drop (i + 1) ref"
    by (auto simp: split_last_def split: option.splits if_splits)
  from last_index_byte_Some [OF i(1)] have "i < length ref" "ref ! i = CHR ''/''" "CHR ''/'' \<notin> set b"
    by (simp_all add: ab)
  with i(2,3) ab show "ref = a @ ''/'' @ b \<and> a \<noteq> [] \<and> b \<noteq> [] \<and> CHR ''/'' \<notin> set b"
    using id_take_nth_drop [of i ref] by auto
next
  assume r: "ref = a @ ''/'' @ b \<and> a \<noteq> [] \<and> b \<noteq> [] \<and> CHR ''/'' \<notin> set b"
  have "last_index_byte (x @ CHR ''/'' # b) (CHR ''/'') = Some (length x)" for x
    using r by (induction x) (auto simp: last_index_byte_None split: option.splits)
  from this [of a] r show "split_last ref = Some (a, b)"
    by (simp add: split_last_def)
qed

section \<open>Properties\<close>

text \<open>
  A release record is only used for the tag it was requested for: it comes from the one
  request to the escaped name and tag (injective, so no other tag shares it), answered with
  status 200, its own tag is absent or equal, and it names a store path and a revision,
  which become the template fields.
\<close>

theorem nix_resolve_record_of_tag:
  assumes "run_state (nix_resolve E n tag) w = (Inr data, w')"
  shows "\<exists>parts resp j d. nix_parts (ns_repo n) = Inr parts \<and>
    w_trace w' = EvHttp \<lparr>http_method = GET, http_url = nix_record_url parts tag,
        http_headers = nix_auth_header n, http_follow = True\<rparr> (Inr resp) # w_trace w \<and>
    (\<forall>t. nix_record_url parts t = nix_record_url parts tag \<longrightarrow> t = tag) \<and>
    resp_status resp = 200 \<and> lib_json E (resp_body resp) = Inr j \<and>
    decode_struct nix_entry_fields [] j = Inr d \<and> dec_string d ''tag'' \<in> {'''', tag} \<and>
    data ''store_path'' = Some (dec_string d ''store_path'') \<and> dec_string d ''store_path'' \<noteq> '''' \<and>
    data ''rev'' = Some (dec_string d ''rev'') \<and> dec_string d ''rev'' \<noteq> ''''"
proof -
  from assms obtain parts where p: "nix_parts (ns_repo n) = Inr parts"
    by (auto simp: nix_resolve_def split: sum.splits)
  have inj: "nix_record_url parts t = nix_record_url parts tag \<Longrightarrow> t = tag" for t
    by (cases parts) (auto simp: nix_record_url_def dest: path_escape_inj)
  from assms p inj show ?thesis
    by (auto simp: nix_resolve_def send_request_def do_http_def ask_def check_nix_entry_def
        nix_entry_data_def Let_def result_iff split: sum.splits if_splits)
qed

text \<open>
  C35. What the cache receives is what was asked for: for every name and tag, whatever bytes they
  hold, the path of the record request has exactly the segments \<^verbatim>\<open>v1\<close>, \<^verbatim>\<open>tags\<close>, the name and the
  tag after the host, and decoding each segment gives them back; a slash in a tag never
  makes another segment.
\<close>

theorem record_path_round_trip:
  shows "map path_unescape (split_on (CHR ''/'')
      (drop (length (scheme @ ''://'' @ host)) (nix_record_url (scheme, host, name) tag))) =
    [Some '''', Some ''v1'', Some ''tags'', Some name, Some tag]"
proof -
  have url: "nix_record_url (scheme, host, name) tag =
      (scheme @ ''://'' @ host) @ ''/v1/tags/'' @ path_escape name @ ''/'' @ path_escape tag"
    by (simp add: nix_record_url_def)
  have after: "drop (length p) (p @ q) = q" for p q :: string by simp
  have "split_on (CHR ''/'') (''/v1/tags/'' @ path_escape name @ ''/'' @ path_escape tag) =
      ['''', ''v1'', ''tags'', path_escape name, path_escape tag]"
    by (simp add: split_on_append split_on_none path_escape_no_slash)
  then show ?thesis by (simp only: url after) (simp add: path_unescape_escape)
qed

section \<open>Witness\<close>

definition demo_entry :: json where
  "demo_entry = JObj [(''tag'', JStr ''v1''), (''store_path'', JStr ''/nix/store/x''), (''rev'', JStr ''abc'')]"

theorem nix_resolve_record_of_tag_witness:
  "\<exists>data. fst (run_state (nix_resolve (demo_http_env (\<lambda>q. demo_response 200 (\<lambda>h. '''')) demo_entry)
      \<lparr>ns_repo = ''c.example/p'', ns_token = ''''\<rparr> ''v1'') initial_world) = Inr data \<and>
    data ''rev'' = Some ''abc''"
proof -
  let ?E = "demo_http_env (\<lambda>q. demo_response 200 (\<lambda>h. '''')) demo_entry"
    and ?n = "\<lparr>ns_repo = ''c.example/p'', ns_token = ''''\<rparr>"
  have p: "nix_parts ''c.example/p'' = Inr (''https'', ''c.example'', ''p'')" by code_simp
  have d: "decode_struct nix_entry_fields [] demo_entry = Inr \<lparr>dec_strings =
      [''tag'' \<mapsto> ''v1'', ''store_path'' \<mapsto> ''/nix/store/x'', ''rev'' \<mapsto> ''abc''], dec_list = [], dec_error = None\<rparr>"
    by (simp add: decode_struct_def demo_entry_def nix_entry_fields_def decode_member_def field_for_def Let_def)
  obtain data w' where run: "run_state (nix_resolve ?E ?n ''v1'') initial_world = (Inr data, w')"
    by (simp add: nix_resolve_def p send_request_def do_http_def ask_def demo_http_env_def
        demo_response_def d check_nix_entry_def dec_string_def gomap_get_def)
  from nix_resolve_record_of_tag [OF run] obtain j d' where "lib_json ?E [] = Inr j"
    "decode_struct nix_entry_fields [] j = Inr d'" "data ''rev'' = Some (dec_string d' ''rev'')"
    by (auto simp: demo_http_env_def)
  with d run show ?thesis by (auto simp: demo_http_env_def dec_string_def gomap_get_def)
qed

end
