(* ===== verification/Oci_Source.thy ===== *)
theory Oci_Source
  imports Nix_Source
begin

text \<open>
  \<^verbatim>\<open>internal/source/oci.go\<close>: the tags of a container registry, page by page. The code follows
  next links for as long as the registry sends them; the model stops after the number of
  pages it is given and then reports \<open>Hang\<close>.
\<close>

section \<open>The listing\<close>

record oci_source =
  os_repo :: string
  os_basic_auth :: string
  os_auth_realm :: string

definition next_marker :: string where
  "next_marker = ''rel='' @ [CHR 34] @ ''next'' @ [CHR 34]"

definition next_page_url :: "env \<Rightarrow> string \<Rightarrow> string \<Rightarrow> string \<Rightarrow> string" where
  "next_page_url E scheme host link =
     (if link = '''' \<or> \<not> contains link next_marker then ''''
      else case (index_byte link (CHR ''<''), index_byte link (CHR ''>'')) of
        (Some s, Some e) \<Rightarrow>
          (if e \<le> s then ''''
           else (let rel = take (e - (s + 1)) (drop (s + 1) link) in
             case lib_url_parse E rel of
               Inl _ \<Rightarrow> ''''
             | Inr u \<Rightarrow> if url_scheme u \<noteq> '''' then lib_url_string E u
                        else scheme @ ''://'' @ host @ rel))
      | _ \<Rightarrow> '''')"

definition oci_headers :: "oci_source \<Rightarrow> (string \<times> string) list" where
  "oci_headers s =
     (if os_basic_auth s \<noteq> '''' then [(''Authorization'', ''Basic '' @ os_basic_auth s)] else [])"

text \<open>One page: its tags, and the link to the next one.\<close>

definition oci_page :: "env \<Rightarrow> oci_source \<Rightarrow> string \<Rightarrow> (string list \<times> string) result io" where
  "oci_page E s next =
     (case lib_request E next of
        Inl e \<Rightarrow> ret (Inl (Wrapped ''oci tags request'' e))
      | Inr _ \<Rightarrow> do {
          r \<leftarrow> send_request E GET next (oci_headers s) True;
          ret (case r of
            Inl e \<Rightarrow> Inl (Wrapped (''ls-tags '' @ os_repo s) e)
          | Inr resp \<Rightarrow>
              if resp_status resp \<noteq> 200
              then Inl (Errorf (''ls-tags '' @ os_repo s @ '': '' @ status_text (resp_status resp)))
              else (case rbind (lib_json E (resp_body resp)) (decode_struct [] [''tags'']) of
                  Inl e \<Rightarrow> Inl (Wrapped (''ls-tags '' @ os_repo s @ '': decode'') e)
                | Inr d \<Rightarrow> Inr (dec_list d, resp_header resp ''Link''))) })"

fun oci_pages ::
    "env \<Rightarrow> oci_source \<Rightarrow> string \<Rightarrow> string \<Rightarrow> nat \<Rightarrow> string \<Rightarrow> string list \<Rightarrow> string list outcome io" where
  "oci_pages E s scheme host 0 next tags =
     (if next = '''' then ret (Ok tags) else ret (Abort Hang))"
| "oci_pages E s scheme host (Suc n) next tags =
     (if next = '''' then ret (Ok tags)
      else do {
        p \<leftarrow> oci_page E s next;
        case p of
          Inl e \<Rightarrow> ret (Fail e)
        | Inr (ts, link) \<Rightarrow>
            oci_pages E s scheme host n (next_page_url E scheme host link) (tags @ ts) })"

definition oci_parts :: "string \<Rightarrow> (string \<times> string \<times> string) result" where
  "oci_parts repo =
     (let (scheme, ref) = split_scheme repo in
      case str_cut ref ''/'' of
        None \<Rightarrow> Inl (Errorf (''OCI repo '' @ go_quote repo @ '' must be <host>/<path>''))
      | Some (host, path) \<Rightarrow>
          if path = '''' then Inl (Errorf (''OCI repo '' @ go_quote repo @ '' must be <host>/<path>''))
          else Inr (scheme, host, path))"

definition oci_tags :: "env \<Rightarrow> oci_source \<Rightarrow> string list outcome io" where
  "oci_tags E s =
     (case oci_parts (os_repo s) of
        Inl e \<Rightarrow> ret (Fail e)
      | Inr (scheme, host, path) \<Rightarrow>
          oci_pages E s scheme host (env_patience E)
            (scheme @ ''://'' @ host @ ''/v2/'' @ path @ ''/tags/list?n=1000'') [])"

section \<open>Lemmas\<close>

lemma quiet_oci_page: "ensures reads (oci_page E s u) (\<lambda>_. True)"
  unfolding oci_page_def by (intro ensures_intro ensures_bind_any TrueI) simp_all

lemma quiet_oci_pages: "ensures reads (oci_pages E s sch h n u ts) (\<lambda>_. True)"
proof (induction n arbitrary: u ts)
  case 0
  then show ?case by (simp add: ensures_intro)
next
  case (Suc n)
  then show ?case
    unfolding oci_pages.simps
    by (intro ensures_intro ensures_bind_any quiet_oci_page TrueI Suc.IH)
qed

lemma quiet_oci_tags: "ensures reads (oci_tags E s) (\<lambda>_. True)"
  unfolding oci_tags_def by (intro ensures_intro quiet_oci_pages TrueI)

text \<open>More patience never changes an answer.\<close>

lemma oci_pages_mono:
  "fst (run_state (oci_pages E s sch h n u ts) w) \<noteq> Abort Hang \<Longrightarrow> n \<le> m \<Longrightarrow>
    run_state (oci_pages E s sch h m u ts) w = run_state (oci_pages E s sch h n u ts) w"
proof (induction n arbitrary: m u ts w)
  case 0
  then show ?case by (cases m) (simp_all split: if_splits)
next
  case (Suc n)
  from \<open>Suc n \<le> m\<close> obtain k where m: "m = Suc k" "n \<le> k" by (cases m) auto
  show ?case
  proof (cases "u = ''''")
    case False
    obtain p w1 where p: "run_state (oci_page E s u) w = (p, w1)" by (cases "run_state (oci_page E s u) w")
    with Suc.prems(1) Suc.IH [OF _ m(2)] False show ?thesis
      by (auto simp: m(1) split: sum.splits prod.splits)
  qed (simp add: m(1))
qed

section \<open>Properties\<close>

text \<open>
  A registry that serves the pages \<open>ps\<close>: the page at a URL is a list of tags with the header
  that leads to the next URL; the last page has no next link.
\<close>

fun serves :: "env \<Rightarrow> oci_source \<Rightarrow> string \<Rightarrow> string \<Rightarrow> string \<Rightarrow> string list list \<Rightarrow> bool" where
  "serves E s scheme host u [] = (u = '''')"
| "serves E s scheme host u (ts # ps) =
     (u \<noteq> '''' \<and> lib_request E u = Inr () \<and>
      (\<exists>resp d. (\<forall>n. env_http E n \<lparr>http_method = GET, http_url = u, http_headers = oci_headers s,
            http_follow = True\<rparr> = Inr resp) \<and>
         resp_status resp = 200 \<and>
         rbind (lib_json E (resp_body resp)) (decode_struct [] [''tags'']) = Inr d \<and> dec_list d = ts \<and>
         serves E s scheme host (next_page_url E scheme host (resp_header resp ''Link'')) ps))"

text \<open>
  C34. Against a registry whose pages end, the listing returns the tags of all pages, in order,
  whenever the budget allows for the pages; the budget does not matter beyond that.
\<close>

theorem oci_pages_complete:
  assumes "serves E s scheme host u ps" and "length ps \<le> fuel"
  shows "fst (run_state (oci_pages E s scheme host fuel u tags) w) = Ok (tags @ concat ps)"
  using assms
proof (induction ps arbitrary: fuel u tags w)
  case Nil
  then show ?case by (cases fuel) simp_all
next
  case (Cons ts ps)
  from Cons.prems(2) obtain n where fuel: "fuel = Suc n" "length ps \<le> n" by (cases fuel) auto
  from Cons.prems(1) obtain resp d where u: "u \<noteq> ''''" "lib_request E u = Inr ()"
    and http: "\<And>n. env_http E n \<lparr>http_method = GET, http_url = u, http_headers = oci_headers s,
            http_follow = True\<rparr> = Inr resp"
    and resp: "resp_status resp = 200"
      "rbind (lib_json E (resp_body resp)) (decode_struct [] [''tags'']) = Inr d" "dec_list d = ts"
    and rest: "serves E s scheme host (next_page_url E scheme host (resp_header resp ''Link'')) ps"
    by auto
  obtain w1 where page: "run_state (oci_page E s u) w = (Inr (ts, resp_header resp ''Link''), w1)"
    using u http resp by (simp add: oci_page_def send_request_def do_http_def ask_def)
  from Cons.IH [OF rest fuel(2), of "tags @ ts" w1] show ?case
    by (simp add: fuel(1) u page)
qed

text \<open>
  Nothing bounds the pages: a registry that always sends a next link is followed for ever,
  whatever the budget, so the listing never returns.
\<close>

theorem oci_pages_unbounded:
  assumes "\<And>n q. env_http E n q = Inr resp" and "\<And>u. lib_request E u = Inr ()"
    and "resp_status resp = 200"
    and "rbind (lib_json E (resp_body resp)) (decode_struct [] [''tags'']) = Inr d"
    and "next_page_url E scheme host (resp_header resp ''Link'') \<noteq> ''''" and "u \<noteq> ''''"
  shows "fst (run_state (oci_pages E s scheme host fuel u tags) w) = Abort Hang"
  using assms(6)
proof (induction fuel arbitrary: u tags w)
  case 0
  then show ?case by simp
next
  case (Suc n)
  obtain w1 where page: "run_state (oci_page E s u) w = (Inr (dec_list d, resp_header resp ''Link''), w1)"
    using assms by (simp add: oci_page_def send_request_def do_http_def ask_def)
  from Suc.IH [OF assms(5), of "tags @ dec_list d" w1] show ?case by (simp add: Suc.prems page)
qed

section \<open>Witnesses\<close>

definition demo_oci :: oci_source where
  "demo_oci = \<lparr>os_repo = ''r.example/app'', os_basic_auth = '''', os_auth_realm = ''''\<rparr>"

definition demo_next_link :: string where
  "demo_next_link = ''</v2/app/tags/list?last=v1>; '' @ next_marker"

definition demo_pager :: "http_request \<Rightarrow> http_response" where
  "demo_pager q = demo_response 200 (\<lambda>h. if contains (http_url q) ''last'' then '''' else demo_next_link)"

definition demo_relative :: "string \<Rightarrow> url result" where
  "demo_relative s = Inr \<lparr>url_scheme = '''', url_has_user = False, url_host = '''', url_path = s,
     url_raw_query = '''', url_fragment = ''''\<rparr>"

definition demo_oci_env :: "(http_request \<Rightarrow> http_response) \<Rightarrow> env" where
  "demo_oci_env answer = (demo_http_env answer (JObj [(''tags'', JArr (map JStr [''v1'']))]))
     \<lparr>lib_url_parse := demo_relative\<rparr>"

lemma demo_next:
  "next_page_url (demo_oci_env a) ''https'' ''r'' demo_next_link = ''https://r/v2/app/tags/list?last=v1''"
proof -
  have "index_byte demo_next_link (CHR ''<'') = Some 0" "index_byte demo_next_link (CHR ''>'') = Some 26"
    "contains demo_next_link next_marker" "demo_next_link \<noteq> ''''"
    "take 25 (drop 1 demo_next_link) = ''/v2/app/tags/list?last=v1''"
    by code_simp+
  then show ?thesis by (simp add: next_page_url_def demo_oci_env_def demo_relative_def)
qed

lemma demo_oci_env_simps:
  "env_http (demo_oci_env a) n q = Inr (a q)"
  "lib_request (demo_oci_env a) u = Inr ()"
  "rbind (lib_json (demo_oci_env a) b) (decode_struct [] [''tags'']) =
     Inr \<lparr>dec_strings = Map.empty, dec_list = [''v1''], dec_error = None\<rparr>"
  using decode_struct_single [of "[''v1'']"]
  by (simp_all add: demo_oci_env_def demo_http_env_def)

theorem oci_pages_complete_witness:
  "fst (run_state (oci_pages (demo_oci_env demo_pager) demo_oci ''https'' ''r'' 2
      ''https://r/v2/app/tags/list?n=1000'' []) initial_world) = Ok [''v1'', ''v1'']"
proof -
  let ?u = "''https://r/v2/app/tags/list?n=1000''" and ?v = "''https://r/v2/app/tags/list?last=v1''"
  have c: "\<not> contains ?u ''last''" "contains ?v ''last''" by code_simp+
  have "serves (demo_oci_env demo_pager) demo_oci ''https'' ''r'' ?u [[''v1''], [''v1'']]"
    by (simp add: demo_oci_env_simps demo_pager_def demo_response_def c demo_next)
      (simp add: next_page_url_def)
  from oci_pages_complete [OF this, of 2 "[]" initial_world] show ?thesis by simp
qed

theorem oci_pages_unbounded_witness:
  "fst (run_state (oci_pages (demo_oci_env (\<lambda>q. demo_response 200 (\<lambda>h. demo_next_link))) demo_oci
      ''https'' ''r'' 1000 ''https://r/v2/app/tags/list?n=1000'' []) initial_world) = Abort Hang"
  by (rule oci_pages_unbounded [where resp = "demo_response 200 (\<lambda>h. demo_next_link)"
        and d = "\<lparr>dec_strings = Map.empty, dec_list = [''v1''], dec_error = None\<rparr>"])
    (simp_all add: demo_oci_env_simps demo_response_def demo_next)

end
