(* ===== verification/Oci_Digest.thy ===== *)
theory Oci_Digest
  imports Oci_Source
begin

text \<open>
  \<^verbatim>\<open>internal/source/oci_digest.go\<close> and \<^verbatim>\<open>oci_bearer.go\<close>: the digest of one release tag, with
  the token exchange a registry may ask for. The three fixed regular expressions are
  written out; a redirect is never followed.
\<close>

section \<open>The fixed patterns\<close>

definition manifest_tag_ok :: "string \<Rightarrow> bool" where
  "manifest_tag_ok t \<longleftrightarrow>
     t \<noteq> '''' \<and> length t \<le> 128 \<and> (is_alnum (hd t) \<or> hd t = CHR ''_'') \<and>
     list_all (\<lambda>c. is_alnum c \<or> c \<in> set ''_.-'') (tl t)"

definition is_lower_hex :: "char \<Rightarrow> bool" where
  "is_lower_hex c \<longleftrightarrow> is_digit c \<or> CHR ''a'' \<le> c \<and> c \<le> CHR ''f''"

definition valid_digest :: "string \<Rightarrow> bool" where
  "valid_digest v \<longleftrightarrow>
     has_prefix v ''sha256:'' \<and> length v = 71 \<and> list_all is_lower_hex (drop 7 v)"


text \<open>
  One match of \<^verbatim>\<open>([a-zA-Z]+)="([^"\r\n]*)"\<close> at the start of the text: the letters must be
  followed at once by the equals sign, so they are all the letters there are.
\<close>

definition attribute_at :: "string \<Rightarrow> (string \<times> string \<times> string) option" where
  "attribute_at s =
     (let name = takeWhile ascii_letter s; rest = drop (length name) s in
      if name = '''' \<or> \<not> has_prefix rest [CHR ''='', CHR 34] then None
      else let body = drop 2 rest;
               v = takeWhile (\<lambda>c. c \<noteq> CHR 34 \<and> c \<noteq> carriage \<and> c \<noteq> newline) body;
               after = drop (length v) body
           in (case after of c # r \<Rightarrow> (if c = CHR 34 then Some (name, v, r) else None)
                | [] \<Rightarrow> None))"

lemma attribute_at_shorter: "attribute_at s = Some (a, v, r) \<Longrightarrow> length r < length s"
proof -
  assume "attribute_at s = Some (a, v, r)"
  then obtain n m c where "drop n (drop 2 (drop m s)) = c # r"
    by (auto simp: attribute_at_def Let_def split: if_splits list.splits)
  then have "length (c # r) \<le> length s" by (metis diff_le_self drop_drop length_drop)
  then show ?thesis by simp
qed

text \<open>\<^verbatim>\<open>FindAllStringSubmatch\<close>: the matches from left to right.\<close>

function challenge_attributes :: "string \<Rightarrow> (string \<times> string) list" where
  "challenge_attributes [] = []"
| "challenge_attributes (c # s) =
     (case attribute_at (c # s) of
        Some (a, v, r) \<Rightarrow> (a, v) # challenge_attributes r
      | None \<Rightarrow> challenge_attributes s)"
  by pat_completeness auto
termination
  by (relation "measure length") (auto dest: attribute_at_shorter)

section \<open>The token exchange\<close>

text \<open>The checks before anything is sent: the realm, its origin and the scope.\<close>

definition checked_realm :: "env \<Rightarrow> oci_source \<Rightarrow> url \<Rightarrow> strmap \<Rightarrow> url result" where
  "checked_realm E s manifest attrs =
     (case lib_url_parse E (gomap_get attrs ''realm'') of
        Inl _ \<Rightarrow> Inl (Errorf ''invalid digest auth realm'')
      | Inr realm \<Rightarrow>
          if url_host realm = '''' \<or> url_has_user realm \<or> url_raw_query realm \<noteq> '''' \<or> url_fragment realm \<noteq> ''''
          then Inl (Errorf ''invalid digest auth realm'')
          else if os_auth_realm s \<noteq> '''' \<and> lib_url_string E realm \<noteq> os_auth_realm s
          then Inl (Errorf ''digest auth realm differs from configured endpoint'')
          else if \<not> (url_scheme realm = url_scheme manifest \<and> url_host realm = url_host manifest)
          then (if url_scheme realm \<noteq> ''https'' \<or> os_auth_realm s = '''' \<or>
                   lib_url_string E realm \<noteq> os_auth_realm s
                then Inl (Errorf ''digest auth realm is not explicitly trusted'') else Inr realm)
          else if url_scheme realm \<noteq> ''https'' \<and> url_scheme realm \<noteq> ''http''
          then Inl (Errorf ''invalid digest auth realm scheme'')
          else Inr realm)"

definition pull_scope :: "url \<Rightarrow> string result" where
  "pull_scope manifest =
     (case last_index (url_path manifest) ''/manifests/'' of
        None \<Rightarrow> Inl (Errorf ''invalid manifest repository path'')
      | Some i \<Rightarrow> Inr (''repository:'' @ trim_prefix (take i (url_path manifest)) ''/v2/'' @ '':pull''))"

text \<open>\<^verbatim>\<open>url.Values.Encode\<close> of the (otherwise empty) query: the keys in order.\<close>

definition token_query :: "string \<Rightarrow> string \<Rightarrow> string" where
  "token_query scope service =
     ''scope='' @ query_escape scope @
     (if service \<noteq> '''' then ''&service='' @ query_escape service else '''')"

definition token_limit :: nat where "token_limit = 65536"

definition read_token :: "env \<Rightarrow> http_response \<Rightarrow> string result" where
  "read_token E resp =
     (if resp_status resp \<noteq> 200
      then Inl (Errorf (''digest token endpoint: '' @ status_text (resp_status resp)))
      else if resp_body_error resp \<noteq> None \<or> token_limit < length (resp_body resp)
      then Inl (Errorf ''digest token response exceeds limit or is unreadable'')
      else (case rbind (lib_json_all E (resp_body resp)) (decode_struct [''token'', ''access_token''] []) of
          Inl _ \<Rightarrow> Inl (Errorf ''invalid digest token response'')
        | Inr d \<Rightarrow>
            let token = (if dec_string d ''token'' = '''' then dec_string d ''access_token''
                         else dec_string d ''token'')
            in if token = '''' \<or> contains_any token [carriage, newline]
               then Inl (Errorf ''missing or invalid digest token'') else Inr token))"

definition bearer_token :: "env \<Rightarrow> oci_source \<Rightarrow> url \<Rightarrow> string \<Rightarrow> string result io" where
  "bearer_token E s manifest challenge =
     (if \<not> has_prefix challenge ''Bearer ''
      then ret (Inl (Errorf ''digest registry requires unsupported authentication''))
      else let found = challenge_attributes (trim_prefix challenge ''Bearer '') in
      if \<not> distinct (map fst found)
      then ret (Inl (Errorf ''duplicate registry challenge attribute''))
      else let attrs = map_of found in
      case checked_realm E s manifest attrs of
        Inl e \<Rightarrow> ret (Inl e)
      | Inr realm \<Rightarrow>
          (case pull_scope manifest of
             Inl e \<Rightarrow> ret (Inl e)
           | Inr scope \<Rightarrow>
               if gomap_get attrs ''scope'' \<noteq> scope
               then ret (Inl (Errorf ''digest auth challenge scope differs from exact repository pull''))
               else let endpoint = lib_url_string E (realm\<lparr>url_raw_query :=
                          token_query scope (gomap_get attrs ''service'')\<rparr>) in
                 (case lib_request E endpoint of
                    Inl e \<Rightarrow> ret (Inl e)
                  | Inr _ \<Rightarrow> do {
                      r \<leftarrow> send_request E GET endpoint (oci_headers s) False;
                      ret (case r of
                        Inl _ \<Rightarrow> Inl (Errorf ''digest token request failed'')
                      | Inr resp \<Rightarrow> read_token E resp) })))"

section \<open>The digest\<close>

definition manifest_accept :: string where
  "manifest_accept = ''application/vnd.oci.image.index.v1+json, application/vnd.oci.image.manifest.v1+json, '' @
     ''application/vnd.docker.distribution.manifest.list.v2+json, '' @
     ''application/vnd.docker.distribution.manifest.v2+json''"

definition manifest_url :: "env \<Rightarrow> oci_source \<Rightarrow> string \<Rightarrow> url result" where
  "manifest_url E s tag =
     (if \<not> manifest_tag_ok tag then Inl (Errorf ''invalid OCI manifest tag'')
      else let repository = (if contains (os_repo s) ''://'' then os_repo s
                             else ''https://'' @ os_repo s) in
      case lib_url_parse E repository of
        Inl _ \<Rightarrow> Inl (Errorf ''invalid digest repository'')
      | Inr u \<Rightarrow>
          if url_host u = '''' \<or> url_has_user u \<or> url_raw_query u \<noteq> '''' \<or> url_fragment u \<noteq> '''' \<or>
             (url_scheme u \<noteq> ''http'' \<and> url_scheme u \<noteq> ''https'') \<or> trim_set ''/'' (url_path u) = ''''
          then Inl (Errorf ''invalid digest repository'')
          else Inr (u\<lparr>url_path := ''/v2/'' @ trim_set ''/'' (url_path u) @ ''/manifests/'' @ tag\<rparr>))"

definition read_digest :: "http_response \<Rightarrow> string result" where
  "read_digest resp =
     (if resp_status resp \<noteq> 200
      then Inl (Errorf (''resolve OCI digest: '' @ status_text (resp_status resp)))
      else if \<not> valid_digest (resp_header resp ''Docker-Content-Digest'')
      then Inl (Errorf ''resolve OCI digest: missing or invalid sha256 Docker-Content-Digest'')
      else Inr (resp_header resp ''Docker-Content-Digest''))"

definition oci_digest :: "env \<Rightarrow> oci_source \<Rightarrow> string \<Rightarrow> string result io" where
  "oci_digest E s tag =
     (case manifest_url E s tag of
        Inl e \<Rightarrow> ret (Inl e)
      | Inr endpoint \<Rightarrow>
          let target = lib_url_string E endpoint in
          (case lib_request E target of
             Inl e \<Rightarrow> ret (Inl e)
           | Inr _ \<Rightarrow> do {
               r \<leftarrow> send_request E HEAD target ((''Accept'', manifest_accept) # oci_headers s) False;
               case r of
                 Inl e \<Rightarrow> ret (Inl (Wrapped ''resolve OCI digest'' e))
               | Inr resp \<Rightarrow>
                   if resp_status resp \<noteq> 401 then ret (read_digest resp)
                   else do {
                     t \<leftarrow> bearer_token E s endpoint (resp_header resp ''WWW-Authenticate'');
                     case t of
                       Inl e \<Rightarrow> ret (Inl e)
                     | Inr token \<Rightarrow> do {
                         r2 \<leftarrow> send_request E HEAD target
                           [(''Accept'', manifest_accept), (''Authorization'', ''Bearer '' @ token)] False;
                         ret (case r2 of
                           Inl e \<Rightarrow> Inl (Wrapped ''resolve OCI digest after challenge'' e)
                         | Inr resp2 \<Rightarrow> read_digest resp2) } } }))"

section \<open>Lemmas\<close>

text \<open>Where a request may go: the manifest itself, or a realm that passed the checks.\<close>

definition digest_request :: "env \<Rightarrow> oci_source \<Rightarrow> url \<Rightarrow> event \<Rightarrow> bool" where
  "digest_request E s manifest e \<longleftrightarrow>
     (\<exists>q r. e = EvHttp q r \<and> \<not> http_follow q \<and>
        (http_method q = HEAD \<and> http_url q = lib_url_string E manifest \<or>
         http_method q = GET \<and>
         (\<exists>attrs realm scope service. checked_realm E s manifest attrs = Inr realm \<and>
            pull_scope manifest = Inr scope \<and>
            http_url q = lib_url_string E (realm\<lparr>url_raw_query := token_query scope service\<rparr>))))"

lemma read_digest_valid: "read_digest resp = Inr d \<Longrightarrow> valid_digest d"
  by (auto simp: read_digest_def split: if_splits)

lemma ensures_send:
  "(\<And>r. P (EvHttp \<lparr>http_method = m, http_url = u, http_headers = hs, http_follow = fl\<rparr> r)) \<Longrightarrow>
    ensures P (send_request E m u hs fl) (\<lambda>_. True)"
  by (simp add: send_request_def ensures_calls)

lemma bearer_token_requests:
  "ensures (digest_request E s manifest) (bearer_token E s manifest ch) (\<lambda>_. True)"
  unfolding bearer_token_def
  by (intro ensures_if ensures_let ensures_sum ensures_bind_any ensures_return ensures_send TrueI)
    (auto simp: digest_request_def)

lemma oci_digest_requests:
  "ensures (\<lambda>e. \<exists>manifest. manifest_url E s tag = Inr manifest \<and> digest_request E s manifest e)
    (oci_digest E s tag) (\<lambda>r. \<forall>d. r = Inr d \<longrightarrow> valid_digest d)"
  unfolding oci_digest_def
  by (intro ensures_if ensures_let ensures_sum ensures_bind_any ensures_return ensures_send
      ensures_weaken [OF bearer_token_requests])
    (auto simp: digest_request_def read_digest_valid split: sum.splits)

lemma quiet_oci_digest: "ensures reads (oci_digest E s tag) (\<lambda>r. \<forall>d. r = Inr d \<longrightarrow> valid_digest d)"
  by (rule ensures_weaken [OF oci_digest_requests]) (auto simp: digest_request_def)

section \<open>Properties\<close>

text \<open>
  C29. A digest is the registry's own answer for exactly the requested tag: a HEAD request to the
  manifest of that tag, answered with status 200, carried it in its header, and it is a
  well-formed sha256 digest.
\<close>

theorem digest_from_registry:
  assumes "run_state (oci_digest E s tag) w = (Inr d, w')"
  shows "\<exists>repo manifest q resp rest. manifest_url E s tag = Inr manifest \<and>
    url_path manifest = ''/v2/'' @ repo @ ''/manifests/'' @ tag \<and> repo \<noteq> '''' \<and> manifest_tag_ok tag \<and>
    w_trace w' = EvHttp q (Inr resp) # rest \<and> http_method q = HEAD \<and>
    http_url q = lib_url_string E manifest \<and> resp_status resp = 200 \<and>
    resp_header resp ''Docker-Content-Digest'' = d \<and> valid_digest d"
proof -
  from assms obtain manifest where m: "manifest_url E s tag = Inr manifest"
    by (auto simp: oci_digest_def split: sum.splits)
  then have path: "\<exists>repo. url_path manifest = ''/v2/'' @ repo @ ''/manifests/'' @ tag \<and> repo \<noteq> '''' \<and>
      manifest_tag_ok tag"
    by (auto simp: manifest_url_def Let_def split: sum.splits if_splits)
  have "\<exists>q resp rest. w_trace w' = EvHttp q (Inr resp) # rest \<and> http_method q = HEAD \<and>
      http_url q = lib_url_string E manifest \<and> read_digest resp = Inr d"
    using assms m
    by (auto simp: oci_digest_def Let_def send_request_def do_http_def ask_def
        split: sum.splits prod.splits if_splits)
  then have "\<exists>q resp rest. w_trace w' = EvHttp q (Inr resp) # rest \<and> http_method q = HEAD \<and>
      http_url q = lib_url_string E manifest \<and> resp_status resp = 200 \<and>
      resp_header resp ''Docker-Content-Digest'' = d \<and> valid_digest d"
    by (auto simp: read_digest_def split: if_splits)
  with m path show ?thesis by blast
qed

definition trusted_endpoint :: "env \<Rightarrow> oci_source \<Rightarrow> url \<Rightarrow> string \<Rightarrow> bool" where
  "trusted_endpoint E s manifest u \<longleftrightarrow>
     u = lib_url_string E manifest \<or>
     (\<exists>realm query. u = lib_url_string E (realm\<lparr>url_raw_query := query\<rparr>) \<and> \<not> url_has_user realm \<and>
        (url_scheme realm = url_scheme manifest \<and> url_host realm = url_host manifest \<or>
         url_scheme realm = ''https'' \<and> lib_url_string E realm = os_auth_realm s \<and> os_auth_realm s \<noteq> ''''))"

text \<open>
  C30. Registry credentials stay where they belong: every request of a digest lookup goes to the
  manifest's own URL or to a token endpoint that has the manifest's scheme and host, or is
  an HTTPS endpoint that equals the configured realm; no redirect is followed.
\<close>

theorem digest_requests_confined:
  assumes "run_state (oci_digest E s tag) w = (r, w')"
  shows "\<exists>es. w_trace w' = es @ w_trace w \<and>
    (\<forall>e\<in>set es. \<exists>q a manifest. e = EvHttp q a \<and> \<not> http_follow q \<and>
       manifest_url E s tag = Inr manifest \<and> trusted_endpoint E s manifest (http_url q))"
proof -
  have realm: "trusted_endpoint E s m (lib_url_string E (realm\<lparr>url_raw_query := query\<rparr>))"
    if "checked_realm E s m attrs = Inr realm" for m attrs realm query
  proof -
    have "\<not> url_has_user realm" and "url_scheme realm = url_scheme m \<and> url_host realm = url_host m \<or>
        url_scheme realm = ''https'' \<and> lib_url_string E realm = os_auth_realm s \<and> os_auth_realm s \<noteq> ''''"
      using that by (auto simp: checked_realm_def split: sum.splits if_splits)
    then show ?thesis unfolding trusted_endpoint_def by blast
  qed
  have "\<exists>q a manifest. e = EvHttp q a \<and> \<not> http_follow q \<and>
       manifest_url E s tag = Inr manifest \<and> trusted_endpoint E s manifest (http_url q)"
    if m: "manifest_url E s tag = Inr m" and d: "digest_request E s m e" for e m
  proof -
    have self: "trusted_endpoint E s m (lib_url_string E m)" by (simp add: trusted_endpoint_def)
    from d show ?thesis unfolding digest_request_def using m self realm by metis
  qed
  with ensures_run [OF oci_digest_requests assms] show ?thesis by metis
qed

section \<open>Witness\<close>

definition demo_digest :: string where
  "demo_digest = ''sha256:'' @ replicate 64 (CHR ''a'')"

definition demo_registry_url :: "string \<Rightarrow> url result" where
  "demo_registry_url s = Inr \<lparr>url_scheme = ''https'', url_has_user = False, url_host = ''r.example'',
     url_path = ''/app'', url_raw_query = '''', url_fragment = ''''\<rparr>"

definition demo_digest_env :: env where
  "demo_digest_env = (demo_http_env (\<lambda>q. demo_response 200 (\<lambda>h. demo_digest)) JNull)
     \<lparr>lib_url_parse := demo_registry_url, lib_url_string := url_path\<rparr>"

lemma demo_digest_valid: "valid_digest demo_digest"
  by code_simp

lemma demo_manifest_url:
  "manifest_url demo_digest_env demo_oci ''v1'' = Inr \<lparr>url_scheme = ''https'', url_has_user = False,
     url_host = ''r.example'', url_path = ''/v2/app/manifests/v1'', url_raw_query = '''', url_fragment = ''''\<rparr>"
proof -
  have "manifest_tag_ok ''v1''" "trim_set ''/'' ''/app'' = ''app''" by code_simp+
  then show ?thesis
    by (simp add: manifest_url_def demo_digest_env_def demo_registry_url_def Let_def)
qed

lemma demo_digest_run:
  "fst (run_state (oci_digest demo_digest_env demo_oci ''v1'') w) = Inr demo_digest"
proof -
  have "env_http demo_digest_env n q = Inr (demo_response 200 (\<lambda>h. demo_digest))"
    "lib_request demo_digest_env u = Inr ()" for n q u
    by (simp_all add: demo_digest_env_def demo_http_env_def)
  then show ?thesis
    by (simp add: oci_digest_def demo_manifest_url Let_def send_request_def do_http_def ask_def
        demo_response_def read_digest_def demo_digest_valid)
qed

theorem digest_from_registry_witness:
  "\<exists>q resp rest w'. snd (run_state (oci_digest demo_digest_env demo_oci ''v1'') initial_world) = w' \<and>
    w_trace w' = EvHttp q (Inr resp) # rest \<and> resp_header resp ''Docker-Content-Digest'' = demo_digest"
proof -
  obtain w' where run: "run_state (oci_digest demo_digest_env demo_oci ''v1'') initial_world =
      (Inr demo_digest, w')"
    using demo_digest_run by (metis prod.collapse)
  from digest_from_registry [OF run] run show ?thesis by auto
qed

theorem digest_requests_confined_witness:
  "list_all reads (w_trace (snd (run_state (oci_digest demo_digest_env demo_oci ''v1'') initial_world)))"
proof -
  obtain r w' where run: "run_state (oci_digest demo_digest_env demo_oci ''v1'') initial_world = (r, w')"
    by (cases "run_state (oci_digest demo_digest_env demo_oci ''v1'') initial_world")
  from digest_requests_confined [OF run] run show ?thesis
    by (force simp: initial_world_def list_all_iff)
qed

end
