(* ===== verification/Release.thy ===== *)
theory Release
  imports Git_Source Oci_Digest
begin

text \<open>
  Where a release comes from and the template data it brings
  (\<^verbatim>\<open>internal/source/source.go\<close>, and \<^verbatim>\<open>sourceFor\<close>, \<^verbatim>\<open>parseRepo\<close>,
  \<^verbatim>\<open>addRev\<close>, \<^verbatim>\<open>filterSkipped\<close>, \<^verbatim>\<open>appendUnique\<close> and the revision health check
  of \<^verbatim>\<open>internal/controller/tagupdater_controller.go\<close>). A value of the Go interface
  \<^verbatim>\<open>Source\<close> is the record of its methods; an optional capability is an option.
\<close>

section \<open>Sources\<close>

record release_iface =
  list_tags :: "string list outcome io"
  record_of :: "(string \<Rightarrow> strmap result io) option"
  tag_revisions :: "strmap result io option"

definition git_iface :: "env \<Rightarrow> git_source \<Rightarrow> release_iface" where
  "git_iface E g =
     \<lparr>list_tags = do { r \<leftarrow> git_tags E g; ret (of_result r) },
      record_of = None, tag_revisions = Some (git_tag_revs E g)\<rparr>"

definition oci_iface :: "env \<Rightarrow> oci_source \<Rightarrow> release_iface" where
  "oci_iface E s = \<lparr>list_tags = oci_tags E s, record_of = None, tag_revisions = None\<rparr>"

definition nix_iface :: "env \<Rightarrow> nix_source \<Rightarrow> release_iface" where
  "nix_iface E n =
     \<lparr>list_tags = do { r \<leftarrow> nix_tags E n; ret (of_result r) },
      record_of = Some (nix_resolve E n), tag_revisions = None\<rparr>"

definition source_for :: "env \<Rightarrow> source_spec \<Rightarrow> string \<Rightarrow> release_iface result" where
  "source_for E spec oci_basic_auth =
     (if source_type spec = SourceTypeGit then
        Inr (git_iface E
          \<lparr>gs_repo = source_repo spec, gs_ssh_key_file = env_var E ''GIT_SSH_KEY_FILE'',
           gs_token = env_var E ''GIT_TOKEN'', gs_known_hosts_file = env_var E ''GIT_KNOWN_HOSTS_FILE'',
           gs_insecure = equal_fold (env_var E ''GIT_INSECURE_IGNORE_HOST_KEY'') ''true''\<rparr>)
      else if source_type spec = SourceTypeOCI then
        Inr (oci_iface E \<lparr>os_repo = source_repo spec, os_basic_auth = oci_basic_auth, os_auth_realm = ''''\<rparr>)
      else if source_type spec = SourceTypeNix then
        Inr (nix_iface E \<lparr>ns_repo = source_repo spec, ns_token = env_var E ''NIX_CACHE_TOKEN''\<rparr>)
      else Inl (Errorf (''unknown source type '' @ go_quote (source_type spec))))"

section \<open>Skipped tags\<close>

definition filter_skipped :: "string list \<Rightarrow> string list \<Rightarrow> string list" where
  "filter_skipped tags skipped =
     (if skipped = [] then tags else filter (\<lambda>t. t \<notin> set skipped) tags)"

definition append_unique :: "string list \<Rightarrow> string \<Rightarrow> string list" where
  "append_unique values v = (if v \<in> set values then values else values @ [v])"

section \<open>Repository fields\<close>

definition set_owner_repo :: "strmap \<Rightarrow> string \<Rightarrow> strmap" where
  "set_owner_repo out path =
     (case str_cut path ''/'' of
        None \<Rightarrow> out
      | Some (owner, repo) \<Rightarrow> out(''owner'' \<mapsto> owner, ''repo'' \<mapsto> repo))"

text \<open>The \<^verbatim>\<open>host:path\<close> shorthand: the position of a colon before any slash, not at the start.\<close>

definition shorthand_colon :: "string \<Rightarrow> nat option" where
  "shorthand_colon raw =
     (case index_byte raw (CHR '':'') of
        None \<Rightarrow> None
      | Some i \<Rightarrow> if 0 < i \<and> \<not> contains (take i raw) ''/'' then Some i else None)"

definition parse_repo :: "string \<Rightarrow> strmap" where
  "parse_repo url =
     (let out = [''repoURL'' \<mapsto> url]; raw = trim_suffix url ''.git'' in
      if has_prefix raw ''git@'' then
        (case str_cut (trim_prefix raw ''git@'') '':'' of
           None \<Rightarrow> out
         | Some (host, path) \<Rightarrow> set_owner_repo (out(''host'' \<mapsto> host)) path)
      else case shorthand_colon raw of
        Some i \<Rightarrow> set_owner_repo (out(''host'' \<mapsto> take i raw @ ''.com'')) (drop (i + 1) raw)
      | None \<Rightarrow>
          if has_prefix raw ''https://'' \<or> has_prefix raw ''http://'' then
            (case str_cut raw ''://'' of
               None \<Rightarrow> out
             | Some (_, rest) \<Rightarrow>
                 (case index_byte rest (CHR ''/'') of
                    None \<Rightarrow> out
                  | Some slash \<Rightarrow>
                      if 0 < slash
                      then set_owner_repo (out(''host'' \<mapsto> take slash rest)) (drop (slash + 1) rest)
                      else out))
          else out)"

section \<open>Template data\<close>

text \<open>The captures of the chosen tag, the tag itself, and the repository fields on top.\<close>

definition base_data :: "match \<Rightarrow> string \<Rightarrow> strmap" where
  "base_data m repo = (captures m)(''tag'' \<mapsto> match_tag m) ++ parse_repo repo"

definition resolve_record :: "string \<Rightarrow> release_iface \<Rightarrow> string \<Rightarrow> strmap \<Rightarrow> strmap result io" where
  "resolve_record purpose src tag data =
     (case record_of src of
        None \<Rightarrow> ret (Inr data)
      | Some resolve \<Rightarrow> do {
          r \<leftarrow> resolve tag;
          ret (case r of
            Inl e \<Rightarrow> Inl (Wrapped (''resolve release record for '' @ purpose @ tag) e)
          | Inr extra \<Rightarrow> Inr (data ++ extra)) })"

text \<open>
  \<^verbatim>\<open>time.Now().UnixNano()\<close> and \<^verbatim>\<open>time.Unix(0, n)\<close>: the reconciler keeps instants as
  nanoseconds since 1970, with 0 for "never".
\<close>

definition unix_epoch :: time where "unix_epoch = 62135596800 * second"

definition unix_nano :: "time \<Rightarrow> int" where "unix_nano t = wrap64 (t - unix_epoch)"

definition unix_time :: "int \<Rightarrow> time" where "unix_time n = unix_epoch + n"

definition add_rev :: "env \<Rightarrow> release_iface \<Rightarrow> string \<Rightarrow> strmap \<Rightarrow> strmap result io" where
  "add_rev E src tag data =
     (case tag_revisions src of
        None \<Rightarrow> ret (Inr data)
      | Some revisions \<Rightarrow> do {
          started \<leftarrow> clock E;
          _ \<leftarrow> modify_rev_clock (\<lambda>first. if first = 0 then unix_nano started else first) id;
          r \<leftarrow> revisions;
          case r of
            Inl e \<Rightarrow> ret (Inl (Wrapped (''resolve tag '' @ go_quote tag @ '' to commit sha'') e))
          | Inr revs \<Rightarrow>
              if gomap_get revs tag = '''' then
                ret (Inl (Errorf (''tag '' @ go_quote tag @
                  '' resolved to no commit sha; refusing impure tag-only flakeRef'')))
              else do {
                done_at \<leftarrow> clock E;
                _ \<leftarrow> modify_rev_clock id (\<lambda>_. unix_nano done_at);
                ret (Inr (data(''rev'' \<mapsto> gomap_get revs tag))) } })"

section \<open>Health of the revision lookups\<close>

definition rev_stale_after :: duration where "rev_stale_after = 5 * minute"

text \<open>\<^verbatim>\<open>d.Round(time.Second)\<close> of a positive duration, which rounds half up and saturates.\<close>

definition round_to_second :: "duration \<Rightarrow> duration" where
  "round_to_second d =
     (let r = d mod second in
      if r + r < second then d - r
      else if d + second - r \<le> max_duration then d + second - r else max_duration)"

definition rev_resolution_health :: "env \<Rightarrow> int \<Rightarrow> int \<Rightarrow> time \<Rightarrow> go_error option" where
  "rev_resolution_health E first success now =
     (let (anchor_at, anchor) =
            (if success = 0 then (first, ''first attempt'') else (success, ''last success''));
          age = time_sub now (unix_time anchor_at)
      in if anchor_at = 0 then None
         else if rev_stale_after < age then
           Some (Errorf (''git tag->rev resolution stale: '' @ anchor @ '' '' @
             lib_duration_text E (round_to_second age) @ '' ago (>'' @ lib_duration_text E rev_stale_after @ '')''))
         else None)"

definition rev_resolution_healthz :: "env \<Rightarrow> go_error option io" where
  "rev_resolution_healthz E = do {
     now \<leftarrow> clock E;
     State (\<lambda>w. (rev_resolution_health E (w_first_rev_attempt w) (w_last_rev_success w) now, w)) }"

section \<open>The interface\<close>

text \<open>
  What the controller relies on: listing tags, resolving a record and resolving revisions only
  read, and a record brings only the fields of a release record.
\<close>

definition record_fields :: "string set" where
  "record_fields = {''store_path'', ''root'', ''rev'', ''image_tag''}"

locale release_source =
  fixes src :: release_iface
  assumes quiet_list: "ensures reads (list_tags src) (\<lambda>_. True)"
    and quiet_record: "record_of src = Some f \<Longrightarrow>
      ensures reads (f tag) (\<lambda>r. \<forall>m. r = Inr m \<longrightarrow> dom m \<subseteq> record_fields)"
    and quiet_revisions: "tag_revisions src = Some revs \<Longrightarrow> ensures reads revs (\<lambda>_. True)"
begin

lemma resolve_record_frame:
  "ensures reads (resolve_record purpose src tag data)
    (\<lambda>r. \<forall>d. r = Inr d \<longrightarrow> (\<forall>k. k \<notin> record_fields \<longrightarrow> d k = data k))"
proof (cases "record_of src")
  case None
  then show ?thesis by (simp add: resolve_record_def ensures_return)
next
  case (Some f)
  have out: "\<forall>d. (case r of Inl e \<Rightarrow> Inl (Wrapped p e) | Inr extra \<Rightarrow> Inr (data ++ extra)) = Inr d \<longrightarrow>
      (\<forall>k. k \<notin> record_fields \<longrightarrow> d k = data k)"
    if "\<forall>m. r = Inr m \<longrightarrow> dom m \<subseteq> record_fields" for r p
    using that by (cases r) (auto simp: map_add_def dom_def subset_iff split: option.split)
  show ?thesis
    unfolding resolve_record_def Some option.case
    by (rule ensures_bind [OF quiet_record [OF Some]], rule ensures_return) (rule out)
qed

lemma add_rev_frame:
  "ensures reads (add_rev E src tag data)
    (\<lambda>r. \<forall>d. r = Inr d \<longrightarrow> (tag_revisions src = None \<and> d = data) \<or>
      (\<exists>sha. sha \<noteq> '''' \<and> d = data(''rev'' \<mapsto> sha)))"
proof (cases "tag_revisions src")
  case None
  then show ?thesis by (simp add: add_rev_def ensures_return)
next
  case (Some revs)
  show ?thesis
    unfolding add_rev_def Some option.case
    by (intro ensures_intro ensures_bind_any quiet_revisions [OF Some] TrueI) auto
qed

end

interpretation git: release_source "git_iface E g" for E g
  by unfold_locales (auto simp: git_iface_def intro!: ensures_bind_any quiet_git_tags
      quiet_git_tag_revs ensures_return)

interpretation oci: release_source "oci_iface E s" for E s
  by unfold_locales (auto simp: oci_iface_def quiet_oci_tags)

lemma quiet_nix_record:
  "ensures reads (nix_resolve E n tag) (\<lambda>r. \<forall>m. r = Inr m \<longrightarrow> dom m \<subseteq> record_fields)"
proof -
  have "emits (nix_resolve E n tag) (\<lambda>r es. (\<forall>e\<in>set es. reads e) \<and> True)"
    by (rule emits_ensures [OF quiet_nix_resolve])
  with nix_resolve_dom show ?thesis
    unfolding ensures_def emits_def record_fields_def by meson
qed

interpretation nix: release_source "nix_iface E n" for E n
  by unfold_locales (auto simp: nix_iface_def intro!: ensures_bind_any quiet_nix_tags
      quiet_nix_record ensures_return)

lemma source_for_release: "source_for E spec auth = Inr src \<Longrightarrow> release_source src"
  by (auto simp: source_for_def git.release_source_axioms oci.release_source_axioms
      nix.release_source_axioms split: if_splits)

lemma source_for_revisions:
  "source_for E spec auth = Inr src \<Longrightarrow>
    tag_revisions src \<noteq> None \<longleftrightarrow> source_type spec = SourceTypeGit"
  by (auto simp: source_for_def git_iface_def oci_iface_def nix_iface_def SourceTypeGit_def
      SourceTypeOCI_def SourceTypeNix_def split: if_splits)

section \<open>Lemmas\<close>

lemma filter_skipped_set [simp]: "set (filter_skipped tags skipped) = set tags - set skipped"
  by (auto simp: filter_skipped_def)

lemma append_unique_set [simp]: "set (append_unique vs v) = insert v (set vs)"
  by (auto simp: append_unique_def)

lemma append_unique_distinct: "distinct (append_unique vs v) = distinct vs"
  by (auto simp: append_unique_def)

lemma set_owner_repo_dom: "dom out \<subseteq> S \<Longrightarrow> {''owner'', ''repo''} \<subseteq> S \<Longrightarrow> dom (set_owner_repo out path) \<subseteq> S"
  by (auto simp: set_owner_repo_def split: option.split)

definition repo_fields :: "string set" where
  "repo_fields = {''repoURL'', ''host'', ''owner'', ''repo''}"

lemma repo_fields_simps:
  "{''owner'', ''repo''} \<subseteq> repo_fields"
  "dom [''repoURL'' \<mapsto> url] \<subseteq> repo_fields"
  "dom [''repoURL'' \<mapsto> url, ''host'' \<mapsto> h] \<subseteq> repo_fields"
  by (simp_all add: repo_fields_def)

lemma parse_repo_dom: "dom (parse_repo url) \<subseteq> repo_fields"
  unfolding parse_repo_def Let_def
  by (simp only: repo_fields_simps set_owner_repo_dom split: if_split option.split prod.split) simp

lemma base_data_tag [simp]: "base_data m repo ''tag'' = Some (match_tag m)"
proof -
  have "parse_repo repo ''tag'' = None" using parse_repo_dom [of repo] by (auto simp: repo_fields_def)
  then show ?thesis by (simp add: base_data_def map_add_def)
qed

lemma trim_suffix_append: "length p \<le> length r \<Longrightarrow> trim_suffix (a @ r) p = a @ trim_suffix r p"
  by (auto simp: trim_suffix_def has_suffix_def)

section \<open>Properties\<close>

text \<open>
  The revision health check follows the lookups: after a successful lookup that ended at
  time \<open>t\<close> the template data has a non-empty revision, and the check is healthy exactly
  until five minutes after \<open>t\<close>, whatever happened before.
\<close>

theorem rev_health_after_lookup:
  assumes "tag_revisions src = Some revs"
    and "run_state (add_rev E src tag data) w = (Inr d, w')"
  shows "\<exists>n sha. sha \<noteq> '''' \<and> d = data(''rev'' \<mapsto> sha) \<and>
    w_last_rev_success w' = unix_nano (env_now E n) \<and>
    (unix_epoch < env_now E n \<and> env_now E n < unix_epoch + 2 ^ 63 \<longrightarrow>
      (\<forall>now. rev_resolution_health E (w_first_rev_attempt w') (w_last_rev_success w') now = None \<longleftrightarrow>
         now - env_now E n \<le> 5 * minute))"
proof -
  obtain w1 where r: "run_state (do { started \<leftarrow> clock E;
      modify_rev_clock (\<lambda>first. if first = 0 then unix_nano started else first) id }) w = ((), w1)"
    by (cases "run_state (do { started \<leftarrow> clock E;
      modify_rev_clock (\<lambda>first. if first = 0 then unix_nano started else first) id }) w") auto
  obtain res w2 where q: "run_state revs w1 = (res, w2)" by (cases "run_state revs w1")
  from assms(2) r q obtain m where m: "gomap_get m tag \<noteq> ''''" "d = data(''rev'' \<mapsto> gomap_get m tag)"
    and w': "w_last_rev_success w' = unix_nano (env_now E (w_tick w2))"
    by (auto simp: add_rev_def assms(1) clock_def modify_rev_clock_def split: sum.splits if_splits)
  have "rev_resolution_health E f (unix_nano t) now = None \<longleftrightarrow> now - t \<le> 5 * minute"
    if "unix_epoch < t" "t < unix_epoch + 2 ^ 63" for f t now
  proof -
    have nano: "unix_nano t = t - unix_epoch" using that by (simp add: unix_nano_def wrap64_id)
    have lim: "5 * minute < max_duration" "min_duration \<le> 5 * minute"
      by (simp_all add: minute_def second_def max_duration_def min_duration_def)
    have ne: "t - unix_epoch \<noteq> 0" using that(1) by simp
    show ?thesis
      using time_sub_le_iff [OF lim, of now t] ne
      by (auto simp: rev_resolution_health_def nano unix_time_def rev_stale_after_def Let_def)
  qed
  with m w' show ?thesis by metis
qed

text \<open>
  A repository given by an HTTPS URL never yields its host: its scheme is taken for the host
  of a \<^verbatim>\<open>host:path\<close> shorthand, the owner is empty and the repository name is the rest of
  the URL, so the branch for URLs is unreachable for it.
\<close>

theorem parse_repo_https_host:
  "parse_repo (''https://'' @ r) =
    [''repoURL'' \<mapsto> ''https://'' @ r, ''host'' \<mapsto> ''https.com'', ''owner'' \<mapsto> '''',
     ''repo'' \<mapsto> ''/'' @ trim_suffix r ''.git'']"
proof -
  have trim: "trim_suffix (''https://'' @ r) ''.git'' = ''https://'' @ trim_suffix r ''.git''"
  proof (cases "length r < 4")
    case True
    then consider "r = []" | a where "r = [a]" | a b where "r = [a, b]" | a b c where "r = [a, b, c]"
      by (cases r; cases "tl r"; cases "tl (tl r)"; cases "tl (tl (tl r))") auto
    then show ?thesis by cases (simp_all add: trim_suffix_def has_suffix_def)
  next
    case False
    then show ?thesis by (intro trim_suffix_append) simp
  qed
  let ?r = "trim_suffix r ''.git''"
  have raw: "\<not> has_prefix (''https://'' @ ?r) ''git@''"
    "shorthand_colon (''https://'' @ ?r) = Some 5"
    "take 5 (''https://'' @ ?r) = ''https''" "drop (5 + 1) (''https://'' @ ?r) = ''//'' @ ?r"
    by (simp_all add: has_prefix_def shorthand_colon_def contains_def)
  have cut: "str_cut (''//'' @ ?r) ''/'' = Some ('''', ''/'' @ ?r)"
    by (simp add: str_cut_def has_prefix_def)
  have host: "''https'' @ ''.com'' = ''https.com''" by simp
  show ?thesis
    unfolding parse_repo_def Let_def trim raw option.case if_False set_owner_repo_def cut host
    by (simp only: prod.case raw(1) if_False)
qed

section \<open>Witness\<close>

definition demo_git :: git_source where
  "demo_git = \<lparr>gs_repo = ''https://h/o/r'', gs_ssh_key_file = '''', gs_token = '''', gs_known_hosts_file = '''',
     gs_insecure = False\<rparr>"

definition demo_tag_env :: "time \<Rightarrow> env" where
  "demo_tag_env now = demo_env\<lparr>env_now := (\<lambda>n. now), env_ls_remote := (\<lambda>n a u.
     Inr \<lparr>adv_refs = [\<lparr>ref_name = ref_tag_prefix @ ''v1'', ref_hash = ''abc''\<rparr>], adv_peeled = []\<rparr>)\<rparr>"

theorem rev_health_after_lookup_witness:
  "\<exists>w'. snd (run_state (add_rev (demo_tag_env (unix_epoch + 7)) (git_iface (demo_tag_env (unix_epoch + 7)) demo_git)
      ''v1'' Map.empty) initial_world) = w' \<and>
    rev_resolution_health (demo_tag_env (unix_epoch + 7)) (w_first_rev_attempt w') (w_last_rev_success w')
      (unix_epoch + 7 + 5 * minute) = None"
proof -
  let ?E = "demo_tag_env (unix_epoch + 7)"
  have revs: "tag_revisions (git_iface ?E demo_git) = Some (git_tag_revs ?E demo_git)"
    by (simp add: git_iface_def)
  have refs: "tag_revs_from_refs (remote_list default_peeling \<lparr>adv_refs = [\<lparr>ref_name = ref_tag_prefix @ ''v1'',
      ref_hash = ''abc''\<rparr>], adv_peeled = []\<rparr>) ''v1'' = Some ''abc''"
    by code_simp
  have list: "\<exists>m w'. run_state (git_tag_revs ?E demo_git) w = (Inr m, w') \<and> m ''v1'' = Some ''abc''" for w
    by (simp add: git_tag_revs_def list_refs_def source_auth_def demo_git_def ls_remote_def ask_def)
      (simp add: demo_tag_env_def refs)
  obtain w1 where w1: "run_state (modify_rev_clock (\<lambda>first. if first = 0 then unix_nano (env_now ?E 0) else first) id)
      (initial_world\<lparr>w_tick := 1\<rparr>) = ((), w1)" by (simp add: modify_rev_clock_def)
  from list [of w1] obtain m w2 where m: "run_state (git_tag_revs ?E demo_git) w1 = (Inr m, w2)" "m ''v1'' = Some ''abc''"
    by blast
  obtain d w' where run: "run_state (add_rev ?E (git_iface ?E demo_git) ''v1'' Map.empty) initial_world = (Inr d, w')"
    unfolding add_rev_def revs option.case using w1 m
    by (simp add: clock_def gomap_get_def initial_world_def modify_rev_clock_def)
  have now: "env_now ?E n = unix_epoch + 7" for n by (simp add: demo_tag_env_def)
  from rev_health_after_lookup [OF revs run] run now show ?thesis by auto
qed

end
