(* ===== verification/Secrets.thy ===== *)
theory Secrets
  imports Release
begin

text \<open>
  The credentials the controller takes from Kubernetes secrets and from mounted files
  (\<^verbatim>\<open>resolveDockerAuth\<close>, \<^verbatim>\<open>resolveWriteBackCredentials\<close> of
  \<^verbatim>\<open>internal/controller/tagupdater_controller.go\<close>), and the image digest they
  give access to (\<^verbatim>\<open>internal/controller/image_digest.go\<close>).
\<close>

section \<open>Registry credentials\<close>

text \<open>
  The decoding of \<^verbatim>\<open>struct { Auths map[string]struct { Auth, Username, Password } }\<close>: an
  entry is decoded into a fresh struct, a repeated member merges into the same map, and
  \<^verbatim>\<open>null\<close> clears it.
\<close>

fun decode_auth_entries ::
    "(string \<times> json) list \<Rightarrow> (string \<rightharpoonup> decoded) \<Rightarrow> (string \<rightharpoonup> decoded) result" where
  "decode_auth_entries [] auths = Inr auths"
| "decode_auth_entries ((host, j) # js) auths =
     rbind (decode_struct [''auth'', ''username'', ''password''] [] j)
       (\<lambda>entry. decode_auth_entries js (auths(host \<mapsto> entry)))"

fun decode_auths :: "(string \<times> json) list \<Rightarrow> (string \<rightharpoonup> decoded) \<Rightarrow> (string \<rightharpoonup> decoded) result" where
  "decode_auths [] auths = Inr auths"
| "decode_auths ((k, j) # kvs) auths =
     (if field_for [''auths''] k = None then decode_auths kvs auths
      else case j of
        JNull \<Rightarrow> decode_auths kvs Map.empty
      | JObj entries \<Rightarrow> rbind (decode_auth_entries entries auths) (decode_auths kvs)
      | _ \<Rightarrow> Inl json_type_error)"

definition docker_config :: "json \<Rightarrow> (string \<rightharpoonup> decoded) result" where
  "docker_config j =
     (case j of
        JNull \<Rightarrow> Inr Map.empty
      | JObj kvs \<Rightarrow> decode_auths kvs Map.empty
      | _ \<Rightarrow> Inl json_type_error)"

definition registry_host :: "string \<Rightarrow> string" where
  "registry_host repo =
     (let ref = trim_prefix (trim_prefix repo ''https://'') ''http://'' in
      case str_cut ref ''/'' of None \<Rightarrow> ref | Some (host, _) \<Rightarrow> host)"

definition entry_auth :: "decoded \<Rightarrow> string option" where
  "entry_auth entry =
     (if dec_string entry ''auth'' \<noteq> '''' then Some (dec_string entry ''auth'')
      else if dec_string entry ''username'' \<noteq> '''' \<and> dec_string entry ''password'' \<noteq> ''''
      then Some (base64_encode (dec_string entry ''username'' @ '':'' @ dec_string entry ''password''))
      else None)"

definition resolve_docker_auth :: "env \<Rightarrow> string \<Rightarrow> string \<Rightarrow> string \<Rightarrow> string result io" where
  "resolve_docker_auth E namespace secret_name repo = do {
     r \<leftarrow> get_secret E namespace secret_name;
     ret (case r of
       Inl e \<Rightarrow> Inl (Wrapped (''get secret '' @ namespace @ ''/'' @ secret_name) e)
     | Inr secret \<Rightarrow>
         (case secret ''.dockerconfigjson'' of
            None \<Rightarrow> Inl (Errorf (''secret '' @ namespace @ ''/'' @ secret_name @ '' missing .dockerconfigjson key''))
          | Some raw \<Rightarrow>
              (case rbind (lib_json_all E raw) docker_config of
                 Inl e \<Rightarrow> Inl (Wrapped (''parse dockerconfigjson in '' @ namespace @ ''/'' @ secret_name) e)
               | Inr auths \<Rightarrow>
                   (case Option.bind (auths (registry_host repo)) entry_auth of
                      Some auth \<Rightarrow> Inr auth
                    | None \<Rightarrow> Inl (Errorf (''no auth entry for host '' @ go_quote (registry_host repo) @
                        '' in secret '' @ namespace @ ''/'' @ secret_name)))))) }"

section \<open>The image digest of a release\<close>

definition add_image_digest :: "env \<Rightarrow> tag_updater \<Rightarrow> string \<Rightarrow> strmap \<Rightarrow> strmap result io" where
  "add_image_digest E tu tag data =
     (let source = spec_source (updater_spec tu) in
      if \<not> resolve_digest source then ret (Inr data)
      else if source_type source \<noteq> SourceTypeGit
      then ret (Inl (Errorf ''digest resolution requires a git release source''))
      else if digest_repo source = ''''
      then ret (Inl (Errorf ''git digest resolution requires source.digestRepo''))
      else do {
        auth \<leftarrow> (case image_pull_secret_ref source of
                   None \<Rightarrow> ret (Inr '''')
                 | Some secret \<Rightarrow> resolve_docker_auth E (meta_namespace tu) secret (digest_repo source));
        case auth of
          Inl e \<Rightarrow> ret (Inl (Wrapped ''resolve digest registry credentials'' e))
        | Inr authentication \<Rightarrow> do {
            d \<leftarrow> oci_digest E \<lparr>os_repo = digest_repo source, os_basic_auth = authentication,
                   os_auth_realm = digest_auth_realm source\<rparr> tag;
            ret (case d of Inl e \<Rightarrow> Inl e | Inr digest \<Rightarrow> Inr (data(''image_digest'' \<mapsto> digest))) } })"

section \<open>Write-back credentials\<close>

definition secret_credentials :: "strmap \<Rightarrow> credentials" where
  "secret_credentials data =
     \<lparr>cred_token = gomap_get data ''token'', cred_username = gomap_get data ''username'',
      cred_password = gomap_get data ''password'', cred_ssh_key = gomap_get data ''sshPrivateKey'',
      cred_known_hosts = gomap_get data ''knownHosts'',
      cred_insecure = equal_fold (trim_space (gomap_get data ''insecureIgnoreHostKey'')) ''true''\<rparr>"

definition usable_credentials :: "credentials \<Rightarrow> bool" where
  "usable_credentials c \<longleftrightarrow>
     \<not> (cred_token c = '''' \<and> cred_ssh_key c = '''' \<and> (cred_username c = '''' \<or> cred_password c = ''''))"

definition mounted_credentials :: "env \<Rightarrow> credentials result io" where
  "mounted_credentials E =
     (let key_file = trim_space (env_var E ''GIT_SSH_KEY_FILE'');
          known_hosts_file = trim_space (env_var E ''GIT_KNOWN_HOSTS_FILE'') in
      if key_file = '''' \<or> known_hosts_file = '''' then
        ret (Inl (Errorf (''write-back requires credentialsSecretRef or both GIT_SSH_KEY_FILE and '' @
          ''GIT_KNOWN_HOSTS_FILE'')))
      else do {
        key \<leftarrow> do_fs E (ReadFile key_file);
        case key of
          Inl e \<Rightarrow> ret (Inl (Wrapped (''read mounted write-back SSH key '' @ key_file) e))
        | Inr k \<Rightarrow> do {
            hosts \<leftarrow> do_fs E (ReadFile known_hosts_file);
            ret (case hosts of
              Inl e \<Rightarrow> Inl (Wrapped (''read mounted write-back known_hosts '' @ known_hosts_file) e)
            | Inr h \<Rightarrow> Inr \<lparr>cred_token = '''', cred_username = '''', cred_password = '''',
                cred_ssh_key = k, cred_known_hosts = h, cred_insecure = False\<rparr>) } })"

definition resolve_write_back_credentials :: "env \<Rightarrow> tag_updater \<Rightarrow> credentials result io" where
  "resolve_write_back_credentials E tu =
     (let secret_name = wb_secret_name (spec_write_back (updater_spec tu)) in
      if secret_name = '''' then mounted_credentials E
      else do {
        r \<leftarrow> get_secret E (meta_namespace tu) secret_name;
        ret (case r of
          Inl e \<Rightarrow> Inl (Wrapped (''get write-back credentials secret '' @ meta_namespace tu @ ''/'' @ secret_name) e)
        | Inr secret \<Rightarrow>
            (if usable_credentials (secret_credentials secret) then Inr (secret_credentials secret)
             else Inl (Errorf (''write-back credentials secret '' @ meta_namespace tu @ ''/'' @ secret_name @
               '' must contain token, sshPrivateKey, or both username and password'')))) })"

section \<open>Lemmas\<close>

lemma quiet_docker_auth: "ensures reads (resolve_docker_auth E ns s repo) (\<lambda>_. True)"
  unfolding resolve_docker_auth_def by (intro ensures_intro ensures_bind_any TrueI) simp

lemma quiet_write_back_credentials:
  "ensures reads (resolve_write_back_credentials E tu) (\<lambda>_. True)"
  unfolding resolve_write_back_credentials_def mounted_credentials_def
  by (intro ensures_intro ensures_bind_any TrueI) simp_all

text \<open>When digests are resolved, the data holds a valid digest; nothing else changes.\<close>

lemma add_image_digest_frame:
  "ensures reads (add_image_digest E tu tag data) (\<lambda>r. \<forall>d. r = Inr d \<longrightarrow>
     (if resolve_digest (spec_source (updater_spec tu))
      then \<exists>v. valid_digest v \<and> d = data(''image_digest'' \<mapsto> v) else d = data))"
proof -
  have auth: "ensures reads (case image_pull_secret_ref s of None \<Rightarrow> ret (Inr '''')
      | Some secret \<Rightarrow> resolve_docker_auth E ns secret repo) (\<lambda>_. True)" for s ns repo
    by (intro ensures_intro quiet_docker_auth TrueI)
  show ?thesis
    unfolding add_image_digest_def
    by (intro ensures_intro ensures_bind_any [OF auth] ensures_bind [OF quiet_oci_digest])
      (auto split: sum.splits)
qed

section \<open>Properties\<close>

text \<open>
  C36. Registry credentials arrive as they were stored: a credential that is returned comes from
  the entry of the registry's own host in the secret that was asked for, and is that entry's
  encoded form, or else decodes to its user name and password with a colon between them.
\<close>

theorem docker_auth_decodes:
  assumes "run_state (resolve_docker_auth E ns secret_name repo) w = (Inr auth, w')"
  shows "\<exists>secret raw j auths entry. env_secret E (w_tick w) ns secret_name = Inr secret \<and>
    secret ''.dockerconfigjson'' = Some raw \<and> lib_json_all E raw = Inr j \<and> docker_config j = Inr auths \<and>
    auths (registry_host repo) = Some entry \<and>
    (if dec_string entry ''auth'' \<noteq> '''' then auth = dec_string entry ''auth''
     else base64_decode auth = Some (dec_string entry ''username'' @ '':'' @ dec_string entry ''password''))"
proof -
  from assms obtain secret raw j auths entry where found: "env_secret E (w_tick w) ns secret_name = Inr secret"
    "secret ''.dockerconfigjson'' = Some raw" "lib_json_all E raw = Inr j" "docker_config j = Inr auths"
    "auths (registry_host repo) = Some entry" and auth: "entry_auth entry = Some auth"
    by (auto simp: resolve_docker_auth_def get_secret_def ask_def result_iff bind_eq_Some_conv
        split: sum.splits option.splits)
  from auth have "if dec_string entry ''auth'' \<noteq> '''' then auth = dec_string entry ''auth''
      else base64_decode auth = Some (dec_string entry ''username'' @ '':'' @ dec_string entry ''password'')"
    by (auto simp: entry_auth_def base64_decode_encode split: if_splits)
  with found show ?thesis by blast
qed

section \<open>Witness\<close>

definition demo_config :: json where
  "demo_config = JObj [(''auths'', JObj [(''r.example'',
     JObj [(''username'', JStr ''bob''), (''password'', JStr ''pw'')])])]"

theorem docker_auth_decodes_witness:
  "\<exists>auth. fst (run_state (resolve_docker_auth (demo_env\<lparr>env_secret := (\<lambda>n ns nm. Inr [''.dockerconfigjson'' \<mapsto> ''raw'']),
      lib_json_all := (\<lambda>b. Inr demo_config)\<rparr>) ''ns'' ''s'' ''https://r.example/p'') initial_world) = Inr auth \<and>
    base64_decode auth = Some ''bob:pw''"
proof -
  let ?E = "demo_env\<lparr>env_secret := (\<lambda>n ns nm. Inr [''.dockerconfigjson'' \<mapsto> ''raw'']), lib_json_all := (\<lambda>b. Inr demo_config)\<rparr>"
  let ?entry = "\<lparr>dec_strings = [''username'' \<mapsto> ''bob'', ''password'' \<mapsto> ''pw''], dec_list = [], dec_error = None\<rparr>"
  have c: "docker_config demo_config = Inr [''r.example'' \<mapsto> ?entry]"
    by (simp add: docker_config_def demo_config_def decode_struct_def decode_member_def field_for_def Let_def)
  have h: "registry_host ''https://r.example/p'' = ''r.example''" by code_simp
  have e: "entry_auth ?entry = Some (base64_encode ''bob:pw'')"
    by (simp add: entry_auth_def dec_string_def gomap_get_def)
  obtain auth w' where run: "run_state (resolve_docker_auth ?E ''ns'' ''s'' ''https://r.example/p'') initial_world = (Inr auth, w')"
    by (simp add: resolve_docker_auth_def get_secret_def ask_def c h e)
  from docker_auth_decodes [OF run] obtain auths entry where "docker_config demo_config = Inr auths"
    "auths (registry_host ''https://r.example/p'') = Some entry"
    "if dec_string entry ''auth'' \<noteq> '''' then auth = dec_string entry ''auth''
     else base64_decode auth = Some (dec_string entry ''username'' @ '':'' @ dec_string entry ''password'')"
    by auto
  moreover from this c h have "entry = ?entry" by (metis Inr_inject fun_upd_same option.inject)
  ultimately show ?thesis using run by (simp add: dec_string_def gomap_get_def)
qed

end
