(* ===== verification/Argocd.thy ===== *)
theory Argocd
  imports Effects
begin

text \<open>
  What the controller reads from an Argo CD Application (\<^verbatim>\<open>argoCDAppState\<close>,
  \<^verbatim>\<open>deploymentsFrom\<close>, \<^verbatim>\<open>observes\<close> and their helpers in
  \<^verbatim>\<open>internal/controller/tagupdater_controller.go\<close>): the compared revisions, the retained
  rollouts, the health, and from these whether a written commit has been picked up.
\<close>

section \<open>Reading an unstructured object\<close>

text \<open>\<^verbatim>\<open>unstructured.Nested...\<close>: the callers treat "missing" and "of another type" alike.\<close>

fun nested_field :: "json \<Rightarrow> string list \<Rightarrow> json option" where
  "nested_field v [] = Some v"
| "nested_field v (k # ks) =
     (case v of
        JObj kvs \<Rightarrow> (case map_of (rev kvs) k of None \<Rightarrow> None | Some u \<Rightarrow> nested_field u ks)
      | _ \<Rightarrow> None)"

definition nested_string :: "json \<Rightarrow> string list \<Rightarrow> string" where
  "nested_string v path = (case nested_field v path of Some (JStr s) \<Rightarrow> s | _ \<Rightarrow> '''')"

definition json_text :: "json \<Rightarrow> string option" where
  "json_text j = (case j of JStr s \<Rightarrow> Some s | _ \<Rightarrow> None)"

definition nested_strings :: "json \<Rightarrow> string list \<Rightarrow> string list" where
  "nested_strings v path =
     (case nested_field v path of
        Some (JArr js) \<Rightarrow> if list_all (\<lambda>j. json_text j \<noteq> None) js then map (the \<circ> json_text) js else []
      | _ \<Rightarrow> [])"

definition nested_slice :: "json \<Rightarrow> string list \<Rightarrow> json list" where
  "nested_slice v path = (case nested_field v path of Some (JArr js) \<Rightarrow> js | _ \<Rightarrow> [])"

definition nested_map :: "json \<Rightarrow> string list \<Rightarrow> json" where
  "nested_map v path = (case nested_field v path of Some (JObj kvs) \<Rightarrow> JObj kvs | _ \<Rightarrow> JObj [])"

section \<open>The application's state\<close>

record argocd_deployment =
  dep_revisions :: "string list"
  dep_started :: time

record argocd_state =
  app_revision :: string
  app_revisions :: "string list"
  app_deployments :: "argocd_deployment list"
  app_health :: string
  app_operation :: string

definition parse_timestamp :: "env \<Rightarrow> string \<Rightarrow> time" where
  "parse_timestamp E raw =
     (if raw = '''' then 0 else case lib_parse_time E raw of None \<Rightarrow> 0 | Some t \<Rightarrow> t)"

definition revisions_of :: "json \<Rightarrow> string list" where
  "revisions_of entry =
     (let revisions = nested_strings entry [''revisions'']; revision = nested_string entry [''revision'']
      in if revision \<noteq> '''' then revisions @ [revision] else revisions)"

definition history_deployment :: "env \<Rightarrow> json \<Rightarrow> argocd_deployment option" where
  "history_deployment E item =
     (case item of
        JObj kvs \<Rightarrow>
          if revisions_of item = [] then None
          else (let started = nested_string item [''deployStartedAt''];
                    started = (if started = '''' then nested_string item [''deployedAt''] else started)
                in Some \<lparr>dep_revisions = revisions_of item, dep_started = parse_timestamp E started\<rparr>)
      | _ \<Rightarrow> None)"

definition current_deployment :: "env \<Rightarrow> json \<Rightarrow> argocd_deployment list" where
  "current_deployment E app =
     (if nested_string app [''status'', ''operationState'', ''phase''] = ''Succeeded'' then
        (let revs = revisions_of (nested_map app [''status'', ''operationState'', ''syncResult'']) in
         if revs = [] then []
         else [\<lparr>dep_revisions = revs, dep_started =
                  parse_timestamp E (nested_string app [''status'', ''operationState'', ''startedAt''])\<rparr>])
      else [])"

definition deployments_from :: "env \<Rightarrow> json \<Rightarrow> argocd_deployment list" where
  "deployments_from E app =
     List.map_filter (history_deployment E) (nested_slice app [''status'', ''history'']) @
     current_deployment E app"

definition read_app :: "env \<Rightarrow> json \<Rightarrow> argocd_state" where
  "read_app E app =
     \<lparr>app_revision = nested_string app [''status'', ''sync'', ''revision''],
      app_revisions = nested_strings app [''status'', ''sync'', ''revisions''],
      app_deployments = deployments_from E app,
      app_health = nested_string app [''status'', ''health'', ''status''],
      app_operation = nested_string app [''status'', ''operationState'', ''phase'']\<rparr>"

definition app_location :: "argocd_app_ref \<Rightarrow> string" where
  "app_location ref = (if app_namespace ref = '''' then ''argocd'' else app_namespace ref)"

definition argocd_app_state :: "env \<Rightarrow> argocd_app_ref option \<Rightarrow> argocd_state result io" where
  "argocd_app_state E ref =
     (case ref of
        None \<Rightarrow> ret (Inl (Errorf ''rollback requires spec.argoCDApp and a dynamic client''))
      | Some a \<Rightarrow>
          if \<not> env_dynamic E
          then ret (Inl (Errorf ''rollback requires spec.argoCDApp and a dynamic client''))
          else do {
            r \<leftarrow> ask (\<lambda>n. env_app E n (app_location a) (app_name a)) (EvGetApp (app_location a) (app_name a));
            ret (case r of
              Inl e \<Rightarrow> Inl (Wrapped (''get application '' @ app_location a @ ''/'' @ app_name a) e)
            | Inr app \<Rightarrow> Inr (read_app E app)) })"

definition sync_in_flight :: "argocd_state \<Rightarrow> bool" where
  "sync_in_flight s \<longleftrightarrow> app_operation s = ''Running'' \<or> app_operation s = ''Terminating''"

definition observes :: "argocd_state \<Rightarrow> string \<Rightarrow> time option \<Rightarrow> bool" where
  "observes s commit pushed_at =
     (if commit = '''' then False
      else if app_revision s = commit then True
      else if \<exists>r\<in>set (app_revisions s). r = commit then True
      else if \<exists>d\<in>set (app_deployments s). \<exists>r\<in>set (dep_revisions d). r = commit then True
      else case pushed_at of
        None \<Rightarrow> False
      | Some t \<Rightarrow> \<exists>d\<in>set (app_deployments s). t < dep_started d)"

lemma ensures_argocd_app_state [ensures_intro]:
  "(\<And>ns n r. P (EvGetApp ns n r)) \<Longrightarrow> ensures P (argocd_app_state E ref) (\<lambda>_. True)"
  unfolding argocd_app_state_def by (intro ensures_intro ensures_bind_any ensures_ask) auto

section \<open>Properties\<close>

definition app_names :: "argocd_state \<Rightarrow> string set" where
  "app_names s = insert (app_revision s) (set (app_revisions s)) \<union>
     (\<Union>d\<in>set (app_deployments s). set (dep_revisions d))"

text \<open>
  A commit counts as observed exactly when the application names it, as the compared head or
  in a retained rollout, or a rollout started after the push; without a recorded push time
  only a name counts, and the empty commit is never observed.
\<close>

theorem observes_iff:
  "observes s commit pushed_at \<longleftrightarrow>
    commit \<noteq> '''' \<and> (commit \<in> app_names s \<or>
      (\<exists>t d. pushed_at = Some t \<and> d \<in> set (app_deployments s) \<and> t < dep_started d))"
  by (auto simp: observes_def app_names_def split: option.splits)

definition parses_less :: "env \<Rightarrow> env \<Rightarrow> bool" where
  "parses_less E' E \<longleftrightarrow> (\<forall>s. lib_parse_time E' s = None \<or> lib_parse_time E' s = lib_parse_time E s)"

lemma map_filter_pairwise:
  assumes "\<And>x y'. f x = Some y' \<Longrightarrow> \<exists>y. g x = Some y \<and> R y' y" and "y' \<in> set (List.map_filter f xs)"
  shows "\<exists>y\<in>set (List.map_filter g xs). R y' y"
  using assms(2)
proof (induction xs)
  case Nil
  then show ?case by (simp add: List.map_filter_simps)
next
  case (Cons x xs)
  then show ?case
    using assms(1) [of x] by (auto simp: List.map_filter_simps split: option.splits)
qed

definition started_below :: "argocd_deployment \<Rightarrow> argocd_deployment \<Rightarrow> bool" where
  "started_below d' d \<longleftrightarrow>
     dep_revisions d = dep_revisions d' \<and> (dep_started d' = 0 \<or> dep_started d' = dep_started d)"

lemma deployments_parse_less:
  assumes "parses_less E' E" and "d' \<in> set (deployments_from E' app)"
  shows "\<exists>d\<in>set (deployments_from E app). started_below d' d"
proof -
  have ts: "parse_timestamp E' r = 0 \<or> parse_timestamp E' r = parse_timestamp E r" for r
  proof -
    have "lib_parse_time E' r = None \<or> lib_parse_time E' r = lib_parse_time E r"
      using assms(1) unfolding parses_less_def by blast
    then show ?thesis by (auto simp: parse_timestamp_def)
  qed
  have h: "\<exists>y. history_deployment E x = Some y \<and> started_below y' y" if "history_deployment E' x = Some y'" for x y'
    using that ts [of "nested_string x [''deployStartedAt'']"] ts [of "nested_string x [''deployedAt'']"]
    by (auto simp: history_deployment_def started_below_def Let_def split: json.splits if_splits)
  have c: "\<exists>d\<in>set (current_deployment E app). started_below d' d" if "d' \<in> set (current_deployment E' app)"
    using that ts [of "nested_string app [''status'', ''operationState'', ''startedAt'']"]
    by (auto simp: current_deployment_def started_below_def Let_def split: if_splits)
  from assms(2) show ?thesis
    unfolding deployments_from_def
    using map_filter_pairwise [where f = "history_deployment E'" and R = started_below
        and g = "history_deployment E" and y' = d', OF h] c by auto
qed

text \<open>
  Unreadable timestamps are on the safe side: an application whose timestamps parse less
  often is observed to carry a commit only if it is with all of them parsed (for any push
  after the zero time).
\<close>

theorem unparsed_timestamps_are_stricter:
  assumes "parses_less E' E" and "observes (read_app E' app) commit pushed_at"
    and "\<And>t. pushed_at = Some t \<Longrightarrow> 0 \<le> t"
  shows "observes (read_app E app) commit pushed_at"
proof -
  have "commit \<noteq> ''''" using assms(2) by (simp add: observes_iff)
  consider "commit \<in> app_names (read_app E' app)"
    | t d' where "pushed_at = Some t" "d' \<in> set (deployments_from E' app)" "t < dep_started d'"
    using assms(2) by (auto simp: observes_iff read_app_def)
  then show ?thesis
  proof cases
    case 1
    then have "commit \<in> app_names (read_app E app)"
      using deployments_parse_less [OF assms(1)]
      by (auto simp: app_names_def read_app_def started_below_def) metis
    with \<open>commit \<noteq> ''''\<close> show ?thesis by (simp add: observes_iff)
  next
    case 2
    from deployments_parse_less [OF assms(1) 2(2)] obtain d where
      "d \<in> set (deployments_from E app)" "started_below d' d" by blast
    with 2 assms(3) [OF 2(1)] \<open>commit \<noteq> ''''\<close> show ?thesis
      by (auto simp: observes_iff read_app_def started_below_def)
  qed
qed

section \<open>Witness\<close>

definition demo_app :: "string \<Rightarrow> string \<Rightarrow> json" where
  "demo_app commit health = JObj [(''status'', JObj
     [(''sync'', JObj [(''revision'', JStr ''head'')]), (''health'', JObj [(''status'', JStr health)]),
      (''history'', JArr [JObj [(''revision'', JStr commit), (''deployedAt'', JStr ''T1'')]])])]"

theorem unparsed_timestamps_are_stricter_witness:
  "observes (read_app (demo_env\<lparr>lib_parse_time := (\<lambda>s. Some 7)\<rparr>) (demo_app ''abc'' ''Healthy'')) ''abc'' (Some 5)"
proof (rule unparsed_timestamps_are_stricter)
  show "parses_less demo_env (demo_env\<lparr>lib_parse_time := (\<lambda>s. Some 7)\<rparr>)"
    by (simp add: parses_less_def demo_env_def)
  show "observes (read_app demo_env (demo_app ''abc'' ''Healthy'')) ''abc'' (Some 5)"
    by (simp add: observes_def read_app_def demo_app_def nested_string_def nested_strings_def
        deployments_from_def nested_slice_def history_deployment_def revisions_of_def
        List.map_filter_simps Let_def)
  show "0 \<le> t" if "Some 5 = Some t" for t :: time using that by simp
qed

end
