(* ===== verification/Temp_Dir.thy ===== *)
theory Temp_Dir
  imports Effects Paths
begin

text \<open>
  \<^verbatim>\<open>internal/writeback/temp.go\<close>: the private directory that holds the clones, its lock, and
  the removal of clones that an interrupted process left behind.
\<close>

section \<open>The directory\<close>

definition writeback_temp_dir_name :: string where "writeback_temp_dir_name = ''argocd-tag-updater''"
definition writeback_clone_prefix :: string where "writeback_clone_prefix = ''clone-''"
definition writeback_lock_name :: string where "writeback_lock_name = ''.writeback.lock''"

text \<open>File modes \<^verbatim>\<open>0700\<close> and \<^verbatim>\<open>0600\<close>.\<close>

definition mode_700 :: nat where "mode_700 = 448"
definition mode_600 :: nat where "mode_600 = 384"

definition temp_root :: "env \<Rightarrow> string" where
  "temp_root E = join_path (env_temp_dir E) writeback_temp_dir_name"

definition check_temp_root :: "env \<Rightarrow> string \<Rightarrow> file_status \<Rightarrow> string result" where
  "check_temp_root E root st =
     (if file_type st \<noteq> Directory
      then Inl (Errorf (''write-back temp root '' @ root @ '' is not a real directory''))
      else if file_uid st \<noteq> env_euid E
      then Inl (Errorf (''write-back temp root '' @ root @ '' is owned by another uid''))
      else if file_mode st \<noteq> mode_700
      then Inl (Errorf (''write-back temp root '' @ root @ '' must be owner-only mode 0700''))
      else Inr root)"

definition ensure_temp_dir :: "env \<Rightarrow> string result io" where
  "ensure_temp_dir E = (let root = temp_root E in do {
     m \<leftarrow> do_fs E (Mkdir root mode_700);
     case m of
       Inl e \<Rightarrow>
         if \<not> errors_is e FileExists
         then ret (Inl (Wrapped (''create write-back temp root '' @ root) e))
         else do {
           st \<leftarrow> do_stat E (Lstat root);
           ret (case st of
             Inl e \<Rightarrow> Inl (Wrapped (''inspect write-back temp root '' @ root) e)
           | Inr s \<Rightarrow> check_temp_root E root s) }
     | Inr _ \<Rightarrow> do {
           st \<leftarrow> do_stat E (Lstat root);
           ret (case st of
             Inl e \<Rightarrow> Inl (Wrapped (''inspect write-back temp root '' @ root) e)
           | Inr s \<Rightarrow> check_temp_root E root s) } })"

definition new_clone_directory :: "env \<Rightarrow> string result io" where
  "new_clone_directory E = do {
     root \<leftarrow> ensure_temp_dir E;
     case root of
       Inl e \<Rightarrow> ret (Inl e)
     | Inr root \<Rightarrow> do {
         d \<leftarrow> do_fs E (MkdirTemp root writeback_clone_prefix);
         ret (wrap_err ''create write-back clone directory'' d) } }"

section \<open>The lock\<close>

text \<open>The result is the descriptor that holds the lock.\<close>

definition lock_temp_dir :: "env \<Rightarrow> string \<Rightarrow> string result io" where
  "lock_temp_dir E root = (let path = join_path root writeback_lock_name in do {
     d \<leftarrow> do_fs E (OpenLock path);
     case d of
       Inl e \<Rightarrow> ret (Inl (Wrapped (''open write-back temp lock '' @ path) e))
     | Inr fd \<Rightarrow> do {
         st \<leftarrow> do_stat E (Fstat fd);
         case st of
           Inl e \<Rightarrow> do {
             _ \<leftarrow> do_fs E (CloseFd fd);
             ret (Inl (Wrapped (''inspect write-back temp lock '' @ path) e)) }
         | Inr s \<Rightarrow>
             if file_type s \<noteq> RegularFile \<or> file_uid s \<noteq> env_euid E \<or> file_mode s \<noteq> mode_600
             then do {
               _ \<leftarrow> do_fs E (CloseFd fd);
               ret (Inl (Errorf (''write-back temp lock '' @ path @
                 '' must be a current-user regular file with owner-only permissions''))) }
             else do {
               l \<leftarrow> do_fs E (Flock fd);
               case l of
                 Inl e \<Rightarrow> do {
                   _ \<leftarrow> do_fs E (CloseFd fd);
                   ret (Inl (Wrapped (''lock write-back temp root '' @ root) e)) }
               | Inr _ \<Rightarrow> ret (Inr fd) } } })"

text \<open>The release closure runs once; the flag is the state of its \<^verbatim>\<open>sync.Once\<close>.\<close>

definition release_lock :: "env \<Rightarrow> string \<Rightarrow> bool \<Rightarrow> bool io" where
  "release_lock E fd released =
     (if released then ret True
      else do { _ \<leftarrow> do_fs E (Funlock fd); _ \<leftarrow> do_fs E (CloseFd fd); ret True })"

section \<open>Interrupted clones\<close>

fun remove_candidates :: "env \<Rightarrow> string \<Rightarrow> string list \<Rightarrow> unit result io" where
  "remove_candidates E root [] = ret (Inr ())"
| "remove_candidates E root (name # names) =
     (if \<not> has_prefix name writeback_clone_prefix then remove_candidates E root names
      else let candidate = join_path root name in do {
        st \<leftarrow> do_stat E (Lstat candidate);
        case st of
          Inl e \<Rightarrow>
            if errors_is e FileNotExist then remove_candidates E root names
            else ret (Inl (Wrapped (''inspect candidate '' @ candidate) e))
        | Inr s \<Rightarrow>
            if file_type s \<noteq> Directory \<or> file_uid s \<noteq> env_euid E
            then remove_candidates E root names
            else do {
              r \<leftarrow> do_fs E (RemoveAll candidate);
              case r of
                Inl e \<Rightarrow> ret (Inl (Wrapped (''remove candidate '' @ candidate) e))
              | Inr _ \<Rightarrow> remove_candidates E root names } })"

definition remove_interrupted_clones :: "env \<Rightarrow> string \<Rightarrow> unit result io" where
  "remove_interrupted_clones E root = do {
     entries \<leftarrow> ask (\<lambda>n. env_readdir E n root) (EvReadDir root);
     case entries of
       Inl e \<Rightarrow> ret (Inl (Wrapped (''read write-back temp root '' @ root) e))
     | Inr names \<Rightarrow> remove_candidates E root names }"

definition prepare_temp_dir :: "env \<Rightarrow> string result io" where
  "prepare_temp_dir E = do {
     root \<leftarrow> ensure_temp_dir E;
     case root of
       Inl e \<Rightarrow> ret (Inl e)
     | Inr root \<Rightarrow> do {
         fd \<leftarrow> lock_temp_dir E root;
         case fd of
           Inl e \<Rightarrow> ret (Inl e)
         | Inr fd \<Rightarrow> do {
             r \<leftarrow> remove_interrupted_clones E root;
             case r of
               Inl e \<Rightarrow> do {
                 _ \<leftarrow> release_lock E fd False;
                 ret (Inl (Wrapped ''remove interrupted write-back clones'' e)) }
             | Inr _ \<Rightarrow> ret (Inr fd) } } }"

section \<open>Lemmas\<close>

text \<open>
  A removal concerns one of our own interrupted clones: an entry that was listed in the root,
  with the clone prefix, and that was inspected at once before and is a directory of our own.
\<close>

definition own_clone :: "env \<Rightarrow> string \<Rightarrow> event list \<Rightarrow> bool" where
  "own_clone E p before \<longleftrightarrow>
     (\<exists>name names s rest. before = EvStat (Lstat p) (Inr s) # rest \<and>
        file_type s = Directory \<and> file_uid s = env_euid E \<and>
        EvReadDir (temp_root E) (Inr names) \<in> set rest \<and> name \<in> set names \<and>
        has_prefix name writeback_clone_prefix \<and> p = join_path (temp_root E) name)"

fun safe_history :: "env \<Rightarrow> event list \<Rightarrow> bool" where
  "safe_history E [] = True"
| "safe_history E (EvFs (RemoveAll p) r # es) = (own_clone E p es \<and> safe_history E es)"
| "safe_history E (_ # es) = safe_history E es"

definition no_removal :: "event \<Rightarrow> bool" where
  "no_removal e \<longleftrightarrow> (\<forall>p r. e \<noteq> EvFs (RemoveAll p) r)"

lemma no_removal_history: "no_removal e \<Longrightarrow> safe_history E (e # es) = safe_history E es"
  by (cases "(E, e # es)" rule: safe_history.cases) (auto simp: no_removal_def)

lemma no_removals_history: "\<forall>e\<in>set new. no_removal e \<Longrightarrow> safe_history E (new @ es) = safe_history E es"
  by (induction new) (auto simp: no_removal_history)

lemma ensure_temp_dir_quiet:
  "ensures (\<lambda>e. reads e \<and> no_removal e) (ensure_temp_dir E) (\<lambda>r. \<forall>root. r = Inr root \<longrightarrow> root = temp_root E)"
  unfolding ensure_temp_dir_def
  by (intro ensures_intro ensures_bind_any)
    (auto simp: no_removal_def check_temp_root_def split: sum.splits)

lemma lock_temp_dir_quiet: "ensures no_removal (lock_temp_dir E root) (\<lambda>_. True)"
  unfolding lock_temp_dir_def by (intro ensures_intro ensures_bind_any) (auto simp: no_removal_def)

lemma new_clone_directory_quiet:
  "ensures (\<lambda>e. reads e \<and> no_removal e) (new_clone_directory E) (\<lambda>_. True)"
  unfolding new_clone_directory_def
  by (intro ensures_bind [OF ensure_temp_dir_quiet] ensures_intro ensures_bind_any) (auto simp: no_removal_def)

lemma release_lock_quiet: "ensures no_removal (release_lock E fd b) (\<lambda>_. True)"
  unfolding release_lock_def by (intro ensures_intro ensures_bind_any) (auto simp: no_removal_def)

lemma safe_history_at: "safe_history E (later @ EvFs (RemoveAll p) r # before) \<Longrightarrow> own_clone E p before"
proof (induction later)
  case (Cons e later)
  then show ?case by (cases "(E, e # later @ EvFs (RemoveAll p) r # before)" rule: safe_history.cases) auto
qed simp

lemma emits_no_removal:
  "ensures no_removal m Q \<Longrightarrow> safe_history E es \<Longrightarrow> emits m (\<lambda>x new. safe_history E (new @ es) \<and> Q x)"
  by (rule emits_weaken [OF emits_ensures]) (auto simp: no_removals_history)

lemma emits_remove_candidates:
  assumes "EvReadDir (temp_root E) (Inr listed) \<in> set es" and "safe_history E es" and "set names \<subseteq> set listed"
  shows "emits (remove_candidates E (temp_root E) names) (\<lambda>_ new. safe_history E (new @ es))"
  using assms
proof (induction names arbitrary: es)
  case Nil
  then show ?case by (simp add: emits_return)
next
  case (Cons name names)
  have next_one: "emits (remove_candidates E (temp_root E) names) (\<lambda>_ new. safe_history E (new @ x # es))"
    if "safe_history E (x # es)" for x
    by (rule Cons.IH) (use Cons.prems that in auto)
  have after: "emits (remove_candidates E (temp_root E) names) (\<lambda>_ new. safe_history E (new @ x # y # es))"
    if "safe_history E (x # y # es)" for x y
    by (rule Cons.IH) (use Cons.prems that in auto)
  have own: "own_clone E (join_path (temp_root E) name) (EvStat (Lstat (join_path (temp_root E) name)) (Inr s) # es)"
    if "has_prefix name writeback_clone_prefix" "file_type s = Directory" "file_uid s = env_euid E" for s
    unfolding own_clone_def using Cons.prems that by auto
  show ?case
    unfolding remove_candidates.simps Let_def
    using Cons.prems by (intro emits_intro) (auto intro!: next_one after Cons.IH own)
qed

lemma emits_prepare_safe: "emits (prepare_temp_dir E) (\<lambda>_ es. safe_history E es)"
proof -
  have root: "ensures no_removal (ensure_temp_dir E) (\<lambda>r. \<forall>root. r = Inr root \<longrightarrow> root = temp_root E)"
    by (rule ensures_weaken [OF ensure_temp_dir_quiet]) auto
  have clones: "emits (remove_interrupted_clones E (temp_root E)) (\<lambda>_ new. safe_history E (new @ es))"
    if "safe_history E es" for es
    unfolding remove_interrupted_clones_def
    by (intro emits_bind_ask emits_cases) (use that in \<open>auto intro!: emits_return emits_remove_candidates\<close>)
  have release: "emits (release_lock E fd b) (\<lambda>_ new. safe_history E (new @ es))" if "safe_history E es" for fd b es
    by (rule emits_weaken [OF emits_no_removal [OF release_lock_quiet that]]) simp
  have lock: "emits (lock_temp_dir E rt) (\<lambda>_ new. safe_history E (new @ es))" if "safe_history E es" for rt es
    by (rule emits_weaken [OF emits_no_removal [OF lock_temp_dir_quiet that]]) simp
  show ?thesis
    unfolding prepare_temp_dir_def
    apply (rule emits_bind [OF emits_no_removal [OF root, of E "[]"]], simp)
    apply (intro emits_cases emits_return, simp)
    apply clarsimp
    apply (rule emits_bind [OF lock], assumption)
    apply (intro emits_cases emits_return, simp)
    subgoal for es1 l es2 fd
      by (rule emits_bind [OF clones [of "es2 @ es1"]], simp,
          intro emits_cases emits_return emits_bind [OF release]) simp_all
    done
qed

section \<open>Properties\<close>

text \<open>
  C31. Startup cleanup deletes nothing else: whatever the directory holds and however it fails,
  every path that is removed is an entry that was listed in the private root, directly below it,
  its name starts with the clone prefix, and it was found just before to be a real directory of
  the current user. (A directory entry is assumed to have no slash in its name.)
\<close>

theorem prepare_removes_only_own_clones:
  assumes "run_state (prepare_temp_dir E) w = (r, w')"
    and "w_trace w' = later @ EvFs (RemoveAll p) x # before @ w_trace w"
    and "\<And>names name. EvReadDir (temp_root E) (Inr names) \<in> set before \<Longrightarrow> name \<in> set names \<Longrightarrow> CHR ''/'' \<notin> set name"
  shows "\<exists>name names s rest. p = temp_root E @ ''/'' @ name \<and> has_prefix name writeback_clone_prefix \<and>
    before = EvStat (Lstat p) (Inr s) # rest \<and> file_type s = Directory \<and> file_uid s = env_euid E \<and>
    EvReadDir (temp_root E) (Inr names) \<in> set rest \<and> name \<in> set names"
proof -
  from emits_run [OF emits_prepare_safe assms(1)] assms(2)
  have "safe_history E (later @ EvFs (RemoveAll p) x # before)" by auto
  from safe_history_at [OF this] obtain name names s rest where
    own: "before = EvStat (Lstat p) (Inr s) # rest" "file_type s = Directory" "file_uid s = env_euid E"
      "EvReadDir (temp_root E) (Inr names) \<in> set rest" "name \<in> set names"
      "has_prefix name writeback_clone_prefix" "p = join_path (temp_root E) name"
    by (auto simp: own_clone_def)
  have "plain name" using own(6) assms(3) [of names name] own(1,4,5) by (auto simp: plain_def has_prefix_iff writeback_clone_prefix_def)
  moreover have "plain writeback_temp_dir_name" by (simp add: plain_def writeback_temp_dir_name_def)
  ultimately have "p = temp_root E @ ''/'' @ name" unfolding own(7) temp_root_def by (intro join_path_child)
  with own show ?thesis by blast
qed

text \<open>
  The lock is held through a descriptor: it was taken, and afterwards neither released nor lost
  by closing the descriptor. (A failed attempt to take it again changes nothing.)
\<close>

fun lock_held :: "string \<Rightarrow> event list \<Rightarrow> bool" where
  "lock_held fd [] = False"
| "lock_held fd (EvFs (Flock f) r # es) = (f = fd \<and> (\<exists>a. r = Inr a) \<or> lock_held fd es)"
| "lock_held fd (EvFs (Funlock f) r # es) = (f \<noteq> fd \<and> lock_held fd es)"
| "lock_held fd (EvFs (CloseFd f) r # es) = (f \<noteq> fd \<and> lock_held fd es)"
| "lock_held fd (_ # es) = lock_held fd es"

lemma lock_held_parts:
  "lock_held fd (xs @ ys) \<Longrightarrow> lock_held fd xs \<or> lock_held fd ys"
  "lock_held fd xs \<Longrightarrow> lock_held fd (xs @ ys)"
  by (induction fd xs rule: lock_held.induct) auto

definition holds_lock :: "env \<Rightarrow> string \<Rightarrow> event list \<Rightarrow> bool" where
  "holds_lock E fd es \<longleftrightarrow> lock_held fd es \<and>
     (\<exists>s. EvStat (Fstat fd) (Inr s) \<in> set es \<and> file_type s = RegularFile \<and>
        file_uid s = env_euid E \<and> file_mode s = mode_600)"

text \<open>A call that leaves the locks alone.\<close>

definition lock_free :: "event \<Rightarrow> bool" where
  "lock_free e \<longleftrightarrow> (\<forall>fd r. e \<noteq> EvFs (Flock fd) r \<and> e \<noteq> EvFs (Funlock fd) r \<and> e \<noteq> EvFs (CloseFd fd) r)"

lemma lock_held_append: "\<forall>e\<in>set new. lock_free e \<Longrightarrow> lock_held fd (new @ es) = lock_held fd es"
proof (induction new)
  case (Cons e new)
  then show ?case
    by (cases "(fd, e # new @ es)" rule: lock_held.cases) (auto simp: lock_free_def)
qed simp

lemma emits_lock_temp_dir:
  "emits (lock_temp_dir E root) (\<lambda>l es.
     (\<forall>fd. l = Inr fd \<longrightarrow> holds_lock E fd es \<and> (\<forall>g. lock_held g es \<longrightarrow> g = fd)) \<and>
     (\<forall>e fd. l = Inl e \<longrightarrow> \<not> lock_held fd es) \<and> (\<forall>fd a. EvFs (Flock fd) (Inr a) \<in> set es \<longrightarrow> l = Inr fd))"
  unfolding lock_temp_dir_def Let_def
  by (intro emits_intro) (auto simp: holds_lock_def)

lemma ensure_temp_dir_lock_free: "ensures lock_free (ensure_temp_dir E) (\<lambda>_. True)"
  unfolding ensure_temp_dir_def by (intro ensures_intro ensures_bind_any) (auto simp: lock_free_def)

lemma remove_candidates_lock_free: "ensures lock_free (remove_candidates E root names) (\<lambda>_. True)"
proof (induction names)
  case Nil
  then show ?case by (simp add: ensures_intro)
next
  case (Cons name names)
  show ?case
    unfolding remove_candidates.simps
    by (intro ensures_intro ensures_bind_any Cons.IH) (auto simp: lock_free_def)
qed

lemma remove_interrupted_clones_lock_free:
  "ensures lock_free (remove_interrupted_clones E root) (\<lambda>_. True)"
  unfolding remove_interrupted_clones_def
  by (intro ensures_intro ensures_bind_any ensures_ask remove_candidates_lock_free) (auto simp: lock_free_def)

lemma lock_free_flock: "\<forall>e\<in>set es. lock_free e \<Longrightarrow> EvFs (Flock fd) r \<notin> set es"
  by (auto simp: lock_free_def)

lemma lock_free_held: "\<forall>e\<in>set es. lock_free e \<Longrightarrow> \<not> lock_held fd es"
  using lock_held_append [of es fd "[]"] by simp

lemma holds_lock_append:
  "holds_lock E fd es \<Longrightarrow> \<forall>e\<in>set new. lock_free e \<Longrightarrow> holds_lock E fd (new @ es)"
  by (auto simp: holds_lock_def lock_held_append)

lemma emits_bind_release:
  "(\<And>a b. emits m (\<lambda>y new. Q y (new @ [EvFs (CloseFd fd) a, EvFs (Funlock fd) b]))) \<Longrightarrow>
    emits (release_lock E fd False \<bind> (\<lambda>_. m)) Q"
  unfolding release_lock_def by (simp, intro emits_intro, simp)

lemma emits_prepare_lock:
  "emits (prepare_temp_dir E) (\<lambda>r es. (\<forall>fd. r = Inr fd \<longrightarrow> holds_lock E fd es) \<and>
    (\<forall>e fd. r = Inl e \<longrightarrow> \<not> lock_held fd es) \<and>
    (\<forall>e fd a. r = Inl e \<and> EvFs (Flock fd) (Inr a) \<in> set es \<longrightarrow>
       (\<exists>b. EvFs (Funlock fd) b \<in> set es) \<and> (\<exists>b. EvFs (CloseFd fd) b \<in> set es)))"
  unfolding prepare_temp_dir_def
  apply (rule emits_bind [OF emits_ensures [OF ensure_temp_dir_lock_free]])
  apply (intro emits_cases emits_return)
   apply (auto simp: lock_free_held dest: lock_free_flock)[1]
  apply (rule emits_bind [OF emits_lock_temp_dir])
  apply (intro emits_cases emits_return)
  subgoal by (auto simp: lock_free_held dest: lock_free_flock lock_held_parts(1))
  apply (rule emits_bind [OF emits_ensures [OF remove_interrupted_clones_lock_free]])
  apply (intro emits_cases emits_return emits_bind_release)
  subgoal by (auto simp: lock_held_append lock_free_held dest: lock_free_flock dest!: lock_held_parts(1))
  subgoal by (auto simp: holds_lock_append holds_lock_def lock_held_append intro: lock_held_parts(2))
  done

text \<open>
  C32. The startup lock: preparation succeeds only with the lock still held when it returns, on a
  lock file that is a regular file of the current user with mode 0600; when anything fails, no
  lock is held, and one that was taken has been released and its file closed.
\<close>

theorem prepare_lock_discipline:
  assumes "run_state (prepare_temp_dir E) w = (r, w')"
  shows "\<exists>es. w_trace w' = es @ w_trace w \<and>
    (\<forall>fd. r = Inr fd \<longrightarrow> holds_lock E fd es) \<and>
    (\<forall>e fd. r = Inl e \<longrightarrow> \<not> lock_held fd es) \<and>
    (\<forall>e fd a. r = Inl e \<and> EvFs (Flock fd) (Inr a) \<in> set es \<longrightarrow>
       (\<exists>b. EvFs (Funlock fd) b \<in> set es) \<and> (\<exists>b. EvFs (CloseFd fd) b \<in> set es))"
  by (rule emits_run [OF emits_prepare_lock assms])

section \<open>Witnesses\<close>

definition demo_dir_stat :: "nat \<Rightarrow> stat_call \<Rightarrow> file_status result" where
  "demo_dir_stat n c = (case c of
     Lstat p \<Rightarrow> Inr \<lparr>file_type = Directory, file_uid = 0, file_mode = mode_700\<rparr>
   | Fstat fd \<Rightarrow> Inr \<lparr>file_type = RegularFile, file_uid = 0, file_mode = mode_600\<rparr>)"

definition demo_temp_env :: env where
  "demo_temp_env = demo_env\<lparr>env_stat := demo_dir_stat,
     env_readdir := (\<lambda>n d. Inr [''clone-1'', ''other''])\<rparr>"

lemma demo_prepare:
  "fst (run_state (prepare_temp_dir demo_temp_env) initial_world) = Inr ''k''"
  "set (w_trace (snd (run_state (prepare_temp_dir demo_temp_env) initial_world))) \<supseteq>
    {EvFs (RemoveAll (join_path (temp_root demo_temp_env) ''clone-1'')) (Inr ''k'')}"
  by (simp_all add: prepare_temp_dir_def ensure_temp_dir_def lock_temp_dir_def
      remove_interrupted_clones_def Let_def do_fs_def do_stat_def ask_def demo_temp_env_def
      demo_env_def demo_dir_stat_def check_temp_root_def initial_world_def has_prefix_def
      writeback_clone_prefix_def temp_root_def)

lemma demo_prepare_trace:
  "\<exists>x before. w_trace (snd (run_state (prepare_temp_dir demo_temp_env) initial_world)) =
      EvFs (RemoveAll (join_path (temp_root demo_temp_env) ''clone-1'')) x # before \<and>
    (\<forall>d names. EvReadDir d (Inr names) \<in> set before \<longrightarrow> names = [''clone-1'', ''other''])"
  by (simp add: prepare_temp_dir_def ensure_temp_dir_def lock_temp_dir_def
      remove_interrupted_clones_def Let_def do_fs_def do_stat_def ask_def demo_temp_env_def
      demo_env_def demo_dir_stat_def check_temp_root_def initial_world_def has_prefix_def
      writeback_clone_prefix_def temp_root_def)

theorem prepare_removes_only_own_clones_witness:
  "\<exists>p x before name. w_trace (snd (run_state (prepare_temp_dir demo_temp_env) initial_world)) =
      EvFs (RemoveAll p) x # before \<and> p = temp_root demo_temp_env @ ''/'' @ name \<and>
      has_prefix name ''clone-'' \<and> name \<in> {''clone-1'', ''other''}"
proof -
  obtain r w' where run: "run_state (prepare_temp_dir demo_temp_env) initial_world = (r, w')"
    by (cases "run_state (prepare_temp_dir demo_temp_env) initial_world")
  with demo_prepare_trace obtain p x before where t: "w_trace w' = [] @ EvFs (RemoveAll p) x # before @ w_trace initial_world"
    and names: "\<And>d names. EvReadDir d (Inr names) \<in> set before \<Longrightarrow> names = [''clone-1'', ''other'']"
    by (auto simp: initial_world_def)
  have slash: "CHR ''/'' \<notin> set name" if "EvReadDir (temp_root demo_temp_env) (Inr ns) \<in> set before" "name \<in> set ns" for ns name
    using names [OF that(1)] that(2) by auto
  from prepare_removes_only_own_clones [OF run t] slash obtain name ns rest s where
    "p = temp_root demo_temp_env @ ''/'' @ name" "has_prefix name writeback_clone_prefix"
    "before = EvStat (Lstat p) (Inr s) # rest" "EvReadDir (temp_root demo_temp_env) (Inr ns) \<in> set rest" "name \<in> set ns"
    by blast
  moreover from this names have "name \<in> {''clone-1'', ''other''}" by fastforce
  ultimately show ?thesis
    using run t by (auto simp: writeback_clone_prefix_def initial_world_def)
qed

theorem prepare_lock_discipline_witness:
  "holds_lock demo_temp_env ''k'' (w_trace (snd (run_state (prepare_temp_dir demo_temp_env) initial_world)))"
proof -
  obtain w' where run: "run_state (prepare_temp_dir demo_temp_env) initial_world = (Inr ''k'', w')"
    using demo_prepare(1) by (metis prod.collapse)
  from prepare_lock_discipline [OF run] run show ?thesis by (auto simp: initial_world_def)
qed

end
