(* ===== verification/Writeback.thy ===== *)
theory Writeback
  imports Temp_Dir Git_Source
begin

text \<open>
  \<^verbatim>\<open>internal/writeback/git.go\<close>: clone the manifest branch, edit one file, commit and push,
  with the temporary files the SSH client needs. A deferred cleanup runs after its body
  whatever the outcome, a panic of the editor included.
\<close>

section \<open>Paths and messages\<close>

definition safe_manifest_path :: "string \<Rightarrow> string \<Rightarrow> (string \<times> string) result" where
  "safe_manifest_path root path =
     (if path = '''' \<or> is_abs path
      then Inl (Errorf ''manifest path must be a non-empty repository-relative path'')
      else let clean = clean_path path in
      if clean = ''.'' then Inl (Errorf ''manifest path must name a repository file'')
      else if clean = ''..'' \<or> 3 < length clean \<and> take 3 clean = ''../''
      then Inl (Errorf (''manifest path '' @ go_quote path @ '' escapes repository''))
      else if clean = ''.git'' \<or> has_prefix clean ''.git/''
      then Inl (Errorf (''manifest path '' @ go_quote path @ '' targets reserved .git metadata''))
      else Inr (join_path root clean, clean))"

definition written_fields :: "writer \<Rightarrow> string list" where
  "written_fields wr =
     concat (map (\<lambda>t. map (\<lambda>p. target_kind t @ ''/'' @ target_name t @ '':'' @ patch_field p)
       (target_patches t)) (wr_targets wr))"

definition commit_message :: "writer \<Rightarrow> string" where
  "commit_message wr =
     (let tag = gomap_get (wr_data wr) ''tag'';
          tag = (if tag = '''' then ''rendered values'' else tag)
      in ''chore: update '' @ tag @ '' via argocd-tag-updater [skip-ci]'' @ [newline, newline] @
         ''Fields: '' @ str_join '', '' (sort (written_fields wr)))"

section \<open>Authentication\<close>

text \<open>The second component is the temporary file that the cleanup closure removes.\<close>

definition known_hosts_pattern :: string where
  "known_hosts_pattern = ''argocd-tag-updater-known-hosts-''"

definition host_key_callback ::
    "env \<Rightarrow> string \<Rightarrow> bool \<Rightarrow> (host_check \<times> string option) result io" where
  "host_key_callback E data insecure =
     (if data \<noteq> '''' then do {
        f \<leftarrow> do_fs E (CreateTemp known_hosts_pattern);
        case f of
          Inl e \<Rightarrow> ret (Inl (Wrapped ''create known_hosts file'' e))
        | Inr name \<Rightarrow> do {
            r \<leftarrow> do_fs E (WriteTemp name data);
            case r of
              Inl e \<Rightarrow> do {
                _ \<leftarrow> do_fs E (CloseTemp name);
                _ \<leftarrow> do_fs E (Remove name);
                ret (Inl (Wrapped ''write known_hosts file'' e)) }
            | Inr _ \<Rightarrow> do {
                c \<leftarrow> do_fs E (CloseTemp name);
                case c of
                  Inl e \<Rightarrow> do {
                    _ \<leftarrow> do_fs E (Remove name);
                    ret (Inl (Wrapped ''close known_hosts file'' e)) }
                | Inr _ \<Rightarrow> do {
                    kh \<leftarrow> load_known_hosts E name;
                    case kh of
                      Inl e \<Rightarrow> do {
                        _ \<leftarrow> do_fs E (Remove name);
                        ret (Inl (Wrapped ''parse knownHosts'' e)) }
                    | Inr hosts \<Rightarrow> ret (Inr (KnownHosts hosts, Some name)) } } } }
      else if insecure then ret (Inr (InsecureHostKey, None))
      else ret (Inl (Errorf ''SSH credentials require knownHosts or insecureIgnoreHostKey=true'')))"

text \<open>The package's own copy of the function of the git source.\<close>

definition writer_https :: "string \<Rightarrow> string" where
  "writer_https repo =
     (if has_prefix repo ''https://'' then repo
      else if has_prefix repo ''ssh://'' then
        (let rest = trim_prefix repo ''ssh://'' in
         ''https://'' @ (case index_byte rest (CHR ''@'') of None \<Rightarrow> rest | Some i \<Rightarrow> drop (i + 1) rest))
      else if has_prefix repo ''git@'' then
        ''https://'' @ replace1 (trim_prefix repo ''git@'') '':'' ''/''
      else repo)"

lemma writer_https_eq: "writer_https = to_https"
  by (simp add: fun_eq_iff writer_https_def to_https_def Let_def)

definition writer_auth :: "env \<Rightarrow> writer \<Rightarrow> (git_auth \<times> string \<times> string option) result io" where
  "writer_auth E wr =
     (let cr = wr_credentials wr; repo = wb_repo (wr_spec wr) in
      if cred_ssh_key cr \<noteq> '''' then
        (case lib_ssh_key E (cred_ssh_key cr) of
           Inl e \<Rightarrow> ret (Inl (Wrapped ''parse write-back SSH private key'' e))
         | Inr _ \<Rightarrow> do {
             h \<leftarrow> host_key_callback E (cred_known_hosts cr) (cred_insecure cr);
             ret (case h of
               Inl e \<Rightarrow> Inl e
             | Inr (check, temp) \<Rightarrow> Inr (SshKey (cred_ssh_key cr) check, repo, temp)) })
      else if cred_token cr \<noteq> ''''
      then ret (Inr (HttpBasic ''x-access-token'' (cred_token cr), writer_https repo, None))
      else if cred_username cr \<noteq> '''' \<or> cred_password cr \<noteq> ''''
      then ret (Inr (HttpBasic (cred_username cr) (cred_password cr), writer_https repo, None))
      else ret (Inr (NoAuth, repo, None)))"

definition cleanup :: "env \<Rightarrow> string option \<Rightarrow> unit io" where
  "cleanup E temp =
     (case temp of None \<Rightarrow> ret () | Some name \<Rightarrow> do { _ \<leftarrow> do_fs E (Remove name); ret () })"

section \<open>One attempt\<close>

record write_result =
  committed :: bool
  commit_sha :: string

definition branch_ref :: "string \<Rightarrow> string" where
  "branch_ref b = ''refs/heads/'' @ b"

definition clone_branch ::
    "env \<Rightarrow> string \<Rightarrow> string \<Rightarrow> git_auth \<Rightarrow> string \<Rightarrow> string \<Rightarrow> unit result io" where
  "clone_branch E dir url auth branch path = do {
     c \<leftarrow> do_git E (GitClone dir url auth (branch_ref branch));
     case c of
       Inl e \<Rightarrow> ret (Inl (Wrapped (''clone '' @ url @ '' branch '' @ branch) e))
     | Inr _ \<Rightarrow> do {
         t \<leftarrow> do_git E (GitWorktree dir);
         case t of
           Inl e \<Rightarrow> ret (Inl (Wrapped ''open worktree'' e))
         | Inr _ \<Rightarrow> do {
             k \<leftarrow> do_git E (GitCheckout dir (branch_ref branch) path);
             ret (case k of
               Inl e \<Rightarrow> Inl (Wrapped (''checkout manifest '' @ path) e)
             | Inr _ \<Rightarrow> Inr ()) } } }"

definition head_result :: "env \<Rightarrow> string \<Rightarrow> string \<Rightarrow> write_result outcome io" where
  "head_result E dir what = do {
     h \<leftarrow> do_git E (GitHead dir);
     ret (case h of
       Inl e \<Rightarrow> Fail (Wrapped what e)
     | Inr sha \<Rightarrow> Ok \<lparr>committed = False, commit_sha = sha\<rparr>) }"

definition commit_and_push ::
    "env \<Rightarrow> writer \<Rightarrow> git_auth \<Rightarrow> string \<Rightarrow> write_result outcome io" where
  "commit_and_push E wr auth dir = do {
     now \<leftarrow> clock E;
     c \<leftarrow> do_git E (GitCommit dir (commit_message wr) now);
     case c of
       Inl e \<Rightarrow>
         if errors_is e EmptyCommit
         then head_result E dir ''resolve manifest branch head after empty commit''
         else ret (Fail (Wrapped (''commit manifest '' @ wb_path (wr_spec wr)) e))
     | Inr sha \<Rightarrow> do {
         p \<leftarrow> do_git E (GitPush dir auth);
         ret (case p of
           Inl e \<Rightarrow> Fail e
         | Inr _ \<Rightarrow> Ok \<lparr>committed = True, commit_sha = sha\<rparr>) } }"

definition apply_in_clone ::
    "env \<Rightarrow> writer \<Rightarrow> git_auth \<Rightarrow> string \<Rightarrow> string \<Rightarrow> string \<Rightarrow> write_result outcome io" where
  "apply_in_clone E wr auth url dir clean = (let path = wb_path (wr_spec wr) in do {
     c \<leftarrow> clone_branch E dir url auth (wb_branch (wr_spec wr)) clean;
     case c of
       Inl e \<Rightarrow> ret (Fail e)
     | Inr _ \<Rightarrow>
         (case safe_manifest_path dir path of
            Inl e \<Rightarrow> ret (Fail e)
          | Inr (manifest, _) \<Rightarrow> do {
              i \<leftarrow> do_fs E (ReadFile manifest);
              case i of
                Inl e \<Rightarrow> ret (Fail (Wrapped (''read manifest '' @ path) e))
              | Inr input \<Rightarrow>
                  (case update_manifest (lib_manifest E) input (wr_targets wr) (wr_data wr) of
                     Fail e \<Rightarrow> ret (Fail (Wrapped (''edit manifest '' @ path) e))
                   | Abort a \<Rightarrow> ret (Abort a)
                   | Ok (output, changed) \<Rightarrow>
                       if \<not> changed then head_result E dir ''resolve manifest branch head''
                       else do {
                         wrote \<leftarrow> do_fs E (WriteFile manifest output);
                         case wrote of
                           Inl e \<Rightarrow> ret (Fail (Wrapped (''write manifest '' @ path) e))
                         | Inr _ \<Rightarrow> do {
                             a \<leftarrow> do_git E (GitAdd dir clean);
                             case a of
                               Inl e \<Rightarrow> ret (Fail (Wrapped (''stage manifest '' @ clean) e))
                             | Inr _ \<Rightarrow> commit_and_push E wr auth dir } }) }) })"

definition apply_once :: "env \<Rightarrow> writer \<Rightarrow> git_auth \<Rightarrow> string \<Rightarrow> write_result outcome io" where
  "apply_once E wr auth url =
     (case safe_manifest_path ''.'' (wb_path (wr_spec wr)) of
        Inl e \<Rightarrow> ret (Fail e)
      | Inr (_, clean) \<Rightarrow> do {
          d \<leftarrow> new_clone_directory E;
          case d of
            Inl e \<Rightarrow> ret (Fail (Wrapped ''create clone directory'' e))
          | Inr dir \<Rightarrow> do {
              r \<leftarrow> apply_in_clone E wr auth url dir clean;
              _ \<leftarrow> do_fs E (RemoveAll dir);
              ret r } })"

section \<open>Apply and the remote head\<close>

fun apply_attempts :: "env \<Rightarrow> writer \<Rightarrow> git_auth \<Rightarrow> string \<Rightarrow> nat \<Rightarrow> write_result outcome io" where
  "apply_attempts E wr auth url 0 =
     ret (Fail (Errorf (''push '' @ wb_repo (wr_spec wr) @ '' branch '' @ wb_branch (wr_spec wr) @
       '': conflict after 3 attempts'')))"
| "apply_attempts E wr auth url (Suc n) = do {
     r \<leftarrow> apply_once E wr auth url;
     case r of
       Ok x \<Rightarrow> ret (Ok x)
     | Fail e \<Rightarrow> if errors_is e NonFastForwardUpdate then apply_attempts E wr auth url n else ret (Fail e)
     | Abort a \<Rightarrow> ret (Abort a) }"

definition writer_apply :: "env \<Rightarrow> writer \<Rightarrow> write_result outcome io" where
  "writer_apply E wr = do {
     _ \<leftarrow> note_event (EvApply wr);
     a \<leftarrow> writer_auth E wr;
     case a of
       Inl e \<Rightarrow> ret (Fail e)
     | Inr (auth, url, temp) \<Rightarrow> do {
         r \<leftarrow> apply_attempts E wr auth url 3;
         _ \<leftarrow> cleanup E temp;
         ret r } }"

definition find_branch :: "string \<Rightarrow> git_ref list \<Rightarrow> string option" where
  "find_branch branch refs =
     map_option ref_hash (find (\<lambda>r. ref_name r = branch_ref branch) refs)"

definition remote_head :: "env \<Rightarrow> writer \<Rightarrow> string result io" where
  "remote_head E wr = do {
     a \<leftarrow> writer_auth E wr;
     case a of
       Inl e \<Rightarrow> ret (Inl e)
     | Inr (auth, url, temp) \<Rightarrow> do {
         adv \<leftarrow> ls_remote E auth url;
         _ \<leftarrow> cleanup E temp;
         ret (case adv of
           Inl e \<Rightarrow> Inl (Wrapped (''ls-remote '' @ url) e)
         | Inr av \<Rightarrow>
             (case find_branch (wb_branch (wr_spec wr)) (remote_list default_peeling av) of
                Some sha \<Rightarrow> Inr sha
              | None \<Rightarrow> Inl (Errorf (''branch '' @ wb_branch (wr_spec wr) @ '' not found in '' @ url)))) } }"

section \<open>Where the manifest may be\<close>

definition manifest_elements :: "string \<Rightarrow> string list" where
  "manifest_elements path = clean_elements False (path_elements path)"

lemma dotdot_guard:
  assumes "list_all element es" and "es \<noteq> []"
  shows "str_join ''/'' es = ''..'' \<or> 3 < length (str_join ''/'' es) \<and> take 3 (str_join ''/'' es) = ''../''
    \<longleftrightarrow> hd es = ''..''"
proof -
  obtain e rest where es: "es = e # rest" using assms(2) by (cases es) auto
  have long: "3 < length (str_join ''/'' es)" if "has_prefix (str_join ''/'' es) ''../''"
  proof -
    have hd: "e = ''..''" using first_element [OF assms, of "''..''"] that by (simp add: es)
    with that obtain f fs where "rest = f # fs" by (cases rest) (auto simp: es has_prefix_def)
    moreover from this assms(1) have "f \<noteq> ''''" by (simp add: es element_def)
    ultimately show ?thesis using hd by (cases f; cases fs) (auto simp: es)
  qed
  have pre: "has_prefix s ''../'' \<longleftrightarrow> take 3 s = ''../''" for s
    by (simp add: has_prefix_def numeral_3_eq_3)
  show ?thesis
    using first_element [OF assms, of "''..''"] long by (auto simp: es pre)
qed

lemma clean_path_relative:
  "\<not> is_abs path \<Longrightarrow> clean_path path =
    (if manifest_elements path = [] then ''.'' else str_join ''/'' (manifest_elements path))"
  by (simp add: clean_path_def manifest_elements_def Let_def)

lemma join_not_dot:
  assumes "list_all element es" and "es \<noteq> []" shows "str_join ''/'' es \<noteq> ''.'' \<and> str_join ''/'' es \<noteq> ''''"
proof -
  have e: "path_elements ''.'' = []" "path_elements '''' = []" by (simp_all add: path_elements_def)
  show ?thesis using path_elements_join [OF assms(1)] assms(2) e by metis
qed

lemma join_not_abs:
  assumes "list_all element es" and "es \<noteq> []" shows "\<not> is_abs (str_join ''/'' es)"
proof -
  obtain e rest where es: "es = e # rest" using assms(2) by (cases es) auto
  with assms(1) obtain c cs where "e = c # cs" "c \<noteq> CHR ''/''" by (cases e) (auto simp: element_def)
  then show ?thesis by (cases rest) (simp_all add: es is_abs_def has_prefix_def)
qed

lemma safe_manifest_path_iff:
  "safe_manifest_path root path = Inr (full, clean) \<longleftrightarrow>
    path \<noteq> '''' \<and> \<not> is_abs path \<and> manifest_elements path \<noteq> [] \<and>
    hd (manifest_elements path) \<noteq> ''..'' \<and> hd (manifest_elements path) \<noteq> ''.git'' \<and>
    clean = str_join ''/'' (manifest_elements path) \<and> full = join_path root clean"
proof (cases "path = '''' \<or> is_abs path \<or> manifest_elements path = []")
  case True
  then show ?thesis
    by (auto simp: safe_manifest_path_def clean_path_relative Let_def)
next
  case False
  let ?es = "manifest_elements path"
  have el: "list_all element ?es" by (simp add: manifest_elements_def clean_elements_element)
  from False have ne: "?es \<noteq> []" and clean: "clean_path path = str_join ''/'' ?es"
    by (simp_all add: clean_path_relative)
  have git: "str_join ''/'' ?es = ''.git'' \<or> has_prefix (str_join ''/'' ?es) ''.git/'' \<longleftrightarrow> hd ?es = ''.git''"
    using first_element [OF el ne, of "''.git''"] by simp
  show ?thesis
    using False join_not_dot [OF el ne]
    by (auto simp: safe_manifest_path_def Let_def clean dotdot_guard [OF el ne] git)
qed

text \<open>Without a leading \<open>..\<close>, no element of a cleaned relative path leads upwards.\<close>

lemma manifest_elements_plain:
  assumes "manifest_elements path \<noteq> []" and "hd (manifest_elements path) \<noteq> ''..''"
  shows "list_all plain (manifest_elements path)"
proof -
  have "\<forall>e\<in>set (path_elements path). e \<noteq> '''' \<and> e \<noteq> ''.'' \<and> CHR ''/'' \<notin> set e"
    using path_elements_mem by blast
  from clean_elements_form [OF this, of False] obtain n ps where
    f: "manifest_elements path = replicate n ''..'' @ ps" "list_all plain ps"
    unfolding manifest_elements_def by blast
  with assms have "n = 0" by (cases n) auto
  with f show ?thesis by simp
qed

text \<open>
  C28. The manifest stays inside the clone: a path is accepted exactly when it is relative and
  its lexical form names an entry below the root that is not reached through \<open>..\<close> and
  does not lie in \<open>.git\<close>; the file that is read and written is then the root's path
  followed by those elements, none of which is a parent reference.
\<close>

theorem manifest_path_confined:
  assumes "root \<noteq> ''''"
  shows "((\<exists>full clean. safe_manifest_path root path = Inr (full, clean)) \<longleftrightarrow>
      path \<noteq> '''' \<and> \<not> is_abs path \<and> manifest_elements path \<noteq> [] \<and>
      hd (manifest_elements path) \<notin> {''..'', ''.git''}) \<and>
    (\<forall>full clean. safe_manifest_path root path = Inr (full, clean) \<longrightarrow>
      list_all plain (manifest_elements path) \<and> is_abs full = is_abs root \<and>
      path_elements full = clean_elements (is_abs root) (path_elements root) @ manifest_elements path)"
proof (intro conjI allI impI)
  show "(\<exists>full clean. safe_manifest_path root path = Inr (full, clean)) \<longleftrightarrow>
      path \<noteq> '''' \<and> \<not> is_abs path \<and> manifest_elements path \<noteq> [] \<and>
      hd (manifest_elements path) \<notin> {''..'', ''.git''}"
    by (auto simp: safe_manifest_path_iff)
next
  fix full clean
  assume a: "safe_manifest_path root path = Inr (full, clean)"
  let ?es = "manifest_elements path" and ?rs = "clean_elements (is_abs root) (path_elements root)"
  from a have ne: "?es \<noteq> []" and clean: "clean = str_join ''/'' ?es" and full: "full = join_path root clean"
    and pl: "list_all plain ?es"
    by (auto simp: safe_manifest_path_iff intro: manifest_elements_plain)
  show "list_all plain ?es" by (rule pl)
  have el: "list_all element ?es" and er: "list_all element ?rs"
    by (simp_all add: manifest_elements_def clean_elements_element)
  have "clean \<noteq> ''''" using join_not_dot [OF el ne] clean by simp
  then obtain p where p: "p = root @ ''/'' @ clean" and f: "full = clean_path p"
    using assms full by (simp add: join_path_def)
  have abs: "is_abs p = is_abs root"
    unfolding p using assms by (cases root) (auto simp: is_abs_def has_prefix_def)
  have els: "path_elements p = path_elements root @ ?es"
    unfolding p using path_elements_append [of root clean] path_elements_join [OF el] clean by simp
  have es: "clean_elements (is_abs root) (path_elements p) = ?rs @ ?es"
    unfolding els by (rule clean_elements_append_plain [OF pl])
  have el2: "list_all element (?rs @ ?es)" and ne2: "?rs @ ?es \<noteq> []" using el er ne by simp_all
  have full2: "full = (if is_abs root then ''/'' else '''') @ str_join ''/'' (?rs @ ?es)"
    using ne by (simp add: f clean_path_def abs es Let_def)
  have "is_abs (''/'' @ s)" for s by (simp add: is_abs_def has_prefix_def)
  with join_not_abs [OF el2 ne2] show "is_abs full = is_abs root"
    unfolding full2 by (cases "is_abs root") simp_all
  have "path_elements (''/'' @ s) = path_elements s" for s
    using path_elements_append [of "[]" s] by (simp add: path_elements_def)
  then show "path_elements full = ?rs @ ?es"
    using path_elements_join [OF el2] unfolding full2 by (cases "is_abs root") simp_all
qed

section \<open>What an attempt does\<close>

definition is_push :: "event \<Rightarrow> bool" where
  "is_push e \<longleftrightarrow> (\<exists>d a s. e = EvGit (GitPush d a) (Inr s))"

definition is_clone :: "event \<Rightarrow> bool" where
  "is_clone e \<longleftrightarrow> (\<exists>d u a b r. e = EvGit (GitClone d u a b) r)"

definition pushes :: "event list \<Rightarrow> nat" where "pushes es = length (filter is_push es)"
definition clones :: "event list \<Rightarrow> nat" where "clones es = length (filter is_clone es)"

definition reported :: "write_result outcome \<Rightarrow> nat" where
  "reported r = (case r of Ok x \<Rightarrow> if committed x then 1 else 0 | _ \<Rightarrow> 0)"

lemma counts [simp]:
  "pushes [] = 0" "clones [] = 0"
  "pushes (xs @ ys) = pushes xs + pushes ys" "clones (xs @ ys) = clones xs + clones ys"
  "pushes (EvGit g r # es) = (if is_push (EvGit g r) then Suc (pushes es) else pushes es)"
  "clones (EvGit g r # es) = (if is_clone (EvGit g r) then Suc (clones es) else clones es)"
  "pushes (EvFs c q # es) = pushes es" "clones (EvFs c q # es) = clones es"
  "pushes (EvApply w # es) = pushes es" "clones (EvApply w # es) = clones es"
  by (simp_all add: pushes_def clones_def is_push_def is_clone_def)

lemma reads_counts: "\<forall>e\<in>set es. reads e \<Longrightarrow> pushes es = 0 \<and> clones es = 0"
  by (induction es) (auto simp: pushes_def clones_def is_push_def is_clone_def)

lemma emits_new_clone:
  "emits (new_clone_directory E) (\<lambda>_ es. pushes es = 0 \<and> clones es = 0 \<and> (\<forall>e\<in>set es. reads e))"
  by (rule emits_weaken [OF emits_ensures [OF new_clone_directory_quiet]]) (use reads_counts in blast)

lemma emits_clone_branch:
  "emits (clone_branch E dir url auth b p) (\<lambda>r es. pushes es = 0 \<and> clones es \<le> 1 \<and>
    (\<forall>x. r = Inr x \<longrightarrow> (\<exists>c1 c2 c3. es = [EvGit (GitCheckout dir (branch_ref b) p) (Inr c3),
      EvGit (GitWorktree dir) (Inr c2), EvGit (GitClone dir url auth (branch_ref b)) (Inr c1)])))"
  unfolding clone_branch_def
  by (intro emits_intro) (auto simp: is_push_def is_clone_def split: sum.splits)

lemma emits_head_result:
  "emits (head_result E dir what) (\<lambda>r es.
    (\<exists>e. es = [EvGit (GitHead dir) (Inl e)] \<and> r = Fail (Wrapped what e)) \<or>
    (\<exists>s. es = [EvGit (GitHead dir) (Inr s)] \<and> r = Ok \<lparr>committed = False, commit_sha = s\<rparr>))"
  unfolding head_result_def by (intro emits_intro) (auto split: sum.splits)

lemma emits_headI:
  "(\<And>e. Q (Fail (Wrapped what e)) [EvGit (GitHead dir) (Inl e)]) \<Longrightarrow>
    (\<And>s. Q (Ok \<lparr>committed = False, commit_sha = s\<rparr>) [EvGit (GitHead dir) (Inr s)]) \<Longrightarrow>
    emits (head_result E dir what) Q"
  by (rule emits_weaken [OF emits_head_result]) auto

lemma emits_commit_and_push:
  "emits (commit_and_push E wr auth dir) (\<lambda>r es. pushes es = reported r \<and> clones es = 0 \<and>
    (\<forall>x. r = Ok x \<and> committed x \<longrightarrow> (\<exists>t p. es = [EvGit (GitPush dir auth) (Inr p),
      EvGit (GitCommit dir (commit_message wr) t) (Inr (commit_sha x))])) \<and>
    (\<forall>x. r = Ok x \<and> \<not> committed x \<longrightarrow> (\<exists>es'. es = EvGit (GitHead dir) (Inr (commit_sha x)) # es')))"
  unfolding commit_and_push_def
  by (intro emits_intro emits_headI)
    (auto simp: is_push_def is_clone_def reported_def split: sum.splits)

text \<open>The calls of an attempt that commits, newest first.\<close>

definition commits_manifest ::
    "env \<Rightarrow> writer \<Rightarrow> git_auth \<Rightarrow> string \<Rightarrow> string \<Rightarrow> event list \<Rightarrow> bool" where
  "commits_manifest E wr auth url sha es \<longleftrightarrow>
     (\<exists>dir manifest clean input output t p a1 a2 c1 c2 c3.
        safe_manifest_path dir (wb_path (wr_spec wr)) = Inr (manifest, clean) \<and>
        update_manifest (lib_manifest E) input (wr_targets wr) (wr_data wr) = Ok (output, True) \<and>
        es = [EvGit (GitPush dir auth) (Inr p),
              EvGit (GitCommit dir (commit_message wr) t) (Inr sha),
              EvGit (GitAdd dir clean) (Inr a1),
              EvFs (WriteFile manifest output) (Inr a2),
              EvFs (ReadFile manifest) (Inr input),
              EvGit (GitCheckout dir (branch_ref (wb_branch (wr_spec wr))) clean) (Inr c3),
              EvGit (GitWorktree dir) (Inr c2),
              EvGit (GitClone dir url auth (branch_ref (wb_branch (wr_spec wr)))) (Inr c1)])"

lemma emits_apply_in_clone:
  assumes "safe_manifest_path ''.'' (wb_path (wr_spec wr)) = Inr (rel, clean)"
  shows "emits (apply_in_clone E wr auth url dir clean) (\<lambda>r es. pushes es = reported r \<and> clones es \<le> 1 \<and>
    (\<forall>x. r = Ok x \<and> committed x \<longrightarrow> commits_manifest E wr auth url (commit_sha x) es))"
proof -
  have clean: "c = clean" if "safe_manifest_path dir (wb_path (wr_spec wr)) = Inr (m, c)" for m c
    using that assms by (simp add: safe_manifest_path_iff)
  show ?thesis
    unfolding apply_in_clone_def Let_def
    by (intro emits_intro emits_bind [OF emits_clone_branch] emits_headI
        emits_weaken [OF emits_commit_and_push])
      (auto simp: reported_def is_push_def is_clone_def commits_manifest_def dest: clean)
qed

lemma emits_apply_once:
  "emits (apply_once E wr auth url) (\<lambda>r es. pushes es = reported r \<and> clones es \<le> 1 \<and>
    (\<forall>x. r = Ok x \<and> committed x \<longrightarrow> (\<exists>dir q body before.
       es = EvFs (RemoveAll dir) q # body @ before \<and> (\<forall>e\<in>set before. reads e) \<and>
       commits_manifest E wr auth url (commit_sha x) body)))"
  unfolding apply_once_def
  apply (intro emits_intro emits_bind [OF emits_new_clone])
    apply (auto simp: reported_def)[2]
  apply (rule emits_bind, rule emits_apply_in_clone, simp)
  apply (intro emits_intro)
  by auto

text \<open>One committing attempt, with nothing pushed before or after it.\<close>

definition commit_trace :: "env \<Rightarrow> writer \<Rightarrow> string \<Rightarrow> event list \<Rightarrow> bool" where
  "commit_trace E wr sha es \<longleftrightarrow>
     (\<exists>auth url after body before. es = after @ body @ before \<and> pushes after = 0 \<and> pushes before = 0 \<and>
        commits_manifest E wr auth url sha body)"

lemma commit_traceI:
  "commits_manifest E wr auth url sha body \<Longrightarrow> pushes before = 0 \<Longrightarrow> pushes after = 0 \<Longrightarrow>
    commit_trace E wr sha (after @ body @ before)"
  unfolding commit_trace_def by blast

lemma commit_trace_append:
  "commit_trace E wr sha es \<Longrightarrow> pushes xs = 0 \<Longrightarrow> pushes ys = 0 \<Longrightarrow>
    commit_trace E wr sha (xs @ es @ ys)"
  unfolding commit_trace_def by (metis append.assoc add_is_0 counts(3))

lemma emits_apply_attempts:
  "emits (apply_attempts E wr auth url n) (\<lambda>r es. pushes es = reported r \<and> clones es \<le> n \<and>
    (\<forall>x. r = Ok x \<and> committed x \<longrightarrow> commit_trace E wr (commit_sha x) es))"
proof (induction n)
  case 0
  show ?case by (simp add: emits_return reported_def)
next
  case (Suc n)
  show ?case
    unfolding apply_attempts.simps
    apply (rule emits_bind [OF emits_apply_once])
    apply (intro emits_intro)
    subgoal for r es x
      using commit_traceI [of E wr auth url _ _ _ "[EvFs (RemoveAll _) _]"] reads_counts
      by (auto simp: reported_def)
    subgoal for r es e
      by (rule emits_weaken [OF Suc.IH]) (auto simp: reported_def intro: commit_trace_append [of _ _ _ _ "[]", simplified])
    by (auto simp: reported_def)
qed

lemma emits_host_key_callback:
  "emits (host_key_callback E data ins) (\<lambda>r es. (\<forall>e\<in>set es. reads e) \<and>
    (\<forall>h name. r = Inr (h, Some name) \<longrightarrow> h \<noteq> InsecureHostKey) \<and>
    (\<forall>name. EvFs (CreateTemp known_hosts_pattern) (Inr name) \<in> set es \<longrightarrow>
       (\<exists>h. r = Inr (h, Some name)) \<or> (\<exists>q. EvFs (Remove name) q \<in> set es)))"
  unfolding host_key_callback_def by (intro emits_intro) auto

lemma emits_writer_auth:
  "emits (writer_auth E wr) (\<lambda>r es. (\<forall>e\<in>set es. reads e) \<and>
    (\<forall>name. EvFs (CreateTemp known_hosts_pattern) (Inr name) \<in> set es \<longrightarrow>
       (\<exists>a u. r = Inr (a, u, Some name)) \<or> (\<exists>q. EvFs (Remove name) q \<in> set es)))"
  unfolding writer_auth_def Let_def
  by (intro emits_intro emits_bind [OF emits_host_key_callback]) (auto split: sum.splits)

lemma emits_cleanup:
  "emits (cleanup E temp) (\<lambda>_ es. (\<forall>e\<in>set es. reads e) \<and>
    (\<forall>name. temp = Some name \<longrightarrow> (\<exists>q. EvFs (Remove name) q \<in> set es)))"
  unfolding cleanup_def by (intro emits_intro) auto

lemma emits_writer_apply:
  "emits (writer_apply E wr) (\<lambda>r es. pushes es = reported r \<and> clones es \<le> 3 \<and>
    (\<forall>x. r = Ok x \<and> committed x \<longrightarrow> commit_trace E wr (commit_sha x) es))"
  unfolding writer_apply_def
  apply (intro emits_intro emits_bind [OF emits_writer_auth])
   apply (use reads_counts in \<open>force simp: reported_def\<close>)
  apply (rule emits_bind [OF emits_apply_attempts])
  apply (rule emits_bind [OF emits_cleanup])
  apply (rule emits_return)
  apply (use reads_counts commit_trace_append in auto)
  done

section \<open>Properties\<close>

text \<open>
  C8. The result of \<^verbatim>\<open>Apply\<close> tells the truth about the remote: a push went through exactly when
  the result says committed, once, and otherwise (an unchanged manifest, any error, a
  panic of the editor) nothing was pushed; at most three clones are made.
\<close>

theorem apply_reports_push:
  assumes "run_state (writer_apply E wr) w = (r, w')"
  shows "\<exists>es. w_trace w' = es @ w_trace w \<and> pushes es = reported r \<and> clones es \<le> 3"
  using emits_run [OF emits_writer_apply assms] by blast

text \<open>
  C18. What is pushed: the returned commit was made on a fresh clone of the configured branch,
  stages only the configured manifest, whose new content is the edit of the content read
  from that clone, and the push followed the commit at once.
\<close>

theorem apply_pushes_edited_manifest:
  assumes "run_state (writer_apply E wr) w = (Ok x, w')" and "committed x"
  shows "\<exists>es. w_trace w' = es @ w_trace w \<and> commit_trace E wr (commit_sha x) es"
  using emits_run [OF emits_writer_apply assms(1)] assms(2) by blast

definition cleaned :: "event list \<Rightarrow> bool" where
  "cleaned es \<longleftrightarrow>
     (\<forall>name. EvFs (CreateTemp known_hosts_pattern) (Inr name) \<in> set es \<longrightarrow> (\<exists>q. EvFs (Remove name) q \<in> set es)) \<and>
     (\<forall>root d. EvFs (MkdirTemp root writeback_clone_prefix) (Inr d) \<in> set es \<longrightarrow> (\<exists>q. EvFs (RemoveAll d) q \<in> set es))"

definition creates_nothing :: "event \<Rightarrow> bool" where
  "creates_nothing e \<longleftrightarrow> (\<forall>p r. e \<noteq> EvFs (CreateTemp p) r) \<and> (\<forall>d p r. e \<noteq> EvFs (MkdirTemp d p) r)"

lemma creates_nothing_simps [simp]:
  "creates_nothing (EvGit g r)" "creates_nothing (EvFs (ReadFile p) q)" "creates_nothing (EvFs (WriteFile p c) q)"
  "creates_nothing (EvStat s t)" "creates_nothing (EvFs (Mkdir p m) q)"
  "creates_nothing (EvFs (RemoveAll p) q)" "creates_nothing (EvFs (Remove p) q)"
  by (simp_all add: creates_nothing_def)

lemma cleaned_append: "cleaned xs \<Longrightarrow> cleaned ys \<Longrightarrow> cleaned (xs @ ys)"
  unfolding cleaned_def by (metis Un_iff set_append)

lemma creates_nothing_cleaned: "\<forall>e\<in>set es. creates_nothing e \<Longrightarrow> cleaned es"
  unfolding cleaned_def creates_nothing_def by blast

lemma apply_in_clone_creates_nothing:
  "ensures creates_nothing (apply_in_clone E wr auth url dir clean) (\<lambda>_. True)"
  unfolding apply_in_clone_def clone_branch_def head_result_def commit_and_push_def Let_def
  by (intro ensures_intro ensures_bind_any creates_nothing_simps TrueI)

lemma ensure_temp_dir_creates_nothing: "ensures creates_nothing (ensure_temp_dir E) (\<lambda>_. True)"
  unfolding ensure_temp_dir_def Let_def
  by (intro ensures_intro ensures_bind_any creates_nothing_simps TrueI)

lemma new_clone_created:
  "emits (new_clone_directory E) (\<lambda>r es. (\<forall>p q. EvFs (CreateTemp p) q \<notin> set es) \<and>
    (\<forall>root d. EvFs (MkdirTemp root writeback_clone_prefix) (Inr d) \<in> set es \<longrightarrow> r = Inr d))"
  unfolding new_clone_directory_def
  by (rule emits_bind [OF emits_ensures [OF ensure_temp_dir_creates_nothing]])
    (intro emits_intro; auto simp: creates_nothing_def)

lemma apply_once_cleaned: "emits (apply_once E wr auth url) (\<lambda>_ es. cleaned es)"
  unfolding apply_once_def
  apply (intro emits_intro emits_bind [OF new_clone_created])
    apply (auto simp: cleaned_def)[2]
  apply (rule emits_bind [OF emits_ensures [OF apply_in_clone_creates_nothing [where wr = wr]]])
  apply (intro emits_intro)
  apply (auto simp: cleaned_def creates_nothing_def)
  done

lemma apply_attempts_cleaned: "emits (apply_attempts E wr auth url n) (\<lambda>_ es. cleaned es)"
proof (induction n)
  case 0
  show ?case by (simp add: emits_return cleaned_def)
next
  case (Suc n)
  show ?case
    unfolding apply_attempts.simps
    by (rule emits_bind [OF apply_once_cleaned], intro emits_intro emits_weaken [OF Suc.IH])
      (auto intro: cleaned_append)
qed

lemma host_key_callback_no_dir:
  "ensures (\<lambda>e. \<forall>d p r. e \<noteq> EvFs (MkdirTemp d p) r) (host_key_callback E data ins) (\<lambda>_. True)"
  unfolding host_key_callback_def by (intro ensures_intro ensures_bind_any) auto

lemma writer_auth_created:
  "emits (writer_auth E wr) (\<lambda>r es. (\<forall>d p q. EvFs (MkdirTemp d p) q \<notin> set es) \<and>
    (\<forall>name. EvFs (CreateTemp known_hosts_pattern) (Inr name) \<in> set es \<longrightarrow>
       (\<exists>a u. r = Inr (a, u, Some name)) \<or> (\<exists>q. EvFs (Remove name) q \<in> set es)))"
proof -
  have "emits (host_key_callback E d i) (\<lambda>r es. (\<forall>d p q. EvFs (MkdirTemp d p) q \<notin> set es) \<and>
      (\<forall>name. EvFs (CreateTemp known_hosts_pattern) (Inr name) \<in> set es \<longrightarrow>
       (\<exists>h. r = Inr (h, Some name)) \<or> (\<exists>q. EvFs (Remove name) q \<in> set es)))" for d i
    unfolding host_key_callback_def by (intro emits_intro) auto
  then show ?thesis
    unfolding writer_auth_def Let_def
    by (intro emits_intro emits_bind [where R = "\<lambda>r es. (\<forall>d p q. EvFs (MkdirTemp d p) q \<notin> set es) \<and>
      (\<forall>name. EvFs (CreateTemp known_hosts_pattern) (Inr name) \<in> set es \<longrightarrow>
       (\<exists>h. r = Inr (h, Some name)) \<or> (\<exists>q. EvFs (Remove name) q \<in> set es))"])
      (auto split: sum.splits)
qed

lemma emits_cleanup_removes:
  "emits (cleanup E temp) (\<lambda>_ es. (\<forall>e\<in>set es. creates_nothing e) \<and>
    (\<forall>name. temp = Some name \<longrightarrow> (\<exists>q. EvFs (Remove name) q \<in> set es)))"
  unfolding cleanup_def by (intro emits_intro) auto

text \<open>
  C20. Nothing is left behind: the directory of every clone is removed and so is every
  known_hosts file, whether the write-back commits, fails at any step, or the editor
  panics.
\<close>

theorem apply_removes_temporaries:
  assumes "run_state (writer_apply E wr) w = (r, w')"
  shows "\<exists>es. w_trace w' = es @ w_trace w \<and> cleaned es"
proof -
  have "emits (writer_apply E wr) (\<lambda>_ es. cleaned es)"
    unfolding writer_apply_def
    apply (intro emits_intro emits_bind [OF writer_auth_created])
     apply (force simp: cleaned_def)
    apply (rule emits_bind [OF apply_attempts_cleaned])
    apply (rule emits_bind [OF emits_cleanup_removes])
    apply (rule emits_return)
    apply (unfold cleaned_def creates_nothing_def, clarsimp, blast)
    done
  from emits_run [OF this assms] show ?thesis by blast
qed

definition push_rejected :: "string \<Rightarrow> go_error" where
  "push_rejected name = Errorf (''non-fast-forward update: '' @ name)"

text \<open>
  A push that loses a race is retried only if its error is go-git's non-fast-forward
  sentinel. The error that go-git's push builds for a rejected reference is a fresh text
  error, so the three attempts of \<^verbatim>\<open>Apply\<close> are one: the first rejected push is the result.
\<close>

theorem rejected_push_is_not_retried:
  assumes "run_state (apply_once E wr auth url) w = (Fail e, w1)"
  shows "run_state (apply_attempts E wr auth url (Suc n)) w =
      (if errors_is e NonFastForwardUpdate then run_state (apply_attempts E wr auth url n) w1
       else (Fail e, w1)) \<and>
    (e = push_rejected name \<longrightarrow> run_state (apply_attempts E wr auth url (Suc n)) w = (Fail e, w1))"
  using assms by (simp add: push_rejected_def)

text \<open>
  The head that a remote check reports is the configured branch's own: it is the id of the
  reference \<^verbatim>\<open>refs/heads/<branch>\<close> in the remote's answer, and the check pushes nothing.
\<close>

theorem remote_head_is_branch_head:
  assumes "run_state (remote_head E wr) w = (Inr sha, w')"
  shows "\<exists>es auth url adv. w_trace w' = es @ w_trace w \<and> (\<forall>e\<in>set es. reads e) \<and>
    EvLsRemote auth url (Inr adv) \<in> set es \<and>
    \<lparr>ref_name = branch_ref (wb_branch (wr_spec wr)), ref_hash = sha\<rparr> \<in> set (adv_refs adv)"
proof -
  have find: "find_branch b refs = Some s \<Longrightarrow> \<lparr>ref_name = branch_ref b, ref_hash = s\<rparr> \<in> set refs" for b refs s
    by (auto simp: find_branch_def find_Some_iff) (metis git_ref.surjective nth_mem old.unit.exhaust)
  have "emits (remote_head E wr) (\<lambda>r es. (\<forall>e\<in>set es. reads e) \<and> (\<forall>s. r = Inr s \<longrightarrow>
      (\<exists>auth url adv. EvLsRemote auth url (Inr adv) \<in> set es \<and>
        \<lparr>ref_name = branch_ref (wb_branch (wr_spec wr)), ref_hash = s\<rparr> \<in> set (adv_refs adv))))"
    unfolding remote_head_def
    by (intro emits_intro emits_bind [OF emits_writer_auth] emits_bind [OF emits_cleanup])
      (fastforce simp: remote_list_def default_peeling_def dest: find split: sum.splits option.splits)+
  from emits_run [OF this assms] show ?thesis by blast
qed

text \<open>
  C37. A write never talks SSH to an unverified host unless that was asked for: a known-hosts entry
  in the credentials is always used, and host keys go unchecked only when it is missing and
  the credentials say so. An SSH key takes precedence over a token, a token over a user name
  and password, and both of those go over HTTPS for every ssh or scp-style remote.
\<close>

theorem writer_auth_policy:
  assumes "run_state (writer_auth E wr) w = (Inr (auth, repo, temp), w')"
  shows "case auth of
      SshKey k check \<Rightarrow> k = cred_ssh_key (wr_credentials wr) \<and> repo = wb_repo (wr_spec wr) \<and>
        (case check of
           InsecureHostKey \<Rightarrow> cred_insecure (wr_credentials wr) \<and> cred_known_hosts (wr_credentials wr) = ''''
         | KnownHosts hosts \<Rightarrow> cred_known_hosts (wr_credentials wr) \<noteq> '''')
    | HttpBasic user password \<Rightarrow> cred_ssh_key (wr_credentials wr) = '''' \<and>
        (if cred_token (wr_credentials wr) \<noteq> '''' then password = cred_token (wr_credentials wr)
         else user = cred_username (wr_credentials wr) \<and> password = cred_password (wr_credentials wr)) \<and>
        (if https_form (wb_repo (wr_spec wr)) then has_prefix repo ''https://'' else repo = wb_repo (wr_spec wr))
    | NoAuth \<Rightarrow> cred_ssh_key (wr_credentials wr) = '''' \<and> cred_token (wr_credentials wr) = ''''"
proof -
  have check: "case h of
      InsecureHostKey \<Rightarrow> insecure \<and> data = '''' | KnownHosts hosts \<Rightarrow> data \<noteq> ''''"
    if "run_state (host_key_callback E data insecure) v = (Inr (h, t), v')" for data insecure v h t v'
    using that by (auto simp: host_key_callback_def split: if_splits sum.splits prod.splits)
  from assms to_https_form [of "wb_repo (wr_spec wr)"] show ?thesis
    by (auto simp: writer_auth_def writer_https_eq Let_def dest!: check split: if_splits sum.splits prod.splits)
qed

section \<open>Witnesses\<close>

definition demo_writer :: writer where
  "demo_writer =
     \<lparr>wr_spec = \<lparr>wb_repo = ''git@h:o/r'', wb_branch = ''main'', wb_path = ''m.yaml'', wb_secret_name = ''s''\<rparr>,
      wr_credentials = \<lparr>cred_token = '''', cred_username = '''', cred_password = '''', cred_ssh_key = ''key'',
        cred_known_hosts = ''hosts'', cred_insecure = False\<rparr>,
      wr_targets = [demo_target ''x''], wr_data = [''tag'' \<mapsto> ''v2'']\<rparr>"

definition demo_fs :: "nat \<Rightarrow> fs_call \<Rightarrow> string result" where
  "demo_fs n c = (case c of
     ReadFile p \<Rightarrow> Inr demo_doc | MkdirTemp d p \<Rightarrow> Inr ''/tmp/c'' | CreateTemp p \<Rightarrow> Inr ''/tmp/kh'' | _ \<Rightarrow> Inr '''')"

definition demo_write_env :: "string result \<Rightarrow> env" where
  "demo_write_env push = demo_env\<lparr>env_fs := demo_fs, env_stat := demo_dir_stat,
     env_git := (\<lambda>n c. case c of GitPush d a \<Rightarrow> push | _ \<Rightarrow> Inr ''sha''),
     env_ls_remote := (\<lambda>n a u. Inr \<lparr>adv_refs = [\<lparr>ref_name = branch_ref ''main'', ref_hash = ''sha''\<rparr>],
       adv_peeled = []\<rparr>)\<rparr>"

lemma demo_paths:
  "safe_manifest_path ''.'' ''m.yaml'' = Inr (''m.yaml'', ''m.yaml'')"
  "safe_manifest_path ''/tmp/c'' ''m.yaml'' = Inr (''/tmp/c/m.yaml'', ''m.yaml'')"
  by code_simp+

lemma demo_clone_dir:
  "fst (run_state (new_clone_directory (demo_write_env p)) w) = Inr ''/tmp/c''"
  by (simp add: new_clone_directory_def ensure_temp_dir_def Let_def do_fs_def do_stat_def ask_def
      demo_write_env_def demo_fs_def demo_dir_stat_def check_temp_root_def demo_env_def)

lemma demo_apply_once:
  "fst (run_state (apply_once (demo_write_env p) demo_writer auth url) w) =
    (case p of Inl e \<Rightarrow> Fail e | Inr _ \<Rightarrow> Ok \<lparr>committed = True, commit_sha = ''sha''\<rparr>)"
proof -
  obtain w1 where d: "run_state (new_clone_directory (demo_write_env p)) w = (Inr ''/tmp/c'', w1)"
    using demo_clone_dir by (metis prod.collapse)
  have u: "update_manifest (lib_manifest (demo_write_env p)) demo_doc [demo_target ''x''] [''tag'' \<mapsto> ''v2''] =
      Ok (demo_doc_with ''v2'', True)"
    using demo_update by (simp add: demo_write_env_def demo_env_def)
  have g: "env_git (demo_write_env p) n c = (case c of GitPush d a \<Rightarrow> p | _ \<Rightarrow> Inr ''sha'')"
    "env_fs (demo_write_env p) n f = demo_fs n f" for n c f
    by (simp_all add: demo_write_env_def)
  show ?thesis
    by (simp add: apply_once_def demo_writer_def demo_paths d apply_in_clone_def clone_branch_def
        do_git_def do_fs_def ask_def g demo_fs_def Let_def u commit_and_push_def clock_def)
qed

lemma demo_writer_auth:
  "fst (run_state (writer_auth (demo_write_env p) demo_writer) w) =
    Inr (SshKey ''key'' (KnownHosts ''hosts''), ''git@h:o/r'', Some ''/tmp/kh'')"
  by (simp add: writer_auth_def demo_writer_def Let_def host_key_callback_def do_fs_def
      load_known_hosts_def ask_def demo_write_env_def demo_env_def demo_fs_def)

lemma demo_writer_apply:
  "fst (run_state (writer_apply (demo_write_env (Inr ok)) demo_writer) w) =
    Ok \<lparr>committed = True, commit_sha = ''sha''\<rparr>"
proof -
  obtain w1 where a: "run_state (writer_auth (demo_write_env (Inr ok)) demo_writer)
      (w\<lparr>w_trace := EvApply demo_writer # w_trace w\<rparr>) =
      (Inr (SshKey ''key'' (KnownHosts ''hosts''), ''git@h:o/r'', Some ''/tmp/kh''), w1)"
    using demo_writer_auth by (metis prod.collapse)
  obtain w2 where o: "run_state (apply_once (demo_write_env (Inr ok)) demo_writer
      (SshKey ''key'' (KnownHosts ''hosts'')) ''git@h:o/r'') w1 = (Ok \<lparr>committed = True, commit_sha = ''sha''\<rparr>, w2)"
    using demo_apply_once [of "Inr ok"] by (metis prod.collapse sum.case(2))
  show ?thesis
    by (simp add: writer_apply_def note_event_def a numeral_3_eq_3 o cleanup_def do_fs_def ask_def)
qed

theorem manifest_path_confined_witness:
  "safe_manifest_path ''/tmp/c'' ''apps/../prod/app.yaml'' = Inr (''/tmp/c/prod/app.yaml'', ''prod/app.yaml'') \<and>
   path_elements ''/tmp/c/prod/app.yaml'' = [''tmp'', ''c'', ''prod'', ''app.yaml''] \<and>
   (\<nexists>full clean. safe_manifest_path ''/tmp/c'' ''apps/../../etc/passwd'' = Inr (full, clean))"
proof -
  have s: "safe_manifest_path ''/tmp/c'' ''apps/../prod/app.yaml'' = Inr (''/tmp/c/prod/app.yaml'', ''prod/app.yaml'')"
    by code_simp
  have e: "manifest_elements ''apps/../prod/app.yaml'' = [''prod'', ''app.yaml'']"
    "clean_elements True (path_elements ''/tmp/c'') = [''tmp'', ''c'']" "is_abs ''/tmp/c''"
    "hd (manifest_elements ''apps/../../etc/passwd'') = ''..''" by code_simp+
  show ?thesis
    using manifest_path_confined [of "''/tmp/c''" "''apps/../prod/app.yaml''"]
      manifest_path_confined [of "''/tmp/c''" "''apps/../../etc/passwd''"] s e by simp
qed

theorem apply_reports_push_witness:
  "pushes (w_trace (snd (run_state (writer_apply (demo_write_env (Inr '''')) demo_writer) initial_world))) = 1"
proof -
  obtain w' where run: "run_state (writer_apply (demo_write_env (Inr '''')) demo_writer) initial_world =
      (Ok \<lparr>committed = True, commit_sha = ''sha''\<rparr>, w')"
    using demo_writer_apply by (metis prod.collapse)
  from apply_reports_push [OF run] run show ?thesis by (auto simp: initial_world_def reported_def)
qed

theorem apply_pushes_edited_manifest_witness:
  "commit_trace (demo_write_env (Inr '''')) demo_writer ''sha''
    (w_trace (snd (run_state (writer_apply (demo_write_env (Inr '''')) demo_writer) initial_world)))"
proof -
  obtain w' where run: "run_state (writer_apply (demo_write_env (Inr '''')) demo_writer) initial_world =
      (Ok \<lparr>committed = True, commit_sha = ''sha''\<rparr>, w')"
    using demo_writer_apply by (metis prod.collapse)
  from apply_pushes_edited_manifest [OF run] run show ?thesis by (simp add: initial_world_def)
qed

theorem apply_removes_temporaries_witness:
  "cleaned (w_trace (snd (run_state (writer_apply (demo_write_env (Inl (push_rejected ''main''))) demo_writer)
    initial_world)))"
proof -
  let ?m = "writer_apply (demo_write_env (Inl (push_rejected ''main''))) demo_writer"
  obtain r w' where run: "run_state ?m initial_world = (r, w')" by (cases "run_state ?m initial_world")
  from apply_removes_temporaries [OF run] run show ?thesis by (simp add: initial_world_def)
qed

theorem rejected_push_is_not_retried_witness:
  "fst (run_state (apply_attempts (demo_write_env (Inl (push_rejected ''main''))) demo_writer NoAuth ''u'' 3)
    initial_world) = Fail (push_rejected ''main'')"
proof -
  let ?E = "demo_write_env (Inl (push_rejected ''main''))"
  obtain w1 where once: "run_state (apply_once ?E demo_writer NoAuth ''u'') initial_world =
      (Fail (push_rejected ''main''), w1)"
    using demo_apply_once [of "Inl (push_rejected ''main'')"] by (metis prod.collapse sum.case(1))
  have three: "3 = Suc (2::nat)" by simp
  show ?thesis
    unfolding three using rejected_push_is_not_retried [OF once, of 2 "''main''", THEN conjunct2]
    by (simp del: apply_attempts.simps)
qed

theorem remote_head_is_branch_head_witness:
  "fst (run_state (remote_head (demo_write_env (Inr '''')) demo_writer) initial_world) = Inr ''sha'' \<and>
   (\<exists>e\<in>set (w_trace (snd (run_state (remote_head (demo_write_env (Inr '''')) demo_writer) initial_world))). reads e)"
proof -
  let ?m = "remote_head (demo_write_env (Inr '''')) demo_writer"
  obtain w1 where a: "run_state (writer_auth (demo_write_env (Inr '''')) demo_writer) initial_world =
      (Inr (SshKey ''key'' (KnownHosts ''hosts''), ''git@h:o/r'', Some ''/tmp/kh''), w1)"
    using demo_writer_auth by (metis prod.collapse)
  have "fst (run_state ?m initial_world) = Inr ''sha''"
    by (simp add: remote_head_def a ls_remote_def ask_def cleanup_def do_fs_def)
      (simp add: demo_write_env_def remote_list_def default_peeling_def find_branch_def demo_writer_def)
  then obtain w' where run: "run_state ?m initial_world = (Inr ''sha'', w')" by (metis prod.collapse)
  from remote_head_is_branch_head [OF run] run show ?thesis by (force simp: initial_world_def)
qed

theorem writer_auth_policy_witness:
  "\<exists>url w'. run_state (writer_auth demo_env (demo_writer\<lparr>wr_credentials := (wr_credentials demo_writer)\<lparr>cred_ssh_key := '''',
      cred_token := ''t''\<rparr>\<rparr>)) initial_world = (Inr (HttpBasic ''x-access-token'' ''t'', url, None), w') \<and> has_prefix url ''https://''"
proof -
  let ?wr = "demo_writer\<lparr>wr_credentials := (wr_credentials demo_writer)\<lparr>cred_ssh_key := '''', cred_token := ''t''\<rparr>\<rparr>"
  obtain url w' where run: "run_state (writer_auth demo_env ?wr) initial_world =
      (Inr (HttpBasic ''x-access-token'' ''t'', url, None), w')"
    by (simp add: writer_auth_def demo_writer_def Let_def)
  have "https_form (wb_repo (wr_spec ?wr))" by (simp add: demo_writer_def https_form_def has_prefix_def)
  with writer_auth_policy [OF run] run show ?thesis by simp
qed

end
