(* ===== verification/Demo_World.thy ===== *)
theory Demo_World
  imports Status_Report Secrets Argocd Writeback
begin

text \<open>
  A concrete world for the examples of the controller theories: a git repository with the tags
  \<^verbatim>\<open>v1\<close> and \<^verbatim>\<open>v2\<close>, a manifest, write-back credentials in a secret, an Argo CD
  application that is read as given, and a clock that stands still.
\<close>

section \<open>The manifest editor depends on the data only through the templates\<close>

lemma apply_patch_cong:
  "(\<And>t. lib_render L t d = lib_render L t d') \<Longrightarrow> apply_patch L d = apply_patch L d'"
  by (intro ext) (simp add: apply_patch_def)

lemma apply_patches_cong:
  "(\<And>t. lib_render L t d = lib_render L t d') \<Longrightarrow>
    apply_patches L d target root ps st = apply_patches L d' target root ps st"
  using apply_patch_cong [of L d d'] by (induction ps arbitrary: st) (simp_all add: obind_def split: outcome.split)

lemma apply_docs_cong:
  assumes "\<And>t. lib_render L t d = lib_render L t d'"
  shows "apply_docs L d target ds k st = apply_docs L d' target ds k st"
  by (induction ds arbitrary: k st)
    (simp_all add: apply_patches_cong [OF assms] obind_def split: sum.split outcome.split)

lemma apply_targets_cong:
  assumes "\<And>t. lib_render L t d = lib_render L t d'"
  shows "apply_targets L d ds ts st = apply_targets L d' ds ts st"
  by (induction ts arbitrary: st)
    (simp_all add: apply_docs_cong [OF assms] obind_def split: outcome.split prod.split)

lemma update_manifest_cong:
  assumes "\<And>t. lib_render L t d = lib_render L t d'"
  shows "update_manifest L i ts d = update_manifest L i ts d'"
proof -
  have "apply_targets L d = apply_targets L d'" by (intro ext) (rule apply_targets_cong [OF assms])
  then show ?thesis by (simp only: update_manifest_def)
qed

section \<open>The environment\<close>

text \<open>The tag \<^verbatim>\<open>v2\<close> was written and is watched, the health clock running or not.\<close>

definition demo_watched :: "time option \<Rightarrow> tag_updater" where
  "demo_watched since = (demo_updater ''a'')\<lparr>updater_status := empty_status\<lparr>last_tag := ''v2'',
     previous_tag := ''v1'', last_write_commit := ''sha'', observed_generation := 1,
     watching_tag := ''v2'', watching_commit := ''sha'', watching_armed_at := Some 100, watching_since := since\<rparr>\<rparr>"

lemma demo_watched_simps [simp]:
  "updater_spec (demo_watched since) = demo_spec"
  "meta_namespace (demo_watched since) = ''ns''"
  "watching_tag (updater_status (demo_watched since)) = ''v2''"
  "previous_tag (updater_status (demo_watched since)) = ''v1''"
  "watching_commit (updater_status (demo_watched since)) = ''sha''"
  "watching_armed_at (updater_status (demo_watched since)) = Some 100"
  "watching_since (updater_status (demo_watched since)) = since"
  by (simp_all add: demo_watched_def demo_updater_def)

definition demo_manifest :: manifest_lib where
  "demo_manifest = demo_lib\<lparr>lib_render := (\<lambda>t d. Inr (gomap_get d ''tag''))\<rparr>"

definition demo_remote :: advertised where
  "demo_remote = \<lparr>adv_refs = [\<lparr>ref_name = branch_ref ''main'', ref_hash = ''sha''\<rparr>,
     \<lparr>ref_name = ref_tag_prefix @ ''v1'', ref_hash = ''c1''\<rparr>,
     \<lparr>ref_name = ref_tag_prefix @ ''v2'', ref_hash = ''c2''\<rparr>], adv_peeled = []\<rparr>"

definition demo_secret :: strmap where
  "demo_secret = [''sshPrivateKey'' \<mapsto> ''key'', ''knownHosts'' \<mapsto> ''hosts'']"

definition demo_ctl_env :: "json result \<Rightarrow> time \<Rightarrow> env" where
  "demo_ctl_env app now = demo_env\<lparr>env_now := (\<lambda>n. now), env_fs := demo_fs, env_stat := demo_dir_stat,
     env_git := (\<lambda>n c. Inr ''sha''), env_ls_remote := (\<lambda>n a u. Inr demo_remote),
     env_get_updater := (\<lambda>n ns nm. Found (if nm = ''a'' then demo_updater ''a'' else demo_watched None)),
     env_secret := (\<lambda>n ns nm. Inr demo_secret), env_app := (\<lambda>n ns nm. app),
     lib_manifest := demo_manifest\<rparr>"

lemma demo_ctl_simps [simp]:
  "env_now (demo_ctl_env app now) n = now"
  "env_fs (demo_ctl_env app now) = demo_fs"
  "env_stat (demo_ctl_env app now) = demo_dir_stat"
  "env_git (demo_ctl_env app now) n c = Inr ''sha''"
  "env_ls_remote (demo_ctl_env app now) n a u = Inr demo_remote"
  "env_secret (demo_ctl_env app now) n ns nm = Inr demo_secret"
  "env_app (demo_ctl_env app now) n ns nm = app"
  "env_get_updater (demo_ctl_env app now) n ns nm = Found (if nm = ''a'' then demo_updater ''a'' else demo_watched None)"
  "env_list_updaters (demo_ctl_env app now) n = Inr []"
  "lib_manifest (demo_ctl_env app now) = demo_manifest"
  "env_var (demo_ctl_env app now) v = ''''"
  "env_euid (demo_ctl_env app now) = 0"
  "env_dynamic (demo_ctl_env app now) = True"
  "env_recorder (demo_ctl_env app now) = True"
  "env_known_hosts (demo_ctl_env app now) n f = Inr ''hosts''"
  "env_update_status (demo_ctl_env app now) n tu = Inr ()"
  "lib_compile (demo_ctl_env app now) p = Inr demo_regexp"
  "lib_sort (demo_ctl_env app now) = insertion_sort"
  "lib_ssh_key (demo_ctl_env app now) k = Inr ()"
  by (simp_all add: demo_ctl_env_def demo_env_def)

definition demo_credentials :: credentials where
  "demo_credentials = \<lparr>cred_token = '''', cred_username = '''', cred_password = '''', cred_ssh_key = ''key'',
     cred_known_hosts = ''hosts'', cred_insecure = False\<rparr>"

lemma demo_manifest_update:
  assumes "gomap_get d ''tag'' = v" and "v = ''v1'' \<or> v = ''v2''"
  shows "update_manifest demo_manifest demo_doc [demo_target ''x''] d = Ok (demo_doc_with v, True)"
proof -
  have "update_manifest demo_manifest demo_doc [demo_target ''x''] d =
      update_manifest demo_manifest demo_doc [demo_target ''x''] [''tag'' \<mapsto> v]"
    by (rule update_manifest_cong) (simp add: demo_manifest_def assms(1), simp add: gomap_get_def)
  moreover have "update_manifest demo_manifest demo_doc [demo_target ''x''] [''tag'' \<mapsto> ''v1''] = Ok (demo_doc_with ''v1'', True)"
    "update_manifest demo_manifest demo_doc [demo_target ''x''] [''tag'' \<mapsto> ''v2''] = Ok (demo_doc_with ''v2'', True)"
    by code_simp+
  ultimately show ?thesis using assms(2) by auto
qed

text \<open>Any writer with this secret and data for one of the tags commits and pushes.\<close>

definition demo_wr :: "strmap \<Rightarrow> writer" where
  "demo_wr d = \<lparr>wr_spec = spec_write_back demo_spec, wr_credentials = demo_credentials,
     wr_targets = [demo_target ''x''], wr_data = d\<rparr>"

lemma demo_ctl_clone:
  "fst (run_state (new_clone_directory (demo_ctl_env app now)) w) = Inr ''/tmp/c''"
  by (simp add: new_clone_directory_def ensure_temp_dir_def Let_def do_fs_def do_stat_def ask_def
      demo_fs_def demo_dir_stat_def check_temp_root_def)

lemma demo_ctl_apply_once:
  assumes "gomap_get d ''tag'' = v" and "v = ''v1'' \<or> v = ''v2''"
  shows "fst (run_state (apply_once (demo_ctl_env app now) (demo_wr d) auth url) w) =
    Ok \<lparr>committed = True, commit_sha = ''sha''\<rparr>"
proof -
  obtain w1 where c: "run_state (new_clone_directory (demo_ctl_env app now)) w = (Inr ''/tmp/c'', w1)"
    using demo_ctl_clone by (metis prod.collapse)
  note u = demo_manifest_update [OF assms]
  show ?thesis
    by (simp add: apply_once_def demo_wr_def demo_spec_def demo_paths c apply_in_clone_def clone_branch_def
        do_git_def do_fs_def ask_def demo_fs_def Let_def u commit_and_push_def clock_def)
qed

lemma demo_ctl_auth:
  "fst (run_state (writer_auth (demo_ctl_env app now) (demo_wr d)) w) =
    Inr (SshKey ''key'' (KnownHosts ''hosts''), ''git@h:o/r'', Some ''/tmp/kh'')"
  by (simp add: writer_auth_def demo_wr_def demo_credentials_def demo_spec_def Let_def host_key_callback_def
      do_fs_def load_known_hosts_def ask_def demo_fs_def)

lemma demo_ctl_apply:
  assumes "gomap_get d ''tag'' = v" and "v = ''v1'' \<or> v = ''v2''"
  shows "\<exists>w'. run_state (writer_apply (demo_ctl_env app now) (demo_wr d)) w =
    (Ok \<lparr>committed = True, commit_sha = ''sha''\<rparr>, w')"
proof -
  let ?E = "demo_ctl_env app now"
  note demo_ctl_auth
  then obtain w1 where a: "run_state (writer_auth ?E (demo_wr d)) (w\<lparr>w_trace := EvApply (demo_wr d) # w_trace w\<rparr>) =
      (Inr (SshKey ''key'' (KnownHosts ''hosts''), ''git@h:o/r'', Some ''/tmp/kh''), w1)"
    by (metis prod.collapse)
  obtain w2 where o2: "run_state (apply_once ?E (demo_wr d) (SshKey ''key'' (KnownHosts ''hosts'')) ''git@h:o/r'') w1 =
      (Ok \<lparr>committed = True, commit_sha = ''sha''\<rparr>, w2)"
    using demo_ctl_apply_once [OF assms] by (metis prod.collapse)
  show ?thesis
    by (simp add: writer_apply_def note_event_def a numeral_3_eq_3 o2 cleanup_def do_fs_def ask_def)
qed

section \<open>The release\<close>

lemma demo_refs: "remote_list default_peeling demo_remote = adv_refs demo_remote"
  by (simp add: remote_list_def default_peeling_def)

lemma demo_revs:
  "tag_revs_from_refs (adv_refs demo_remote) ''v1'' = Some ''c1''"
  "tag_revs_from_refs (adv_refs demo_remote) ''v2'' = Some ''c2''"
  "tag_names (adv_refs demo_remote) = [''v1'', ''v2'']"
  by code_simp+

definition demo_git_source :: git_source where
  "demo_git_source = \<lparr>gs_repo = ''git@h:o/app'', gs_ssh_key_file = '''', gs_token = '''',
     gs_known_hosts_file = '''', gs_insecure = False\<rparr>"

lemma demo_source_for:
  "source_for (demo_ctl_env app now) (spec_source demo_spec) auth =
    Inr (git_iface (demo_ctl_env app now) demo_git_source)"
proof -
  have "\<not> equal_fold '''' ''true''" by code_simp
  then show ?thesis by (simp add: source_for_def demo_spec_def demo_git_source_def)
qed

lemma demo_list_refs:
  "\<exists>w'. run_state (list_refs (demo_ctl_env app now) demo_git_source) w = (Inr (adv_refs demo_remote), w')"
  by (simp add: list_refs_def source_auth_def demo_git_source_def ls_remote_def ask_def demo_refs)

lemma demo_list_tags:
  "\<exists>w'. run_state (list_tags (git_iface (demo_ctl_env app now) demo_git_source)) w = (Ok [''v1'', ''v2''], w')"
  using demo_list_refs [of app now w] by (auto simp: git_iface_def git_tags_def demo_revs)

lemma demo_add_rev:
  assumes "tag = ''v1'' \<and> c = ''c1'' \<or> tag = ''v2'' \<and> c = ''c2''"
  shows "\<exists>w'. run_state (add_rev (demo_ctl_env app now) (git_iface (demo_ctl_env app now) demo_git_source) tag data) w =
    (Inr (data(''rev'' \<mapsto> c)), w')"
proof -
  let ?E = "demo_ctl_env app now"
  let ?m = "modify_rev_clock (\<lambda>first. if first = 0 then unix_nano now else first) id"
  obtain w1 where w1: "run_state ?m (w\<lparr>w_tick := Suc (w_tick w)\<rparr>) = ((), w1)"
    by (simp add: modify_rev_clock_def)
  obtain w2 where "run_state (list_refs ?E demo_git_source) w1 = (Inr (adv_refs demo_remote), w2)"
    using demo_list_refs by blast
  with w1 assms show ?thesis
    by (auto simp: add_rev_def git_iface_def git_tag_revs_def clock_def gomap_get_def demo_revs modify_rev_clock_def)
qed

lemma demo_record:
  "run_state (resolve_record p (git_iface E g) t data) w = (Inr data, w)"
  by (simp add: resolve_record_def git_iface_def)

lemma demo_secret_credentials:
  "\<exists>w'. run_state (resolve_write_back_credentials (demo_ctl_env app now) (demo_updater n)) w =
    (Inr demo_credentials, w')"
proof -
  have "secret_credentials demo_secret = demo_credentials" by code_simp
  moreover have "usable_credentials demo_credentials" by code_simp
  ultimately show ?thesis
    by (simp add: resolve_write_back_credentials_def demo_updater_def demo_spec_def Let_def get_secret_def ask_def)
qed

lemma demo_sort: "slice_sort (lib_sort (demo_ctl_env app now))"
  by (simp add: small.slice_sort_axioms)

end
