(* ===== verification/Rollback.thy ===== *)
theory Rollback
  imports Demo_World
begin

text \<open>
  Health-gated rollback (\<^verbatim>\<open>checkHealthAndMaybeRollback\<close>, \<^verbatim>\<open>rollbackTimeout\<close>,
  \<^verbatim>\<open>observationDeadlineExceeded\<close>, \<^verbatim>\<open>abandonWatch\<close>, \<^verbatim>\<open>revisionObserver\<close>,
  \<^verbatim>\<open>rollbackWithStatus\<close>, \<^verbatim>\<open>doRollback\<close> of
  \<^verbatim>\<open>internal/controller/tagupdater_controller.go\<close>): the state machine of a written tag
  that is watched until it is healthy, rolled back, or given up. A pointer argument is
  returned updated.
\<close>

section \<open>The watch\<close>

definition rollback_on :: "tag_updater \<Rightarrow> bool" where
  "rollback_on tu = (case spec_rollback (updater_spec tu) of None \<Rightarrow> False | Some rb \<Rightarrow> rollback_enabled rb)"

definition default_rollback_timeout :: duration where
  "default_rollback_timeout = 20 * minute"

definition rollback_timeout :: "tag_updater \<Rightarrow> duration" where
  "rollback_timeout tu =
     (case spec_rollback (updater_spec tu) of
        Some rb \<Rightarrow> if 0 < rollback_timeout_spec rb then rollback_timeout_spec rb else default_rollback_timeout
      | None \<Rightarrow> default_rollback_timeout)"

definition observation_deadline_exceeded :: "env \<Rightarrow> tag_updater \<Rightarrow> bool io" where
  "observation_deadline_exceeded E tu =
     (case watching_armed_at (updater_status tu) of
        None \<Rightarrow> ret False
      | Some armed \<Rightarrow> do { now \<leftarrow> clock E; ret (rollback_timeout tu \<le> time_sub now armed) })"

definition revision_observer :: "tag_updater \<Rightarrow> argocd_app_ref option" where
  "revision_observer tu =
     (case spec_managing_app (updater_spec tu) of
        Some a \<Rightarrow> Some a
      | None \<Rightarrow> spec_argocd_app (updater_spec tu))"

definition clear_watch :: "updater_status \<Rightarrow> updater_status" where
  "clear_watch st = st\<lparr>watching_tag := '''', watching_commit := '''', watching_armed_at := None,
     watching_since := None\<rparr>"

text \<open>A handler's answer: the updater as it leaves it, and the error of the last call.\<close>

type_synonym saved = "(tag_updater \<times> go_error option) outcome"

definition save_status :: "env \<Rightarrow> tag_updater \<Rightarrow> saved io" where
  "save_status E tu = do {
     r \<leftarrow> update_status E tu;
     ret (Ok (tu, case r of Inl e \<Rightarrow> Some e | Inr _ \<Rightarrow> None)) }"

definition abandon_watch :: "env \<Rightarrow> tag_updater \<Rightarrow> saved io" where
  "abandon_watch E tu =
     (case revision_observer tu of
        None \<Rightarrow> ret (Abort (Panic ''invalid memory address or nil pointer dereference''))
      | Some observer \<Rightarrow>
          (let st = updater_status tu;
               message = ''ArgoCD application '' @ app_name observer @ '' did not report commit '' @
                 watching_commit st @ '' within '' @ lib_duration_text E (rollback_timeout tu) @
                 ''; abandoning health watch for tag '' @ watching_tag st @
                 '' so tag updates resume (check the application exists, its repo credentials, and that it tracks branch '' @
                 wb_branch (spec_write_back (updater_spec tu)) @ '')''
           in do {
             tu1 \<leftarrow> set_condition E (with_status clear_watch tu)
               (mk_condition ''RollbackReady'' ConditionFalse ''CommitNeverObserved'' message);
             tu2 \<leftarrow> set_condition E tu1 (mk_condition ''Ready'' ConditionFalse ''CommitNeverObserved'' message);
             _ \<leftarrow> record_event E True ''CommitNeverObserved'' message;
             save_status E tu2 }))"

section \<open>Writing the previous tag back\<close>

definition writer_for :: "tag_updater \<Rightarrow> credentials \<Rightarrow> strmap \<Rightarrow> writer" where
  "writer_for tu c data =
     \<lparr>wr_spec = spec_write_back (updater_spec tu), wr_credentials = c,
      wr_targets = spec_targets (updater_spec tu), wr_data = data\<rparr>"

definition rollback_digest :: "tag_updater \<Rightarrow> strmap \<Rightarrow> strmap result" where
  "rollback_digest tu data =
     (if resolve_digest (spec_source (updater_spec tu)) then
        (if \<not> valid_digest (previous_image_digest (updater_status tu))
         then Inl (Errorf ''rollback requires recorded previous image digest'')
         else Inr (data(''image_digest'' \<mapsto> previous_image_digest (updater_status tu))))
      else Inr data)"

definition rollback_data :: "env \<Rightarrow> tag_updater \<Rightarrow> string \<Rightarrow> strmap result io" where
  "rollback_data E tu previous =
     (let source = spec_source (updater_spec tu) in
      case matcher_new (lib_compile E) (tag_pattern source) of
        Inl e \<Rightarrow> ret (Inl e)
      | Inr re \<Rightarrow>
          (case latest (lib_sort E) re [previous] of
             None \<Rightarrow> ret (Inl (Errorf (''previous tag '' @ previous @ '' no longer matches spec.source.tagPattern'')))
           | Some m \<Rightarrow>
               (case source_for E source '''' of
                  Inl e \<Rightarrow> ret (Inl e)
                | Inr src \<Rightarrow> do {
                    r \<leftarrow> resolve_record ''rollback tag '' src previous (base_data m (source_repo source));
                    case r of
                      Inl e \<Rightarrow> ret (Inl e)
                    | Inr data \<Rightarrow> do {
                        v \<leftarrow> add_rev E src previous data;
                        ret (rbind v (rollback_digest tu)) } })))"

text \<open>No previous tag: the bad tag is skipped and the watch ends.\<close>

definition rollback_unavailable :: "env \<Rightarrow> tag_updater \<Rightarrow> saved io" where
  "rollback_unavailable E tu =
     (let bad = watching_tag (updater_status tu);
          message = ''tag '' @ bad @ '' failed but no previous tag is available to write back''
      in do {
        tu1 \<leftarrow> set_condition E (with_status (\<lambda>st. clear_watch st\<lparr>skipped_tags :=
                 append_unique (skipped_tags st) bad\<rparr>) tu)
               (mk_condition ''Ready'' ConditionFalse ''RollbackUnavailable'' message);
        tu2 \<leftarrow> set_condition E tu1 (mk_condition ''RollbackReady'' ConditionFalse ''NoPreviousTag'' message);
        save_status E tu2 })"

definition rolled_back :: "time \<Rightarrow> tag_updater \<Rightarrow> strmap \<Rightarrow> string \<Rightarrow> tag_updater" where
  "rolled_back now tu data commit =
     with_status (\<lambda>st. (clear_watch st)\<lparr>last_tag := previous_tag st,
        last_image_digest := gomap_get data ''image_digest'',
        observed_generation := meta_generation tu, last_updated := Some now, last_write_commit := commit,
        skipped_tags := append_unique (skipped_tags st) (watching_tag st)\<rparr>) tu"

definition finish_rollback :: "env \<Rightarrow> tag_updater \<Rightarrow> strmap \<Rightarrow> write_result \<Rightarrow> saved io" where
  "finish_rollback E tu data result =
     (let st = updater_status tu;
          message = ''tag '' @ watching_tag st @ '' failed; wrote previous tag '' @ previous_tag st @ '' to git'' @
            (if committed result then '''' else '' (manifest was already rolled back; no commit created)'')
      in do {
        now \<leftarrow> clock E;
        tu1 \<leftarrow> set_condition E (rolled_back now tu data (commit_sha result))
          (mk_condition ''Ready'' ConditionFalse ''RolledBack'' message);
        tu2 \<leftarrow> set_condition E tu1 (mk_condition ''RollbackReady'' ConditionTrue ''RollbackWritten'' message);
        _ \<leftarrow> record_event E True ''RolledBack'' message;
        save_status E tu2 })"

definition do_rollback :: "env \<Rightarrow> tag_updater \<Rightarrow> saved io" where
  "do_rollback E tu =
     (let bad = watching_tag (updater_status tu); previous = previous_tag (updater_status tu) in
      if previous = '''' \<or> previous = bad then rollback_unavailable E tu
      else do {
        d \<leftarrow> rollback_data E tu previous;
        case d of
          Inl e \<Rightarrow> ret (Ok (tu, Some e))
        | Inr data \<Rightarrow> do {
            c \<leftarrow> resolve_write_back_credentials E tu;
            case c of
              Inl e \<Rightarrow> ret (Ok (tu, Some e))
            | Inr cred \<Rightarrow> do {
                r \<leftarrow> writer_apply E (writer_for tu cred data);
                case r of
                  Ok result \<Rightarrow> finish_rollback E tu data result
                | Fail e \<Rightarrow> ret (Ok (tu, Some e))
                | Abort a \<Rightarrow> ret (Abort a) } } })"

definition rollback_with_status :: "env \<Rightarrow> tag_updater \<Rightarrow> saved io" where
  "rollback_with_status E tu = do {
     r \<leftarrow> do_rollback E tu;
     case r of
       Ok (tu1, Some e) \<Rightarrow> do {
         tu2 \<leftarrow> set_condition E tu1 (mk_condition ''RollbackReady'' ConditionFalse ''RollbackWriteFailed'' (error_text e));
         _ \<leftarrow> update_status E tu2;
         _ \<leftarrow> record_event E True ''RollbackWriteFailed'' (error_text e);
         ret (Ok (tu2, Some e)) }
     | _ \<Rightarrow> ret r }"

section \<open>Checking the health\<close>

text \<open>The requeue delay (0: go on with this reconcile) and the error, with the updater left.\<close>

type_synonym health_reply = "(tag_updater \<times> duration \<times> go_error option) outcome"

definition watch_poll :: duration where "watch_poll = 15 * second"

definition no_requeue :: "saved \<Rightarrow> health_reply" where
  "no_requeue s = (case s of Ok (tu, e) \<Rightarrow> Ok (tu, 0, e) | Fail e \<Rightarrow> Fail e | Abort a \<Rightarrow> Abort a)"

text \<open>Waiting for the commit to be observed: go on with the updater, or answer.\<close>

definition await_observation :: "env \<Rightarrow> tag_updater \<Rightarrow> argocd_state \<Rightarrow> (health_reply + tag_updater) io" where
  "await_observation E tu revision_state =
     (let st = updater_status tu in
      if watching_since st \<noteq> None then ret (Inr tu)
      else if \<not> observes revision_state (watching_commit st) (watching_armed_at st) then do {
        late \<leftarrow> observation_deadline_exceeded E tu;
        if late then do { s \<leftarrow> abandon_watch E tu; ret (Inl (no_requeue s)) }
        else ret (Inl (Ok (tu, watch_poll, None))) }
      else do {
        now \<leftarrow> clock E;
        s \<leftarrow> save_status E (with_status (\<lambda>st. st\<lparr>watching_since := Some now\<rparr>) tu);
        ret (case s of
          Ok (tu1, None) \<Rightarrow> Inr tu1
        | Ok (tu1, Some e) \<Rightarrow> Inl (Ok (tu1, 0, Some e))
        | Fail e \<Rightarrow> Inl (Fail e)
        | Abort a \<Rightarrow> Inl (Abort a)) })"

definition healthy_status :: "updater_status \<Rightarrow> updater_status" where
  "healthy_status st = (clear_watch st)\<lparr>skipped_tags := []\<rparr>"

definition judge_health :: "env \<Rightarrow> tag_updater \<Rightarrow> argocd_state \<Rightarrow> health_reply io" where
  "judge_health E tu state =
     (if app_health state = ''Healthy'' then do {
        tu1 \<leftarrow> set_condition E (with_status healthy_status tu)
          (mk_condition ''RollbackReady'' ConditionTrue ''DeploymentHealthy'' ''ArgoCD reports the written commit Healthy'');
        s \<leftarrow> save_status E tu1;
        ret (no_requeue s) }
      else if app_health state = ''Degraded'' \<and> \<not> sync_in_flight state then do {
        s \<leftarrow> rollback_with_status E tu;
        ret (no_requeue s) }
      else case watching_since (updater_status tu) of
        None \<Rightarrow> ret (Abort (Panic ''invalid memory address or nil pointer dereference''))
      | Some since \<Rightarrow> do {
          now \<leftarrow> clock E;
          if rollback_timeout tu \<le> time_sub now since then do {
            s \<leftarrow> rollback_with_status E tu;
            ret (no_requeue s) }
          else ret (Ok (tu, watch_poll, None)) })"

definition health_unreadable :: "env \<Rightarrow> tag_updater \<Rightarrow> go_error \<Rightarrow> tag_updater io" where
  "health_unreadable E tu e = do {
     tu1 \<leftarrow> set_condition E tu (mk_condition ''RollbackReady'' ConditionFalse ''HealthReadFailed'' (error_text e));
     _ \<leftarrow> update_status E tu1;
     ret tu1 }"

definition check_health :: "env \<Rightarrow> tag_updater \<Rightarrow> health_reply io" where
  "check_health E tu = do {
     rs \<leftarrow> argocd_app_state E (revision_observer tu);
     case rs of
       Inl e \<Rightarrow> do {
         tu1 \<leftarrow> health_unreadable E tu e;
         _ \<leftarrow> record_event E True ''HealthReadFailed'' (error_text e);
         ret (Ok (tu1, watch_poll, None)) }
     | Inr revision_state \<Rightarrow> do {
         o1 \<leftarrow> await_observation E tu revision_state;
         case o1 of
           Inl answer \<Rightarrow> ret answer
         | Inr tu1 \<Rightarrow> do {
             s \<leftarrow> argocd_app_state E (spec_argocd_app (updater_spec tu1));
             case s of
               Inl e \<Rightarrow> do {
                 tu2 \<leftarrow> health_unreadable E tu1 e;
                 ret (Ok (tu2, watch_poll, None)) }
             | Inr state \<Rightarrow> judge_health E tu1 state } } }"

section \<open>Invariants\<close>

text \<open>Ready is True only with the report of the recorded tag.\<close>

definition names_tag :: "string \<Rightarrow> verdict option \<Rightarrow> bool" where
  "names_tag tag v \<longleftrightarrow>
     (case v of
        None \<Rightarrow> True
      | Some (status, reason, message) \<Rightarrow>
          status = ConditionTrue \<longrightarrow> reason = ''WrittenToGit'' \<and> message = present_message tag)"

definition ready_ok :: "updater_status \<Rightarrow> bool" where
  "ready_ok st \<longleftrightarrow> names_tag (last_tag st) (verdict_of (conditions st) ''Ready'')"

text \<open>
  A stored status: a watch is armed exactly when a tag is watched, and without one no commit
  and no health clock remain; skipped tags and condition types do not repeat; Ready names the
  recorded tag.
\<close>

definition watch_ok :: "updater_status \<Rightarrow> bool" where
  "watch_ok st \<longleftrightarrow>
     (watching_tag st = '''' \<longleftrightarrow> watching_armed_at st = None) \<and>
     (watching_tag st = '''' \<longrightarrow> watching_commit st = '''' \<and> watching_since st = None) \<and>
     distinct (skipped_tags st) \<and> single_conditions (conditions st)"

definition status_ok :: "updater_status \<Rightarrow> bool" where
  "status_ok st \<longleftrightarrow> watch_ok st \<and> ready_ok st"

definition same_object :: "tag_updater \<Rightarrow> tag_updater \<Rightarrow> bool" where
  "same_object tu tu' \<longleftrightarrow>
     meta_name tu' = meta_name tu \<and> meta_namespace tu' = meta_namespace tu \<and>
     meta_generation tu' = meta_generation tu \<and> updater_spec tu' = updater_spec tu"

text \<open>What every updater that a reconcile of \<open>tu\<close> stores satisfies, \<open>A\<close> permitting.\<close>

definition kept :: "bool \<Rightarrow> tag_updater \<Rightarrow> tag_updater \<Rightarrow> bool" where
  "kept A tu tu' \<longleftrightarrow> same_object tu tu' \<and> (A \<longrightarrow> status_ok (updater_status tu'))"

text \<open>
  The events of a handler: stored updaters satisfy \<open>I\<close>, applied writers satisfy \<open>W\<close>, and a
  manifest is only written with what the editor made of some input for such a writer. The lock taken
  at start-up is not released.
\<close>

definition edited_for :: "env \<Rightarrow> (writer \<Rightarrow> bool) \<Rightarrow> string \<Rightarrow> bool" where
  "edited_for E W content \<longleftrightarrow>
     (\<exists>wr input. W wr \<and> update_manifest (lib_manifest E) input (wr_targets wr) (wr_data wr) = Ok (content, True))"

fun ctl_event :: "env \<Rightarrow> (tag_updater \<Rightarrow> bool) \<Rightarrow> (writer \<Rightarrow> bool) \<Rightarrow> event \<Rightarrow> bool" where
  "ctl_event E I W (EvStatusUpdate tu r) = I tu"
| "ctl_event E I W (EvApply wr) = W wr"
| "ctl_event E I W (EvFs (WriteFile f c) r) = edited_for E W c"
| "ctl_event E I W (EvFs (Funlock fd) r) = False"
| "ctl_event E I W (EvFs (CloseFd fd) r) = False"
| "ctl_event E I W _ = True"

lemma same_object_refl [simp]: "same_object tu tu"
  by (simp add: same_object_def)

lemma same_object_trans: "same_object a b \<Longrightarrow> same_object b c \<Longrightarrow> same_object a c"
  by (simp add: same_object_def)

lemma same_object_put [simp]: "same_object tu (put_condition now c tu') = same_object tu tu'"
  by (simp add: same_object_def put_condition_def)

lemma same_object_with_status [simp]: "same_object tu (with_status f tu') = same_object tu tu'"
  by (simp add: same_object_def with_status_def)

lemma updater_status_with_status [simp]: "updater_status (with_status f tu) = f (updater_status tu)"
  by (simp add: with_status_def)

lemma ready_ok_cong [simp]:
  "ready_ok (clear_watch st) = ready_ok st"
  "ready_ok (healthy_status st) = ready_ok st"
  "ready_ok (st\<lparr>skipped_tags := ts\<rparr>) = ready_ok st"
  "ready_ok (st\<lparr>watching_since := s\<rparr>) = ready_ok st"
  "ready_ok (st\<lparr>watching_tag := t\<rparr>) = ready_ok st"
  "ready_ok (st\<lparr>watching_commit := c\<rparr>) = ready_ok st"
  "ready_ok (st\<lparr>watching_armed_at := a\<rparr>) = ready_ok st"
  by (simp_all add: ready_ok_def clear_watch_def healthy_status_def)

lemma ready_ok_put:
  "ready_ok (updater_status (put_condition now c tu)) =
    (if cond_type c = ''Ready''
     then cond_status c = ConditionTrue \<longrightarrow>
       cond_reason c = ''WrittenToGit'' \<and> cond_message c = present_message (last_tag (updater_status tu))
     else ready_ok (updater_status tu))"
  by (simp add: ready_ok_def put_condition_def board.verdict_put) (simp add: names_tag_def)

lemma watch_ok_put [simp]: "watch_ok (updater_status tu) \<Longrightarrow> watch_ok (updater_status (put_condition now c tu))"
  by (simp add: watch_ok_def put_condition_def board.single_put)

lemma status_ok_put [simp]:
  "status_ok (updater_status tu) \<Longrightarrow> \<not> says_ready c \<Longrightarrow> status_ok (updater_status (put_condition now c tu))"
  by (simp add: status_ok_def ready_ok_put says_ready_def)

lemma last_tag_put [simp]: "last_tag (updater_status (put_condition now c tu)) = last_tag (updater_status tu)"
  by (simp add: put_condition_def)

lemma kept_refl: "status_ok (updater_status tu) \<or> \<not> A \<Longrightarrow> kept A tu tu"
  by (auto simp: kept_def)

lemma kept_put: "kept A tu tu' \<Longrightarrow> \<not> says_ready c \<Longrightarrow> kept A tu (put_condition now c tu')"
  by (simp add: kept_def)

lemma kept_with_status:
  "kept A tu tu' \<Longrightarrow> (status_ok (updater_status tu') \<Longrightarrow> status_ok (f (updater_status tu'))) \<Longrightarrow>
    kept A tu (with_status f tu')"
  by (simp add: kept_def)

lemma reads_ctl: "reads e \<Longrightarrow> ctl_event E I W e"
  by (cases "(E, I, W, e)" rule: ctl_event.cases) auto

lemma stores_kept: "stores (kept A tu) (ctl_event E (kept A tu) W)"
  by (simp add: stores_def keeps_conditions_def kept_put reads_ctl)

lemma ensures_reads_ctl: "ensures reads m Q \<Longrightarrow> ensures (ctl_event E I W) m Q"
  by (erule ensures_weaken) (auto intro: reads_ctl)

lemma ensures_ctl_weaken:
  "ensures (ctl_event E I W) m Q \<Longrightarrow> (\<And>tu. I tu \<Longrightarrow> I' tu) \<Longrightarrow> (\<And>wr. W wr \<Longrightarrow> W' wr) \<Longrightarrow>
    (\<And>x. Q x \<Longrightarrow> Q' x) \<Longrightarrow> ensures (ctl_event E I' W') m Q'"
  by (erule ensures_weaken) (fastforce elim!: ctl_event.elims simp: edited_for_def, simp)

text \<open>Applying a writer is one note and calls that neither store nor apply.\<close>

lemma ensures_writer_auth: "ensures reads (writer_auth E wr) (\<lambda>_. True)"
  unfolding writer_auth_def host_key_callback_def Let_def
  by (intro ensures_intro ensures_bind_any TrueI) simp_all

lemma ensures_new_clone: "ensures reads (new_clone_directory E) (\<lambda>_. True)"
  by (rule ensures_weaken [OF new_clone_directory_quiet]) auto

lemma ensures_apply_once:
  assumes "W wr"
  shows "ensures (ctl_event E I W) (apply_once E wr auth url) (\<lambda>_. True)"
  unfolding apply_once_def apply_in_clone_def clone_branch_def head_result_def commit_and_push_def Let_def
  by (intro ensures_intro ensures_bind_any ensures_reads_ctl [OF ensures_new_clone] TrueI)
    (auto simp: edited_for_def intro: assms)

lemma ensures_apply_attempts:
  assumes "W wr"
  shows "ensures (ctl_event E I W) (apply_attempts E wr auth url n) (\<lambda>_. True)"
proof (induction n)
  case 0
  then show ?case by (simp add: ensures_return)
next
  case (Suc n)
  then show ?case
    unfolding apply_attempts.simps
    by (intro ensures_intro ensures_bind_any ensures_apply_once assms TrueI)
qed

lemma ensures_writer_apply: "W wr \<Longrightarrow> ensures (ctl_event E I W) (writer_apply E wr) (\<lambda>_. True)"
  unfolding writer_apply_def cleanup_def
  by (intro ensures_intro ensures_bind_any ensures_reads_ctl [OF ensures_writer_auth]
      ensures_apply_attempts TrueI) simp_all

section \<open>What rollback writes and stores\<close>

fun saved_ok :: "(tag_updater \<Rightarrow> bool) \<Rightarrow> saved \<Rightarrow> bool" where
  "saved_ok I (Ok (tu, e)) = I tu"
| "saved_ok I _ = True"

fun health_ok :: "(tag_updater \<Rightarrow> bool) \<Rightarrow> health_reply \<Rightarrow> bool" where
  "health_ok I (Ok (tu, d, e)) = I tu"
| "health_ok I _ = True"

lemma health_ok_no_requeue: "saved_ok I s \<Longrightarrow> health_ok I (no_requeue s)"
  by (cases "(I, s)" rule: saved_ok.cases) (auto simp: no_requeue_def)

lemma ensures_save_status:
  "I tu \<Longrightarrow> ensures (ctl_event E I W) (save_status E tu) (saved_ok I)"
  unfolding save_status_def by (intro ensures_bind_any ensures_intro) auto

lemma ensures_set_kept:
  "kept A tu0 tu \<Longrightarrow> \<not> says_ready c \<Longrightarrow> ensures (ctl_event E (kept A tu0) W) (set_condition E tu c) (kept A tu0)"
  by (rule ensures_set_condition [OF stores_kept])

lemma status_ok_clear:
  "status_ok st \<Longrightarrow> status_ok (clear_watch st)"
  "status_ok st \<Longrightarrow> status_ok (clear_watch st\<lparr>skipped_tags := append_unique (skipped_tags st) t\<rparr>)"
  "status_ok st \<Longrightarrow> status_ok (healthy_status st)"
  by (simp_all add: status_ok_def watch_ok_def clear_watch_def healthy_status_def append_unique_distinct)

lemma ensures_abandon_watch:
  assumes "kept A tu0 tu"
  shows "ensures (ctl_event E (kept A tu0) W) (abandon_watch E tu) (saved_ok (kept A tu0))"
  unfolding abandon_watch_def Let_def
  using assms
  by (intro ensures_intro ensures_bind_any [OF ensures_record]
      ensures_bind [OF ensures_set_kept] ensures_save_status kept_with_status status_ok_clear) auto

text \<open>
  Template data fit to be written for a tag: it names that tag, the tag matches the pattern,
  and a Git release has its revision. A writer is pinned when its data is fit and, if the
  updater asks for digests, holds a valid one.
\<close>

definition fit_data :: "env \<Rightarrow> tag_updater \<Rightarrow> string \<Rightarrow> strmap \<Rightarrow> bool" where
  "fit_data E tu tag data \<longleftrightarrow>
     data ''tag'' = Some tag \<and>
     (\<exists>re. lib_compile E (tag_pattern (spec_source (updater_spec tu))) = Inr re \<and> find_submatch re tag \<noteq> None) \<and>
     (source_type (spec_source (updater_spec tu)) = SourceTypeGit \<longrightarrow> gomap_get data ''rev'' \<noteq> '''')"

definition digest_fit :: "tag_updater \<Rightarrow> strmap \<Rightarrow> bool" where
  "digest_fit tu data \<longleftrightarrow>
     (resolve_digest (spec_source (updater_spec tu)) \<longrightarrow> valid_digest (gomap_get data ''image_digest''))"

definition pinned :: "env \<Rightarrow> tag_updater \<Rightarrow> writer \<Rightarrow> bool" where
  "pinned E tu wr \<longleftrightarrow>
     wr_spec wr = spec_write_back (updater_spec tu) \<and> wr_targets wr = spec_targets (updater_spec tu) \<and>
     (\<exists>tag. fit_data E tu tag (wr_data wr)) \<and> digest_fit tu (wr_data wr)"

lemma kept_pinned: "kept A tu0 tu \<Longrightarrow> pinned E tu wr \<longleftrightarrow> pinned E tu0 wr"
  unfolding pinned_def fit_data_def digest_fit_def kept_def same_object_def by (elim conjE) (simp only:)

lemma writer_for_simps [simp]:
  "wr_spec (writer_for tu c d) = spec_write_back (updater_spec tu)"
  "wr_targets (writer_for tu c d) = spec_targets (updater_spec tu)"
  "wr_data (writer_for tu c d) = d"
  by (simp_all add: writer_for_def)

text \<open>The steps a forward write and a rollback share.\<close>

lemma ensures_resolve_record:
  assumes "source_for E source auth = Inr src" and "data ''tag'' = Some tag"
  shows "ensures reads (resolve_record purpose src t data) (\<lambda>r. \<forall>d. r = Inr d \<longrightarrow> d ''tag'' = Some tag)"
proof -
  have "''tag'' \<notin> record_fields" by (simp add: record_fields_def)
  then show ?thesis
    by (intro ensures_weaken [OF release_source.resolve_record_frame [OF source_for_release [OF assms(1)]]])
      (use assms(2) in \<open>simp, metis\<close>)
qed

lemma ensures_add_rev:
  assumes src: "source_for E (spec_source (updater_spec tu)) auth = Inr src" and "data ''tag'' = Some tag"
    and "lib_compile E (tag_pattern (spec_source (updater_spec tu))) = Inr re" and "find_submatch re tag \<noteq> None"
  shows "ensures reads (add_rev E src t data) (\<lambda>r. \<forall>d. r = Inr d \<longrightarrow> fit_data E tu tag d)"
  by (rule ensures_weaken [OF release_source.add_rev_frame [OF source_for_release [OF src]]])
    (use assms source_for_revisions [OF src] in \<open>auto simp: fit_data_def gomap_get_def\<close>)

lemma fit_data_digest: "fit_data E tu tag data \<Longrightarrow> fit_data E tu tag (data(''image_digest'' \<mapsto> d))"
  by (simp add: fit_data_def gomap_get_def)

lemma rollback_digest_fit:
  "rollback_digest tu data = Inr d \<Longrightarrow> fit_data E tu tag data \<Longrightarrow>
    fit_data E tu tag d \<and> digest_fit tu d \<and>
    (resolve_digest (spec_source (updater_spec tu)) \<longrightarrow>
      d ''image_digest'' = Some (previous_image_digest (updater_status tu)))"
  by (auto simp: rollback_digest_def digest_fit_def gomap_get_def fit_data_digest split: if_splits)

text \<open>What a rollback writes: the previous tag, and its recorded digest if digests are resolved.\<close>

definition restores :: "env \<Rightarrow> tag_updater \<Rightarrow> strmap \<Rightarrow> bool" where
  "restores E tu data \<longleftrightarrow>
     fit_data E tu (previous_tag (updater_status tu)) data \<and> digest_fit tu data \<and>
     (resolve_digest (spec_source (updater_spec tu)) \<longrightarrow>
       data ''image_digest'' = Some (previous_image_digest (updater_status tu)))"

lemma ensures_rollback_data:
  assumes srt: "slice_sort (lib_sort E)"
  shows "ensures reads (rollback_data E tu (previous_tag (updater_status tu)))
    (\<lambda>r. \<forall>d. r = Inr d \<longrightarrow> restores E tu d)"
proof -
  let ?p = "previous_tag (updater_status tu)" and ?s = "spec_source (updater_spec tu)"
  have step: "ensures reads (do {
        r \<leftarrow> resolve_record ''rollback tag '' src ?p (base_data m (source_repo ?s));
        case r of
          Inl e \<Rightarrow> ret (Inl e)
        | Inr data \<Rightarrow> do { v \<leftarrow> add_rev E src ?p data; ret (rbind v (rollback_digest tu)) } })
      (\<lambda>r. \<forall>d. r = Inr d \<longrightarrow> restores E tu d)"
    if c: "matcher_new (lib_compile E) (tag_pattern ?s) = Inr re" and l: "latest (lib_sort E) re [?p] = Some m"
      and src: "source_for E ?s '''' = Inr src" for re m src
  proof -
    have re: "lib_compile E (tag_pattern ?s) = Inr re"
      using c by (simp add: matcher_new_def result_iff)
    have m: "match_tag m = ?p" "find_submatch re ?p \<noteq> None"
      using latest_in [OF srt l] by (auto simp: match_all_set)
    show ?thesis
    proof (rule ensures_bind [OF ensures_resolve_record [OF src, of _ ?p]])
      show "base_data m (source_repo ?s) ''tag'' = Some ?p" by (simp add: m)
      show "ensures reads (case r of Inl e \<Rightarrow> ret (Inl e)
          | Inr data \<Rightarrow> do { v \<leftarrow> add_rev E src ?p data; ret (rbind v (rollback_digest tu)) })
        (\<lambda>r. \<forall>d. r = Inr d \<longrightarrow> restores E tu d)" if r: "\<forall>d. r = Inr d \<longrightarrow> d ''tag'' = Some ?p" for r
      proof (cases r)
        case (Inr data)
        with r have d: "data ''tag'' = Some ?p" by simp
        show ?thesis
          unfolding Inr sum.case
          by (rule ensures_bind [OF ensures_add_rev [where tag = ?p, OF src _ re m(2)]], rule d, rule ensures_return)
            (auto simp: result_iff restores_def dest: rollback_digest_fit)
      qed (simp add: ensures_return)
    qed
  qed
  show ?thesis
    unfolding rollback_data_def Let_def
    by (intro ensures_intro step) auto
qed

lemma ensures_rollback_unavailable:
  "kept A tu0 tu \<Longrightarrow> ensures (ctl_event E (kept A tu0) W) (rollback_unavailable E tu) (saved_ok (kept A tu0))"
  unfolding rollback_unavailable_def Let_def
  by (intro ensures_intro ensures_bind [OF ensures_set_kept] ensures_save_status kept_with_status
      status_ok_clear) auto

lemma kept_rolled_back:
  assumes "kept A tu0 tu"
  shows "kept A tu0 (put_condition n (mk_condition ''Ready'' ConditionFalse reason msg) (rolled_back now tu d commit))"
proof -
  have "same_object tu0 (rolled_back now tu d commit)"
    using assms by (simp add: kept_def rolled_back_def)
  moreover have "watch_ok (updater_status tu) \<Longrightarrow> watch_ok (updater_status (rolled_back now tu d commit))"
    by (simp add: watch_ok_def rolled_back_def clear_watch_def append_unique_distinct)
  ultimately show ?thesis
    using assms by (auto simp: kept_def status_ok_def ready_ok_put)
qed

lemma ensures_finish_rollback:
  "kept A tu0 tu \<Longrightarrow> ensures (ctl_event E (kept A tu0) W) (finish_rollback E tu d r) (saved_ok (kept A tu0))"
  unfolding finish_rollback_def Let_def
  by (intro ensures_intro ensures_bind_any [OF ensures_record] ensures_bind_any [OF ensures_clock]
      ensures_bind [OF ensures_put [where I = "kept A tu0"]] ensures_bind [OF ensures_set_kept] ensures_save_status)
    (auto intro: kept_rolled_back)

lemma ensures_do_rollback:
  assumes srt: "slice_sort (lib_sort E)" and k: "kept A tu0 tu"
    and W: "\<And>c d. restores E tu d \<Longrightarrow> W (writer_for tu c d)"
  shows "ensures (ctl_event E (kept A tu0) W) (do_rollback E tu) (saved_ok (kept A tu0))"
proof -
  have apply_step: "ensures (ctl_event E (kept A tu0) W) (do {
        c \<leftarrow> resolve_write_back_credentials E tu;
        case c of
          Inl e \<Rightarrow> ret (Ok (tu, Some e))
        | Inr cred \<Rightarrow> do {
            r \<leftarrow> writer_apply E (writer_for tu cred d);
            case r of
              Ok result \<Rightarrow> finish_rollback E tu d result
            | Fail e \<Rightarrow> ret (Ok (tu, Some e))
            | Abort a \<Rightarrow> ret (Abort a) } }) (saved_ok (kept A tu0))" if "restores E tu d" for d
    by (intro ensures_bind_any [OF ensures_reads_ctl [OF quiet_write_back_credentials]]
        ensures_bind_any [OF ensures_writer_apply] ensures_intro ensures_finish_rollback k W that)
      (simp_all add: k)
  show ?thesis
    unfolding do_rollback_def Let_def
    by (intro ensures_if ensures_rollback_unavailable [OF k]
        ensures_bind [OF ensures_reads_ctl [OF ensures_rollback_data [OF srt]]] ensures_sum ensures_return apply_step)
      (simp_all add: k)
qed

lemma ensures_rollback_with_status:
  assumes srt: "slice_sort (lib_sort E)" and k: "kept A tu0 tu"
    and W: "\<And>c d. restores E tu d \<Longrightarrow> W (writer_for tu c d)"
  shows "ensures (ctl_event E (kept A tu0) W) (rollback_with_status E tu) (saved_ok (kept A tu0))"
proof -
  have tail: "ensures (ctl_event E (kept A tu0) W) (do {
         tu2 \<leftarrow> set_condition E tu1 c;
         _ \<leftarrow> update_status E tu2;
         _ \<leftarrow> record_event E True reason msg;
         ret (Ok (tu2, Some e)) }) (saved_ok (kept A tu0))" if "kept A tu0 tu1" "\<not> says_ready c" for tu1 c e reason msg
    by (intro ensures_bind [OF ensures_set_kept [OF that]] ensures_bind_any ensures_intro) auto
  show ?thesis
    unfolding rollback_with_status_def
    apply (rule ensures_bind [OF ensures_do_rollback [where W = W, OF srt k]], erule W)
    subgoal for s by (cases s) (auto split: prod.split option.split intro!: tail ensures_return)
    done
qed

section \<open>The health check\<close>

text \<open>Before a rollback the check changes only the conditions and the health clock.\<close>

definition unrotated :: "bool \<Rightarrow> tag_updater \<Rightarrow> tag_updater \<Rightarrow> bool" where
  "unrotated A tu tu' \<longleftrightarrow> kept A tu tu' \<and>
     previous_tag (updater_status tu') = previous_tag (updater_status tu) \<and>
     previous_image_digest (updater_status tu') = previous_image_digest (updater_status tu)"

lemma unrotated_put: "unrotated A tu0 tu \<Longrightarrow> \<not> says_ready c \<Longrightarrow> unrotated A tu0 (put_condition now c tu)"
  by (simp add: unrotated_def kept_put) (simp add: put_condition_def)

lemma unrotated_restores: "unrotated A tu0 tu \<Longrightarrow> restores E tu d \<longleftrightarrow> restores E tu0 d"
  unfolding unrotated_def kept_def same_object_def restores_def fit_data_def digest_fit_def
  by (elim conjE) (simp only:)

lemma stores_unrotated: "stores (unrotated A tu) (ctl_event E (kept A tu) W)"
  by (simp add: stores_def keeps_conditions_def unrotated_put reads_ctl) (simp add: unrotated_def)

lemma ensures_health_unreadable:
  "unrotated A tu0 tu \<Longrightarrow>
    ensures (ctl_event E (kept A tu0) W) (health_unreadable E tu e) (unrotated A tu0)"
  unfolding health_unreadable_def
  by (rule ensures_bind [OF ensures_set_condition [OF stores_unrotated]], assumption, simp,
      intro ensures_bind_any ensures_intro) (auto simp: unrotated_def)

lemma ensures_read_app: "ensures (ctl_event E I W) (argocd_app_state E ref) (\<lambda>_. True)"
  by (rule ensures_argocd_app_state) simp

lemma ensures_deadline [ensures_intro]: "ensures P (observation_deadline_exceeded E tu) (\<lambda>_. True)"
  unfolding observation_deadline_exceeded_def
  by (intro ensures_intro ensures_bind_any [OF ensures_clock]) auto

fun observation_ok :: "(tag_updater \<Rightarrow> bool) \<Rightarrow> (tag_updater \<Rightarrow> bool) \<Rightarrow> health_reply + tag_updater \<Rightarrow> bool" where
  "observation_ok I J (Inl answer) = health_ok I answer"
| "observation_ok I J (Inr tu) = J tu"

lemma status_ok_since:
  "status_ok st \<Longrightarrow> watching_tag st \<noteq> '''' \<Longrightarrow> status_ok (st\<lparr>watching_since := Some t\<rparr>)"
  by (simp add: status_ok_def watch_ok_def)

lemma ensures_await_observation:
  assumes "unrotated A tu0 tu" and "watching_tag (updater_status tu) \<noteq> ''''"
  shows "ensures (ctl_event E (kept A tu0) W) (await_observation E tu rs)
    (observation_ok (kept A tu0) (unrotated A tu0))"
proof -
  have k: "kept A tu0 tu" using assms(1) by (simp add: unrotated_def)
  have armed: "unrotated A tu0 (with_status (\<lambda>st. st\<lparr>watching_since := Some now\<rparr>) tu)" for now
    using assms by (simp add: unrotated_def kept_with_status status_ok_since)
  have save: "ensures (ctl_event E (kept A tu0) W) (save_status E t) (saved_ok (unrotated A tu0))"
    if "unrotated A tu0 t" for t
    unfolding save_status_def using that
    by (intro ensures_bind_any ensures_intro) (auto simp: unrotated_def)
  have out: "observation_ok (kept A tu0) (unrotated A tu0) (case s of
          Ok (tu1, None) \<Rightarrow> Inr tu1
        | Ok (tu1, Some e) \<Rightarrow> Inl (Ok (tu1, 0, Some e))
        | Fail e \<Rightarrow> Inl (Fail e)
        | Abort a \<Rightarrow> Inl (Abort a))" if "saved_ok (unrotated A tu0) s" for s
    using that by (cases s) (auto simp: unrotated_def split: option.splits)
  show ?thesis
    unfolding await_observation_def Let_def
    by (intro ensures_if ensures_return ensures_bind_any [OF ensures_deadline] ensures_bind_any [OF ensures_clock]
        ensures_bind [OF ensures_abandon_watch [OF k]] ensures_bind [OF save [OF armed]] out)
      (auto simp: assms(1) k intro: health_ok_no_requeue)
qed

lemma ensures_judge_health:
  assumes srt: "slice_sort (lib_sort E)" and u: "unrotated A tu0 tu"
    and W: "\<And>tu c d. unrotated A tu0 tu \<Longrightarrow> restores E tu0 d \<Longrightarrow> W (writer_for tu c d)"
  shows "ensures (ctl_event E (kept A tu0) W) (judge_health E tu st) (health_ok (kept A tu0))"
proof -
  have k: "kept A tu0 tu" using u by (simp add: unrotated_def)
  have w: "W (writer_for tu c d)" if "restores E tu d" for c d
    using W [OF u] that unrotated_restores [OF u] by simp
  show ?thesis
    unfolding judge_health_def
    by (intro ensures_if ensures_option ensures_return ensures_bind_any [OF ensures_clock]
        ensures_bind [OF ensures_set_kept] ensures_bind [OF ensures_save_status]
        ensures_bind [OF ensures_rollback_with_status [where W = W, OF srt k w]] kept_with_status status_ok_clear)
      (auto simp: k intro: health_ok_no_requeue)
qed

lemma ensures_check_health:
  assumes srt: "slice_sort (lib_sort E)" and u: "unrotated A tu0 tu" and "watching_tag (updater_status tu) \<noteq> ''''"
    and W: "\<And>tu c d. unrotated A tu0 tu \<Longrightarrow> restores E tu0 d \<Longrightarrow> W (writer_for tu c d)"
  shows "ensures (ctl_event E (kept A tu0) W) (check_health E tu) (health_ok (kept A tu0))"
proof -
  have k: "unrotated A tu0 t \<Longrightarrow> kept A tu0 t" for t by (simp add: unrotated_def)
  have judge: "ensures (ctl_event E (kept A tu0) W) (do {
             s \<leftarrow> argocd_app_state E (spec_argocd_app (updater_spec t));
             case s of
               Inl e \<Rightarrow> do { tu2 \<leftarrow> health_unreadable E t e; ret (Ok (tu2, watch_poll, None)) }
             | Inr state \<Rightarrow> judge_health E t state }) (health_ok (kept A tu0))" if "unrotated A tu0 t" for t
    by (intro ensures_bind_any [OF ensures_read_app] ensures_sum ensures_return
        ensures_bind [OF ensures_health_unreadable [OF that]] ensures_judge_health [OF srt that] W)
      (auto simp: k)
  show ?thesis
    unfolding check_health_def
    by (intro ensures_bind_any [OF ensures_read_app] ensures_sum ensures_return
        ensures_bind [OF ensures_health_unreadable [OF u]] ensures_bind_any [OF ensures_record]
        ensures_bind [OF ensures_await_observation [OF u assms(3)]] judge)
      (auto simp: k)
qed

section \<open>When a rollback is written\<close>

definition writes :: "event list \<Rightarrow> bool" where
  "writes es \<longleftrightarrow> (\<exists>wr. EvApply wr \<in> set es)"

lemma writes_append [simp]: "writes (xs @ ys) \<longleftrightarrow> writes xs \<or> writes ys"
  by (auto simp: writes_def)

lemma writes_simps [simp]:
  "\<not> writes []"
  "writes [EvStatusUpdate tu r] = False"
  "writes [EvGetApp a b j] = False"
  "writes [EvRecord wn rs m] = False"
  by (auto simp: writes_def)

definition no_apply :: "event \<Rightarrow> bool" where
  "no_apply e \<longleftrightarrow> (\<forall>wr. e \<noteq> EvApply wr)"

lemma no_apply_writes: "\<forall>e\<in>set es. no_apply e \<Longrightarrow> \<not> writes es"
  by (auto simp: writes_def no_apply_def)

lemma no_apply_simps [simp]:
  "no_apply (EvStatusUpdate tu r)" "no_apply (EvRecord wn rs m)" "no_apply (EvGetApp a b j)"
  by (simp_all add: no_apply_def)

lemma emits_no_apply: "ensures no_apply m Q \<Longrightarrow> emits m (\<lambda>x es. \<not> writes es \<and> Q x)"
  by (rule emits_weaken [OF emits_ensures]) (auto simp: no_apply_writes)

lemma ensures_set_any: "ensures P (set_condition E tu c) (\<lambda>_. True)"
  unfolding set_condition_def by (intro ensures_bind_any ensures_intro) auto

lemma ensures_no_apply:
  "ensures no_apply (save_status E tu) (\<lambda>_. True)"
  "ensures no_apply (abandon_watch E tu) (\<lambda>_. True)"
  "ensures no_apply (health_unreadable E tu e) (\<lambda>_. True)"
  "ensures no_apply (argocd_app_state E ref) (\<lambda>_. True)"
  "ensures no_apply (await_observation E tu rs) (\<lambda>_. True)"
proof -
  show save: "ensures no_apply (save_status E tu) (\<lambda>_. True)" for tu
    unfolding save_status_def by (intro ensures_bind_any ensures_intro) auto
  show abandon: "ensures no_apply (abandon_watch E tu) (\<lambda>_. True)"
    unfolding abandon_watch_def Let_def
    by (intro ensures_intro ensures_bind_any ensures_set_any save) auto
  show "ensures no_apply (health_unreadable E tu e) (\<lambda>_. True)"
    unfolding health_unreadable_def by (intro ensures_bind_any ensures_set_any ensures_intro) auto
  show "ensures no_apply (argocd_app_state E ref) (\<lambda>_. True)"
    by (rule ensures_argocd_app_state) simp
  show "ensures no_apply (await_observation E tu rs) (\<lambda>_. True)"
    unfolding await_observation_def Let_def
    by (intro ensures_intro ensures_bind_any save abandon) auto
qed

lemma emits_bind_clock:
  "(\<And>n. emits (f (env_now E n)) Q) \<Longrightarrow> emits (clock E \<bind> f) Q"
  by (rule emits_bind [where R = "\<lambda>t es. es = [] \<and> (\<exists>n. t = env_now E n)"])
    (auto simp: emits_def clock_def)

text \<open>The two grounds for a rollback: a settled degradation, or the health timeout.\<close>

definition failed_rollout :: "env \<Rightarrow> tag_updater \<Rightarrow> time \<Rightarrow> argocd_state \<Rightarrow> bool" where
  "failed_rollout E tu since st \<longleftrightarrow>
     app_health st \<noteq> ''Healthy'' \<and>
     (app_health st = ''Degraded'' \<and> \<not> sync_in_flight st \<or>
      (\<exists>n. rollback_timeout tu \<le> time_sub (env_now E n) since))"

text \<open>The health clock runs, or the commit is observed now and it starts.\<close>

definition observed_since :: "env \<Rightarrow> tag_updater \<Rightarrow> argocd_state \<Rightarrow> time \<Rightarrow> bool" where
  "observed_since E tu rs since \<longleftrightarrow>
     (let st = updater_status tu in
      watching_since st = Some since \<or>
      watching_since st = None \<and> observes rs (watching_commit st) (watching_armed_at st) \<and>
        (\<exists>n. since = env_now E n))"

lemma emits_rollback:
  assumes "slice_sort (lib_sort E)"
  shows "emits (rollback_with_status E tu) (\<lambda>_ _. True)"
  by (rule emits_weaken [OF emits_ensures
        [OF ensures_rollback_with_status [where A = False and W = "\<lambda>_. True", OF assms kept_refl]]]) auto

lemma emits_judge_health:
  assumes srt: "slice_sort (lib_sort E)" and since: "watching_since (updater_status tu) = Some since"
  shows "emits (judge_health E tu st) (\<lambda>_ es. writes es \<longrightarrow> failed_rollout E tu since st)"
proof -
  have healthy: "emits (do { tu1 \<leftarrow> set_condition E t c; s \<leftarrow> save_status E tu1; ret (no_requeue s) })
      (\<lambda>_ es. writes es \<longrightarrow> X)" for t c X
    by (rule emits_weaken [OF emits_no_apply [OF ensures_bind_any [OF ensures_set_any
          ensures_bind_any [OF ensures_no_apply(1) ensures_return]]]]) auto
  have rollback: "emits (do { s \<leftarrow> rollback_with_status E tu; ret (no_requeue s) }) (\<lambda>_ es. writes es \<longrightarrow> X)"
    if X for X
    by (rule emits_bind [OF emits_rollback [OF srt]], rule emits_return) (use that in simp)
  show ?thesis
    unfolding judge_health_def
    by (intro emits_cases emits_bind_clock healthy rollback emits_return) (auto simp: failed_rollout_def since)
qed

text \<open>What the answers of the Argo CD reads were.\<close>

definition read_answer :: "env \<Rightarrow> argocd_app_ref option \<Rightarrow> argocd_state \<Rightarrow> event list \<Rightarrow> bool" where
  "read_answer E ref st es \<longleftrightarrow>
     (\<exists>a app. ref = Some a \<and> EvGetApp (app_location a) (app_name a) (Inr app) \<in> set es \<and> st = read_app E app)"

lemma read_answer_append: "read_answer E ref st es \<Longrightarrow> set es \<subseteq> set es' \<Longrightarrow> read_answer E ref st es'"
  unfolding read_answer_def by blast

lemma emits_read_app:
  "emits (argocd_app_state E ref) (\<lambda>r es. \<not> writes es \<and> (\<forall>st. r = Inr st \<longrightarrow> read_answer E ref st es))"
  unfolding argocd_app_state_def
  by (intro emits_cases emits_return emits_bind_ask) (auto simp: read_answer_def split: sum.splits)

lemma save_status_saves: "ensures no_apply (save_status E tu) (\<lambda>s. \<exists>e. s = Ok (tu, e))"
  unfolding save_status_def by (intro ensures_bind_any ensures_intro) auto

lemma emits_await_observation:
  "emits (await_observation E tu rs) (\<lambda>r es. \<not> writes es \<and> (\<forall>tu1. r = Inr tu1 \<longrightarrow>
     updater_spec tu1 = updater_spec tu \<and>
     (\<exists>since. watching_since (updater_status tu1) = Some since \<and> observed_since E tu rs since)))"
  unfolding await_observation_def Let_def
  by (intro emits_cases emits_return emits_bind [OF emits_no_apply [OF ensures_deadline]]
      emits_bind [OF emits_no_apply [OF ensures_no_apply(2)]] emits_bind_clock
      emits_bind [OF emits_no_apply [OF save_status_saves]])
    (auto simp: with_status_def observed_since_def Let_def split: option.splits, blast)

lemma emits_check_health:
  assumes srt: "slice_sort (lib_sort E)"
  shows "emits (check_health E tu) (\<lambda>_ es. writes es \<longrightarrow>
    (\<exists>rs st since. read_answer E (revision_observer tu) rs es \<and> observed_since E tu rs since \<and>
       read_answer E (spec_argocd_app (updater_spec tu)) st es \<and> failed_rollout E tu since st))"
proof -
  have spec: "failed_rollout E t since st = failed_rollout E tu since st"
    if "updater_spec t = updater_spec tu" for t since st
    by (simp add: failed_rollout_def rollback_timeout_def that)
  show ?thesis
    unfolding check_health_def
    apply (rule emits_bind [OF emits_read_app])
    apply (intro emits_cases)
     apply (rule emits_bind [OF emits_no_apply [OF ensures_no_apply(3)]])
     apply (rule emits_bind [OF emits_no_apply [OF ensures_record]], simp)
     apply (rule emits_return, simp)
    apply (rule emits_bind [OF emits_await_observation])
    apply (intro emits_cases)
     apply (rule emits_return, simp)
    apply (rule emits_bind [OF emits_read_app])
    apply (intro emits_cases)
     apply (rule emits_bind [OF emits_no_apply [OF ensures_no_apply(3)]])
     apply (rule emits_return, simp)
    subgoal premises p for r es rs r2 es2 tu1 s es3 st
    proof -
      from p obtain since where since: "watching_since (updater_status tu1) = Some since"
        "observed_since E tu rs since" "updater_spec tu1 = updater_spec tu" by auto
      have nw: "\<not> writes es" "\<not> writes es2" "\<not> writes es3" using p by auto
      have r1: "read_answer E (revision_observer tu) rs (new @ es3 @ es2 @ es)" for new
        by (rule read_answer_append [of _ _ _ es]) (use p in auto)
      have r2: "read_answer E (spec_argocd_app (updater_spec tu)) st (new @ es3 @ es2 @ es)" for new
        by (rule read_answer_append [of _ _ _ es3]) (use p since in auto)
      show ?thesis
        by (rule emits_weaken [OF emits_judge_health [OF srt since(1)]])
          (use nw r1 r2 since(2) in \<open>simp add: spec [OF since(3)], blast\<close>)
    qed
    done
qed

text \<open>
  C3. A rollback is written only for a rollout that was observed and failed: the revision
  observer was read, and named the written commit now or earlier, which started the health
  clock; the health application was read as not Healthy and either Degraded with no sync in
  flight, or past the health timeout on that clock.
\<close>

theorem rollback_write_is_justified:
  assumes "slice_sort (lib_sort E)" and "run_state (check_health E tu) w = (r, w')"
    and "w_trace w' = es @ w_trace w" and "EvApply wr \<in> set es"
  shows "\<exists>rs st since. read_answer E (revision_observer tu) rs es \<and> observed_since E tu rs since \<and>
    read_answer E (spec_argocd_app (updater_spec tu)) st es \<and> failed_rollout E tu since st"
  using emits_run [OF emits_check_health [OF assms(1)] assms(2)] assms(3,4) by (auto simp: writes_def)

text \<open>The status after a completed rollback.\<close>

definition rollback_done :: "tag_updater \<Rightarrow> strmap \<Rightarrow> string \<Rightarrow> tag_updater \<Rightarrow> bool" where
  "rollback_done tu data commit tu' \<longleftrightarrow>
     (let st = updater_status tu; st' = updater_status tu' in
      same_object tu tu' \<and> last_tag st' = previous_tag st \<and> previous_tag st' = previous_tag st \<and>
      last_image_digest st' = gomap_get data ''image_digest'' \<and>
      last_write_commit st' = commit \<and> observed_generation st' = meta_generation tu \<and>
      watching_tag st' = '''' \<and> watching_commit st' = '''' \<and>
      watching_armed_at st' = None \<and> watching_since st' = None \<and>
      set (skipped_tags st') = insert (watching_tag st) (set (skipped_tags st)) \<and>
      (\<exists>m. verdict tu' ''Ready'' = Some (ConditionFalse, ''RolledBack'', m) \<and>
         verdict tu' ''RollbackReady'' = Some (ConditionTrue, ''RollbackWritten'', m)))"

lemma rollback_done_put:
  "rollback_done tu data commit
    (put_condition t2 (mk_condition ''RollbackReady'' ConditionTrue ''RollbackWritten'' m)
      (put_condition t1 (mk_condition ''Ready'' ConditionFalse ''RolledBack'' m)
        (rolled_back now tu data commit)))"
proof -
  have "verdict (put_condition t2 (mk_condition ''RollbackReady'' ConditionTrue ''RollbackWritten'' m)
      (put_condition t1 (mk_condition ''Ready'' ConditionFalse ''RolledBack'' m) x)) ''Ready'' =
      Some (ConditionFalse, ''RolledBack'', m)" for x
    by (simp add: verdict_put_condition)
  moreover have "verdict (put_condition t2 (mk_condition ''RollbackReady'' ConditionTrue ''RollbackWritten'' m)
      (put_condition t1 (mk_condition ''Ready'' ConditionFalse ''RolledBack'' m) x)) ''RollbackReady'' =
      Some (ConditionTrue, ''RollbackWritten'', m)" for x
    by (simp add: verdict_put_condition)
  ultimately show ?thesis
    by (simp add: rollback_done_def Let_def)
      (simp add: rolled_back_def put_condition_def clear_watch_def with_status_def same_object_def)
qed

lemma emits_bind_put:
  "(\<And>n. emits (f (put_condition (env_now E n) c tu)) Q) \<Longrightarrow> emits (set_condition E tu c \<bind> f) Q"
  unfolding set_condition_def
  by (rule emits_bind [where R = "\<lambda>t es. es = [] \<and> (\<exists>n. t = put_condition (env_now E n) c tu)"])
    (auto simp: emits_def clock_def)

lemma emits_bind_record:
  "emits (f ()) (\<lambda>y new. Q y (new @ (if env_recorder E then [EvRecord wn rs m] else []))) \<Longrightarrow>
    emits (record_event E wn rs m \<bind> f) Q"
  by (rule emits_bind [where R = "\<lambda>_ es. es = (if env_recorder E then [EvRecord wn rs m] else [])"])
    (simp_all add: emits_def record_event_def note_event_def)

lemma emits_finish_rollback:
  "emits (finish_rollback E tu data result) (\<lambda>r es. \<forall>tu'. r = Ok (tu', None) \<longrightarrow>
    rollback_done tu data (commit_sha result) tu' \<and> (\<exists>old. es = EvStatusUpdate tu' (Inr ()) # old))"
  unfolding finish_rollback_def Let_def save_status_def update_status_def
  by (intro emits_bind_clock emits_bind_put emits_bind_record emits_bind_ask emits_return)
    (auto simp: rollback_done_put split: sum.splits)

section \<open>A completed rollback\<close>

text \<open>
  The calls of an application of a writer that succeeded, newest first: its one push followed
  on the commit it reports, or it pushed nothing and reports the head of a fresh clone.
\<close>

definition applied :: "env \<Rightarrow> writer \<Rightarrow> write_result \<Rightarrow> event list \<Rightarrow> bool" where
  "applied E wr x es \<longleftrightarrow>
     (if committed x then pushes es = 1 \<and> commit_trace E wr (commit_sha x) es
      else pushes es = 0 \<and> (\<exists>dir. EvGit (GitHead dir) (Inr (commit_sha x)) \<in> set es))"

lemma emits_head_in_trace:
  "emits (head_result E dir what) (\<lambda>r es. \<forall>x. r = Ok x \<and> \<not> committed x \<longrightarrow>
     (\<exists>dir. EvGit (GitHead dir) (Inr (commit_sha x)) \<in> set es))"
  by (rule emits_weaken [OF emits_head_result]) auto

lemma emits_apply_once_head:
  "emits (apply_once E wr auth url) (\<lambda>r es. \<forall>x. r = Ok x \<and> \<not> committed x \<longrightarrow>
     (\<exists>dir. EvGit (GitHead dir) (Inr (commit_sha x)) \<in> set es))"
proof -
  have commit: "emits (commit_and_push E wr auth dir) (\<lambda>r es. \<forall>x. r = Ok x \<and> \<not> committed x \<longrightarrow>
      (\<exists>dir. EvGit (GitHead dir) (Inr (commit_sha x)) \<in> set es))" for dir
    by (rule emits_weaken [OF emits_commit_and_push]) (metis list.set_intros(1))
  have clone: "emits (apply_in_clone E wr auth url dir clean) (\<lambda>r es. \<forall>x. r = Ok x \<and> \<not> committed x \<longrightarrow>
      (\<exists>dir. EvGit (GitHead dir) (Inr (commit_sha x)) \<in> set es))" for dir clean
    unfolding apply_in_clone_def Let_def
    by (intro emits_intro emits_bind [OF emits_clone_branch] emits_weaken [OF emits_head_in_trace]
        emits_weaken [OF commit]) auto
  show ?thesis
    unfolding apply_once_def
    apply (intro emits_intro emits_bind [OF emits_new_clone] emits_bind [OF clone])
      apply auto
    done
qed

lemma emits_apply_head:
  "emits (apply_attempts E wr auth url n) (\<lambda>r es. \<forall>x. r = Ok x \<and> \<not> committed x \<longrightarrow>
     (\<exists>dir. EvGit (GitHead dir) (Inr (commit_sha x)) \<in> set es))"
proof (induction n)
  case 0
  show ?case by (simp add: emits_return)
next
  case (Suc n)
  show ?case
    unfolding apply_attempts.simps
    by (rule emits_bind [OF emits_apply_once_head]) (intro emits_intro; (rule emits_weaken [OF Suc.IH])?; auto)
qed

lemma emits_applied:
  "emits (writer_apply E wr) (\<lambda>r es. \<exists>body. es = body @ [EvApply wr] \<and> (\<forall>x. r = Ok x \<longrightarrow> applied E wr x body))"
proof -
  have head: "emits (writer_apply E wr) (\<lambda>r es. \<exists>body. es = body @ [EvApply wr] \<and>
      (\<forall>x. r = Ok x \<longrightarrow> pushes body = reported r \<and> (committed x \<longrightarrow> commit_trace E wr (commit_sha x) body) \<and>
         (\<not> committed x \<longrightarrow> (\<exists>dir. EvGit (GitHead dir) (Inr (commit_sha x)) \<in> set body))))"
    unfolding writer_apply_def
    apply (rule emits_bind_silent(5))
    apply (intro emits_bind [OF emits_writer_auth] emits_cases emits_return)
     apply simp
    apply (rule emits_bind [OF emits_conj [OF emits_apply_attempts emits_apply_head]])
    apply (rule emits_bind [OF emits_cleanup])
    apply (rule emits_return)
    apply (use reads_counts commit_trace_append in auto)
    done
  show ?thesis
    by (rule emits_weaken [OF head]) (auto simp: applied_def reported_def split: if_splits)
qed

lemma emits_apply_noted: "emits (writer_apply E wr) (\<lambda>_ es. EvApply wr \<in> set es)"
  by (rule emits_weaken [OF emits_applied]) auto

lemma emits_do_rollback:
  assumes srt: "slice_sort (lib_sort E)"
    and prev: "previous_tag (updater_status tu) \<noteq> ''''"
      "previous_tag (updater_status tu) \<noteq> watching_tag (updater_status tu)"
  shows "emits (do_rollback E tu) (\<lambda>r es. \<forall>tu'. r = Ok (tu', None) \<longrightarrow>
    (\<exists>c data x later body before. restores E tu data \<and> applied E (writer_for tu c data) x body \<and>
       rollback_done tu data (commit_sha x) tu' \<and>
       es = EvStatusUpdate tu' (Inr ()) # later @ body @ EvApply (writer_for tu c data) # before))"
proof -
  have cond: "\<not> (previous_tag (updater_status tu) = '''' \<or>
      previous_tag (updater_status tu) = watching_tag (updater_status tu))"
    using prev by simp
  show ?thesis
    unfolding do_rollback_def Let_def if_not_P [OF cond]
    apply (rule emits_bind [OF emits_ensures [OF ensures_rollback_data [OF srt]]])
    apply (intro emits_cases)
     apply (rule emits_return, simp)
    apply (rule emits_bind [OF emits_ensures [OF quiet_write_back_credentials]])
    apply (intro emits_cases)
     apply (rule emits_return, simp)
    apply (rule emits_bind [OF emits_applied])
    apply (intro emits_cases)
      apply (rule emits_weaken [OF emits_finish_rollback], fastforce)
     apply (rule emits_return, simp)
    apply (rule emits_return, simp)
    done
qed

text \<open>
  C4. What a completed rollback did: it applied a writer that restores the previous tag (with
  its recorded digest when digests are resolved), this application succeeded -- its one push
  followed on the commit that it reports, or there was nothing to change in a fresh clone whose
  head it reports -- and then a status was stored, successfully, in which the previous tag is
  the last one, exactly that commit and the digest are recorded, the watch is over and the
  failed tag is among the skipped ones.
\<close>

theorem rollback_restores_previous:
  assumes "slice_sort (lib_sort E)"
    and "previous_tag (updater_status tu) \<noteq> ''''"
    and "previous_tag (updater_status tu) \<noteq> watching_tag (updater_status tu)"
    and "run_state (do_rollback E tu) w = (Ok (tu', None), w')"
  shows "\<exists>c data x later body before.
    w_trace w' = EvStatusUpdate tu' (Inr ()) # later @ body @ EvApply (writer_for tu c data) # before @ w_trace w \<and>
    restores E tu data \<and> applied E (writer_for tu c data) x body \<and> rollback_done tu data (commit_sha x) tu'"
  using emits_run [OF emits_do_rollback [OF assms(1-3)] assms(4)] by fastforce

text \<open>The status of a watch that was given up.\<close>

definition given_up :: "tag_updater \<Rightarrow> tag_updater \<Rightarrow> bool" where
  "given_up tu tu' \<longleftrightarrow>
     (let st = updater_status tu; st' = updater_status tu' in
      same_object tu tu' \<and> watching_tag st' = '''' \<and> watching_armed_at st' = None \<and>
      skipped_tags st' = skipped_tags st \<and> last_tag st' = last_tag st \<and> previous_tag st' = previous_tag st \<and>
      last_write_commit st' = last_write_commit st \<and>
      (\<exists>m. verdict tu' ''RollbackReady'' = Some (ConditionFalse, ''CommitNeverObserved'', m)))"

lemma given_up_put:
  "given_up tu (put_condition t2 (mk_condition ''Ready'' ConditionFalse ''CommitNeverObserved'' m)
    (put_condition t1 (mk_condition ''RollbackReady'' ConditionFalse ''CommitNeverObserved'' m)
      (with_status clear_watch tu)))"
proof -
  have "verdict (put_condition t2 (mk_condition ''Ready'' ConditionFalse ''CommitNeverObserved'' m)
      (put_condition t1 (mk_condition ''RollbackReady'' ConditionFalse ''CommitNeverObserved'' m) x)) ''RollbackReady'' =
      Some (ConditionFalse, ''CommitNeverObserved'', m)" for x
    by (simp add: verdict_put_condition)
  then show ?thesis
    by (simp add: given_up_def Let_def) (simp add: put_condition_def clear_watch_def with_status_def same_object_def)
qed

lemma emits_give_up:
  "emits (do {
      tu1 \<leftarrow> set_condition E (with_status clear_watch tu) (mk_condition ''RollbackReady'' ConditionFalse ''CommitNeverObserved'' m);
      tu2 \<leftarrow> set_condition E tu1 (mk_condition ''Ready'' ConditionFalse ''CommitNeverObserved'' m);
      _ \<leftarrow> record_event E True ''CommitNeverObserved'' m;
      save_status E tu2 })
    (\<lambda>r es. \<exists>tu' a. r = Ok (tu', (case a of Inl e \<Rightarrow> Some e | Inr _ \<Rightarrow> None)) \<and> given_up tu tu' \<and>
      es = EvStatusUpdate tu' a # (if env_recorder E then [EvRecord True ''CommitNeverObserved'' m] else []))"
  unfolding save_status_def update_status_def
  apply (rule emits_bind_put emits_bind_record)+
  apply (rule emits_bind_ask)
  apply (rule emits_return)
  apply (rule exI, rule exI, rule conjI, rule refl)
  apply (rule conjI, rule given_up_put)
  apply simp
  done

lemma emits_abandon_watch:
  "revision_observer tu \<noteq> None \<Longrightarrow>
    emits (abandon_watch E tu) (\<lambda>r es. \<exists>tu' a m. r = Ok (tu', (case a of Inl e \<Rightarrow> Some e | Inr _ \<Rightarrow> None)) \<and> given_up tu tu' \<and>
      es = EvStatusUpdate tu' a # (if env_recorder E then [EvRecord True ''CommitNeverObserved'' m] else []))"
  unfolding abandon_watch_def Let_def
  apply (rule emits_cases(3))
   apply (erule (1) notE)
  apply (rule emits_weaken [OF emits_give_up])
  apply (elim exE conjE)
  apply (intro exI conjI)
    apply assumption+
  done

text \<open>
  C17. The wait for an observation is bounded: while the observer is readable and does not name
  the commit, the check makes one read and leaves the watch alone until the timeout counted
  from its arming. After it the watch is given up and no tag is skipped; besides the read the
  check stores that status and notes it on the object, and calls nothing else, so nothing is
  written to Git; and the handler goes on with the reconcile.
\<close>

theorem watch_observation_bounded:
  assumes "watching_since (updater_status tu) = None" and "watching_armed_at (updater_status tu) = Some armed"
    and "revision_observer tu = Some ref" and "env_dynamic E"
    and "\<And>n. env_app E n (app_location ref) (app_name ref) = Inr app"
    and "\<not> observes (read_app E app) (watching_commit (updater_status tu)) (Some armed)"
    and "run_state (check_health E tu) w = (r, w')"
  shows "\<exists>n. if rollback_timeout tu \<le> time_sub (env_now E n) armed
    then (\<exists>tu' a m. given_up tu tu' \<and> r = Ok (tu', 0, case a of Inl e \<Rightarrow> Some e | Inr _ \<Rightarrow> None) \<and>
      w_trace w' = EvStatusUpdate tu' a # (if env_recorder E then [EvRecord True ''CommitNeverObserved'' m] else []) @
        EvGetApp (app_location ref) (app_name ref) (Inr app) # w_trace w)
    else r = Ok (tu, watch_poll, None) \<and>
      w_trace w' = EvGetApp (app_location ref) (app_name ref) (Inr app) # w_trace w"
proof -
  obtain w1 where w1: "run_state (argocd_app_state E (revision_observer tu)) w = (Inr (read_app E app), w1)"
    and t1: "w_trace w1 = EvGetApp (app_location ref) (app_name ref) (Inr app) # w_trace w"
    using assms by (simp add: argocd_app_state_def ask_def)
  obtain w2 where late: "run_state (observation_deadline_exceeded E tu) w1 =
      (rollback_timeout tu \<le> time_sub (env_now E (w_tick w1)) armed, w2)" and t2: "w_trace w2 = w_trace w1"
    by (simp add: observation_deadline_exceeded_def assms(2) clock_def)
  obtain s w3 where s: "run_state (abandon_watch E tu) w2 = (s, w3)" by (cases "run_state (abandon_watch E tu) w2")
  from assms(3) emits_run [OF emits_abandon_watch s] obtain tu' a m
    where a: "s = Ok (tu', case a of Inl e \<Rightarrow> Some e | Inr _ \<Rightarrow> None)" "given_up tu tu'"
      "w_trace w3 = (EvStatusUpdate tu' a # (if env_recorder E then [EvRecord True ''CommitNeverObserved'' m] else [])) @ w_trace w2"
    by auto
  have run: "run_state (check_health E tu) w =
      (if rollback_timeout tu \<le> time_sub (env_now E (w_tick w1)) armed
       then (Ok (tu', 0, case a of Inl e \<Rightarrow> Some e | Inr _ \<Rightarrow> None), w3) else (Ok (tu, watch_poll, None), w2))"
    using assms(1,2,6) late s a(1)
    by (simp add: check_health_def w1 await_observation_def Let_def no_requeue_def)
  show ?thesis
  proof (rule exI [of _ "w_tick w1"], cases "rollback_timeout tu \<le> time_sub (env_now E (w_tick w1)) armed")
    case True
    with run assms(7) a t1 t2 show "if rollback_timeout tu \<le> time_sub (env_now E (w_tick w1)) armed
      then (\<exists>tu' a m. given_up tu tu' \<and> r = Ok (tu', 0, case a of Inl e \<Rightarrow> Some e | Inr _ \<Rightarrow> None) \<and>
        w_trace w' = EvStatusUpdate tu' a # (if env_recorder E then [EvRecord True ''CommitNeverObserved'' m] else []) @
          EvGetApp (app_location ref) (app_name ref) (Inr app) # w_trace w)
      else r = Ok (tu, watch_poll, None) \<and>
        w_trace w' = EvGetApp (app_location ref) (app_name ref) (Inr app) # w_trace w"
      by simp
  qed (use run assms(7) t1 t2 in simp)
qed

text \<open>
  But the bound does not hold while the observer cannot be read, as for an application that
  was deleted or renamed: whatever the clock says, the check returns before it looks at the
  deadline, the watch is kept, and the handler is told to come back in 15 seconds.
\<close>

theorem unreadable_observer_never_expires:
  assumes "\<And>w'. \<exists>e w''. run_state (argocd_app_state E (revision_observer tu)) w' = (Inl e, w'')"
  shows "\<exists>tu'. fst (run_state (check_health E tu) w) = Ok (tu', watch_poll, None) \<and> same_but_conditions tu tu'"
proof -
  obtain e w1 where w1: "run_state (argocd_app_state E (revision_observer tu)) w = (Inl e, w1)"
    using assms by blast
  obtain w2 where u: "\<exists>t. run_state (health_unreadable E tu e) w1 =
      (put_condition t (mk_condition ''RollbackReady'' ConditionFalse ''HealthReadFailed'' (error_text e)) tu, w2)"
    by (simp add: health_unreadable_def set_condition_def clock_def update_status_def ask_def) blast
  then show ?thesis
    by (auto simp: check_health_def w1 record_event_def note_event_def)
qed

section \<open>Witnesses\<close>

lemma demo_watched_observer:
  "revision_observer (demo_watched since) = Some \<lparr>app_name = ''app'', app_namespace = ''''\<rparr>"
  "spec_argocd_app demo_spec = Some \<lparr>app_name = ''app'', app_namespace = ''''\<rparr>"
  "rollback_timeout (demo_watched since) = 20 * minute"
  by (simp_all add: revision_observer_def rollback_timeout_def default_rollback_timeout_def demo_spec_def)

lemma demo_credentials_watched:
  "\<exists>w'. run_state (resolve_write_back_credentials (demo_ctl_env app now) (demo_watched since)) w =
    (Inr demo_credentials, w')"
proof -
  have u: "updater_spec (demo_updater ''a'') = demo_spec" "meta_namespace (demo_updater ''a'') = ''ns''"
    by (simp_all add: demo_updater_def)
  have "resolve_write_back_credentials E (demo_watched since) = resolve_write_back_credentials E (demo_updater ''a'')" for E
    unfolding resolve_write_back_credentials_def u demo_watched_simps by (rule refl)
  then show ?thesis using demo_secret_credentials by simp
qed

lemma demo_rollback_data:
  "\<exists>d w'. run_state (rollback_data (demo_ctl_env app now) (demo_watched since) ''v1'') w = (Inr d, w') \<and>
    gomap_get d ''tag'' = ''v1''"
proof -
  let ?E = "demo_ctl_env app now"
  have m: "latest insertion_sort demo_regexp [''v1''] = Some \<lparr>match_tag = ''v1'', captures = [''n'' \<mapsto> ''1'']\<rparr>"
    by (simp add: latest_def match_all_def demo_regexp_def insertion_sort_def)
  let ?d = "base_data \<lparr>match_tag = ''v1'', captures = [''n'' \<mapsto> ''1'']\<rparr> (source_repo (spec_source demo_spec))"
  obtain w' where r: "run_state (add_rev ?E (git_iface ?E demo_git_source) ''v1'' ?d) w = (Inr (?d(''rev'' \<mapsto> ''c1'')), w')"
    using demo_add_rev by blast
  have "?d ''tag'' = Some ''v1''" by simp
  then have "gomap_get (?d(''rev'' \<mapsto> ''c1'')) ''tag'' = ''v1''" by (simp add: gomap_get_def)
  moreover have "rollback_digest (demo_watched since) x = Inr x" for x
    by (simp add: rollback_digest_def demo_spec_def)
  ultimately show ?thesis
    using r by (simp add: rollback_data_def matcher_new_def m demo_source_for demo_record Let_def)
qed

lemma demo_rollback:
  "\<exists>tu' w'. run_state (do_rollback (demo_ctl_env app now) (demo_watched since)) w = (Ok (tu', None), w')"
proof -
  let ?E = "demo_ctl_env app now" and ?tu = "demo_watched since"
  obtain d w1 where d: "run_state (rollback_data ?E ?tu ''v1'') w = (Inr d, w1)" "gomap_get d ''tag'' = ''v1''"
    using demo_rollback_data by blast
  obtain w2 where c: "run_state (resolve_write_back_credentials ?E ?tu) w1 = (Inr demo_credentials, w2)"
    using demo_credentials_watched by blast
  have wr: "writer_for ?tu demo_credentials d = demo_wr d"
    by (simp add: writer_for_def demo_wr_def) (simp add: demo_spec_def)
  obtain w3 where a: "run_state (writer_apply ?E (demo_wr d)) w2 = (Ok \<lparr>committed = True, commit_sha = ''sha''\<rparr>, w3)"
    using demo_ctl_apply [OF d(2)] by blast
  show ?thesis
    by (simp add: do_rollback_def Let_def d c wr a finish_rollback_def set_condition_def clock_def
        record_event_def note_event_def save_status_def update_status_def ask_def)
qed

theorem rollback_restores_previous_witness:
  "\<exists>tu' w' wr x body. run_state (do_rollback (demo_ctl_env (Inr JNull) 500) (demo_watched None)) initial_world = (Ok (tu', None), w') \<and>
    applied (demo_ctl_env (Inr JNull) 500) wr x body \<and> wr_data wr ''tag'' = Some ''v1'' \<and>
    last_tag (updater_status tu') = ''v1'' \<and> last_write_commit (updater_status tu') = commit_sha x \<and>
    ''v2'' \<in> set (skipped_tags (updater_status tu'))"
proof -
  let ?E = "demo_ctl_env (Inr JNull) 500"
  obtain tu' w' where run: "run_state (do_rollback ?E (demo_watched None)) initial_world = (Ok (tu', None), w')"
    using demo_rollback by blast
  have srt: "slice_sort (lib_sort ?E)" by (simp add: small.slice_sort_axioms)
  obtain c data x body where "restores ?E (demo_watched None) data" "rollback_done (demo_watched None) data (commit_sha x) tu'"
    "applied ?E (writer_for (demo_watched None) c data) x body"
    using rollback_restores_previous [OF srt _ _ run] by auto
  then show ?thesis using run
    by (intro exI [of _ tu'] exI [of _ w'] exI [of _ "writer_for (demo_watched None) c data"] exI [of _ x] exI [of _ body])
      (auto simp: rollback_done_def restores_def fit_data_def Let_def)
qed

lemma demo_read_app:
  "run_state (argocd_app_state (demo_ctl_env (Inr app) now) (Some ref)) w =
    (Inr (read_app (demo_ctl_env (Inr app) now) app),
     w\<lparr>w_tick := Suc (w_tick w), w_trace := EvGetApp (app_location ref) (app_name ref) (Inr app) # w_trace w\<rparr>)"
  by (simp add: argocd_app_state_def ask_def)

lemma demo_app_read:
  "app_health (read_app E (demo_app c h)) = h"
  "app_operation (read_app E (demo_app c h)) = ''''"
  by (simp_all add: read_app_def demo_app_def nested_string_def)

theorem rollback_write_is_justified_witness:
  "\<exists>es since st. w_trace (snd (run_state (check_health (demo_ctl_env (Inr (demo_app ''sha'' ''Degraded'')) 500)
      (demo_watched (Some 200))) initial_world)) = es \<and> writes es \<and>
    failed_rollout (demo_ctl_env (Inr (demo_app ''sha'' ''Degraded'')) 500) (demo_watched (Some 200)) since st"
proof -
  let ?E = "demo_ctl_env (Inr (demo_app ''sha'' ''Degraded'')) 500" and ?tu = "demo_watched (Some 200)"
  let ?ev = "EvGetApp (app_location \<lparr>app_name = ''app'', app_namespace = ''''\<rparr>) ''app'' (Inr (demo_app ''sha'' ''Degraded''))"
  let ?w = "initial_world\<lparr>w_tick := 2, w_trace := [?ev, ?ev]\<rparr>"
  have srt: "slice_sort (lib_sort ?E)" by (simp add: small.slice_sort_axioms)
  obtain tu' w' where rb: "run_state (do_rollback ?E ?tu) ?w = (Ok (tu', None), w')"
    using demo_rollback by blast
  have flight: "\<not> sync_in_flight (read_app ?E (demo_app ''sha'' ''Degraded''))"
    by (simp add: sync_in_flight_def demo_app_read)
  have run: "run_state (check_health ?E ?tu) initial_world = (Ok (tu', 0, None), w')"
    using rb flight
    by (simp add: check_health_def demo_watched_observer demo_read_app await_observation_def Let_def
        judge_health_def demo_app_read rollback_with_status_def no_requeue_def initial_world_def
        numeral_2_eq_2)
  have noted: "emits (do_rollback ?E ?tu) (\<lambda>r es. \<forall>t. r = Ok (t, None) \<longrightarrow> writes es)"
    by (rule emits_weaken [OF emits_do_rollback [OF srt]]) (simp, simp, fastforce simp: writes_def)
  from emits_run [OF noted rb] obtain es where es: "w_trace w' = es @ [?ev, ?ev]" "writes es" by auto
  then obtain wr where wr: "EvApply wr \<in> set (es @ [?ev, ?ev])" by (auto simp: writes_def)
  have tr: "w_trace w' = (es @ [?ev, ?ev]) @ w_trace initial_world" using es by (simp add: initial_world_def)
  from rollback_write_is_justified [OF srt run tr wr] run es show ?thesis by auto
qed

theorem watch_observation_bounded_witness:
  "\<exists>tu' e m a. given_up (demo_watched None) tu' \<and>
    run_state (check_health (demo_ctl_env (Inr (JObj [])) (100 + 20 * minute)) (demo_watched None)) initial_world =
      (Ok (tu', 0, e), m) \<and>
    (\<exists>recorded. w_trace m = EvStatusUpdate tu' a # recorded @ [EvGetApp ''argocd'' ''app'' (Inr (JObj []))])"
proof -
  let ?E = "demo_ctl_env (Inr (JObj [])) (100 + 20 * minute)" and ?tu = "demo_watched None"
  have o: "\<not> observes (read_app ?E (JObj [])) (watching_commit (updater_status ?tu)) (Some 100)"
    by (simp add: observes_def read_app_def nested_string_def nested_strings_def deployments_from_def
        nested_slice_def current_deployment_def List.map_filter_simps)
  have late: "rollback_timeout ?tu \<le> time_sub (env_now ?E n) 100" for n
    by (simp add: demo_watched_observer time_sub_def max_duration_def min_duration_def minute_def second_def)
  obtain r w' where run: "run_state (check_health ?E ?tu) initial_world = (r, w')"
    by (cases "run_state (check_health ?E ?tu) initial_world")
  from watch_observation_bounded [OF _ _ demo_watched_observer(1) _ _ o run] late run
  show ?thesis by (auto simp: initial_world_def app_location_def)
qed

theorem unreadable_observer_never_expires_witness:
  "\<exists>tu'. fst (run_state (check_health (demo_ctl_env (Inl (Errorf ''gone'')) (2 ^ 60)) (demo_watched None)) initial_world) =
    Ok (tu', 15 * second, None) \<and> watching_tag (updater_status tu') = ''v2''"
proof -
  let ?E = "demo_ctl_env (Inl (Errorf ''gone'')) (2 ^ 60)"
  have "\<exists>e w''. run_state (argocd_app_state ?E (revision_observer (demo_watched None))) w' = (Inl e, w'')" for w'
    by (simp add: argocd_app_state_def ask_def demo_watched_observer)
  from unreadable_observer_never_expires [OF this] obtain tu' where
    r: "fst (run_state (check_health ?E (demo_watched None)) initial_world) = Ok (tu', watch_poll, None)"
      "same_but_conditions (demo_watched None) tu'" by blast
  from r(2) have "watching_tag (updater_status (tu'\<lparr>updater_status := (updater_status tu')\<lparr>conditions := []\<rparr>\<rparr>)) =
      watching_tag (updater_status ((demo_watched None)\<lparr>updater_status := (updater_status (demo_watched None))\<lparr>conditions := []\<rparr>\<rparr>))"
    by (simp only: same_but_conditions_def)
  with r(1) show ?thesis by (simp add: watch_poll_def)
qed

end
