(* ===== verification/Reconcile.thy ===== *)
theory Reconcile
  imports Rollback Ownership
begin

text \<open>
  \<^verbatim>\<open>Reconcile\<close> of \<^verbatim>\<open>internal/controller/tagupdater_controller.go\<close>, as the sequence of its
  stages: the configuration guards, the watch, the choice of a release, its template data,
  the write-back and the record of its success. Each stage has the code's early returns.
\<close>

section \<open>Configuration\<close>

definition default_interval :: duration where "default_interval = 2 * minute"

definition reconcile_interval :: "tag_updater \<Rightarrow> duration" where
  "reconcile_interval tu =
     (if 0 < spec_interval (updater_spec tu) then spec_interval (updater_spec tu) else default_interval)"

definition missing_app_message :: string where
  "missing_app_message =
     ''spec.rollback.enabled requires spec.argoCDApp for read-only sync revision and health observation''"

definition admit :: "env \<Rightarrow> tag_updater \<Rightarrow> unit stage io" where
  "admit E tu =
     (let source = spec_source (updater_spec tu) in
      if resolve_digest source \<and> source_type source \<noteq> SourceTypeGit then
        fail_before_write_back E tu (reconcile_interval tu)
          (Errorf ''resolveDigest is supported only for Git sources'')
      else if rollback_on tu \<and> spec_argocd_app (updater_spec tu) = None then do {
        tu1 \<leftarrow> set_condition E tu (mk_condition ''RollbackReady'' ConditionFalse ''MissingArgoCDApp'' missing_app_message);
        tu2 \<leftarrow> set_condition E tu1 (mk_condition ''Ready'' ConditionFalse ''MissingArgoCDApp'' missing_app_message);
        _ \<leftarrow> update_status E tu2;
        _ \<leftarrow> record_event E True ''MissingArgoCDApp'' missing_app_message;
        ret (Return (reconcile_interval tu) None) }
      else ret (Next ()))"

text \<open>While a tag is watched, the handler goes on only once the watch is over.\<close>

definition watch_gate :: "env \<Rightarrow> string \<Rightarrow> tag_updater \<Rightarrow> tag_updater stage io" where
  "watch_gate E key tu =
     (if rollback_on tu \<and> watching_tag (updater_status tu) \<noteq> '''' then do {
        r \<leftarrow> check_health E tu;
        case r of
          Fail e \<Rightarrow> ret (Return 0 (Some e))
        | Abort a \<Rightarrow> ret (Crash a)
        | Ok (tu1, requeue, err) \<Rightarrow>
            (if err \<noteq> None then ret (Return 0 err)
             else if 0 < requeue then do {
               _ \<leftarrow> (if watching_since (updater_status tu1) \<noteq> None
                     then mark_reconcile_succeeded E tu1 key else ret tu1);
               ret (Return requeue None) }
             else ret (Next tu1)) }
      else ret (Next tu))"

definition refuse_configuration ::
    "env \<Rightarrow> string \<Rightarrow> tag_updater \<Rightarrow> bool \<Rightarrow> string \<Rightarrow> go_error \<Rightarrow> 'a stage io" where
  "refuse_configuration E key tu report_stalled reason e = do {
     tu1 \<leftarrow> set_condition E tu (mk_condition ''WriteBackReady'' ConditionFalse reason (error_text e));
     tu2 \<leftarrow> set_condition E tu1 (mk_condition ''Ready'' ConditionFalse reason (error_text e));
     tu3 \<leftarrow> (if report_stalled then do { c \<leftarrow> stalled_condition E key; set_condition E tu2 c } else ret tu2);
     _ \<leftarrow> update_status E tu3;
     _ \<leftarrow> record_event E True reason (error_text e);
     ret (Return (reconcile_interval tu) None) }"

definition check_configuration :: "env \<Rightarrow> string \<Rightarrow> tag_updater \<Rightarrow> unit stage io" where
  "check_configuration E key tu =
     (case validate_write_back (spec_write_back (updater_spec tu)) of
        Some e \<Rightarrow> refuse_configuration E key tu True ''MissingWriteBackConfig'' e
      | None \<Rightarrow> do {
          l \<leftarrow> ask (\<lambda>n. env_list_updaters E n) EvListUpdaters;
          case l of
            Inl e \<Rightarrow> ret (Return 0 (Some (Wrapped ''list TagUpdaters to validate field ownership'' e)))
          | Inr updaters \<Rightarrow>
              (case validate_field_ownership E updaters of
                 Some e \<Rightarrow> refuse_configuration E key tu False ''ConflictingFieldOwner'' e
               | None \<Rightarrow> ret (Next ())) })"

section \<open>Choosing a release\<close>

definition no_matching_tag :: "env \<Rightarrow> string \<Rightarrow> tag_updater \<Rightarrow> 'a stage io" where
  "no_matching_tag E key tu =
     (let source = spec_source (updater_spec tu);
          message = ''no tag in '' @ source_repo source @ '' matched pattern '' @ tag_pattern source
      in do {
        tu1 \<leftarrow> set_condition E tu (mk_condition ''Ready'' ConditionFalse ''NoMatchingTags'' message);
        tu2 \<leftarrow> set_write_back_not_attempted E tu1 message;
        r \<leftarrow> update_status E tu2;
        case r of
          Inl e \<Rightarrow> ret (Return 0 (Some e))
        | Inr _ \<Rightarrow> do {
            _ \<leftarrow> mark_reconcile_succeeded E tu2 key;
            ret (Return (reconcile_interval tu) None) } })"

text \<open>Registry credentials that cannot be read are only logged.\<close>

definition listing_auth :: "env \<Rightarrow> tag_updater \<Rightarrow> string io" where
  "listing_auth E tu =
     (let source = spec_source (updater_spec tu) in
      if source_type source = SourceTypeOCI then
        (case image_pull_secret_ref source of
           None \<Rightarrow> ret ''''
         | Some secret \<Rightarrow> do {
             r \<leftarrow> resolve_docker_auth E (meta_namespace tu) secret (source_repo source);
             ret (case r of Inl _ \<Rightarrow> '''' | Inr auth \<Rightarrow> auth) })
      else ret '''')"

definition select_release :: "env \<Rightarrow> string \<Rightarrow> tag_updater \<Rightarrow> (match \<times> release_iface) stage io" where
  "select_release E key tu =
     (let source = spec_source (updater_spec tu) in do {
        auth \<leftarrow> listing_auth E tu;
        case source_for E source auth of
          Inl e \<Rightarrow> fail_before_write_back E tu 0 e
        | Inr src \<Rightarrow> do {
            listed \<leftarrow> list_tags src;
            case listed of
              Fail e \<Rightarrow> fail_before_write_back E tu 0 e
            | Abort a \<Rightarrow> ret (Crash a)
            | Ok tags \<Rightarrow>
                (case matcher_new (lib_compile E) (tag_pattern source) of
                   Inl e \<Rightarrow> fail_before_write_back E tu 0 e
                 | Inr re \<Rightarrow>
                     (case latest (lib_sort E) re (filter_skipped tags (skipped_tags (updater_status tu))) of
                        None \<Rightarrow> no_matching_tag E key tu
                      | Some m \<Rightarrow> ret (Next (m, src)))) } })"

section \<open>The template data\<close>

definition gather_data :: "env \<Rightarrow> tag_updater \<Rightarrow> match \<Rightarrow> release_iface \<Rightarrow> strmap stage io" where
  "gather_data E tu m src = do {
     r \<leftarrow> resolve_record ''tag '' src (match_tag m) (base_data m (source_repo (spec_source (updater_spec tu))));
     case r of
       Inl e \<Rightarrow> fail_before_write_back E tu 0 e
     | Inr data \<Rightarrow> do {
         v \<leftarrow> add_rev E src (match_tag m) data;
         case v of
           Inl e \<Rightarrow> fail_before_write_back E tu 0 e
         | Inr data \<Rightarrow> do {
             d \<leftarrow> add_image_digest E tu (match_tag m) data;
             case d of
               Inl e \<Rightarrow> fail_before_write_back E tu 0 e
             | Inr data \<Rightarrow> ret (Next data) } } }"

definition digest_changed :: "tag_updater \<Rightarrow> string \<Rightarrow> strmap \<Rightarrow> bool" where
  "digest_changed tu tag data \<longleftrightarrow>
     (let st = updater_status tu in
      resolve_digest (spec_source (updater_spec tu)) \<and> tag = last_tag st \<and>
      valid_digest (last_image_digest st) \<and> last_image_digest st \<noteq> gomap_get data ''image_digest'')"

definition digest_changed_message :: string where
  "digest_changed_message =
     ''registry digest changed for the recorded release tag; refusing to replace the known-good image''"

definition digest_guard :: "env \<Rightarrow> tag_updater \<Rightarrow> string \<Rightarrow> strmap \<Rightarrow> unit stage io" where
  "digest_guard E tu tag data =
     (if digest_changed tu tag data then do {
        tu1 \<leftarrow> set_condition E tu (mk_condition ''Ready'' ConditionFalse ''RegistryDigestChanged'' digest_changed_message);
        tu2 \<leftarrow> set_condition E tu1
          (mk_condition ''WriteBackReady'' ConditionFalse ''RegistryDigestChanged'' digest_changed_message);
        r \<leftarrow> update_status E tu2;
        ret (case r of Inl e \<Rightarrow> Return 0 (Some e) | Inr _ \<Rightarrow> Return (reconcile_interval tu) None) }
      else ret (Next ()))"

section \<open>The write-back\<close>

definition write_back_current :: "string \<Rightarrow> updater_status \<Rightarrow> string \<Rightarrow> bool" where
  "write_back_current tag st head \<longleftrightarrow>
     tag = last_tag st \<and> last_write_commit st \<noteq> '''' \<and> head = last_write_commit st"

text \<open>Whether the manifest branch is asked at all: everything recorded must still be what is wanted.\<close>

definition may_skip_clone :: "tag_updater \<Rightarrow> string \<Rightarrow> strmap \<Rightarrow> bool" where
  "may_skip_clone tu tag data \<longleftrightarrow>
     (let st = updater_status tu in
      tag = last_tag st \<and> last_write_commit st \<noteq> '''' \<and> observed_generation st = meta_generation tu \<and>
      (\<not> resolve_digest (spec_source (updater_spec tu)) \<or> last_image_digest st = gomap_get data ''image_digest''))"

definition remote_unchanged :: "env \<Rightarrow> string \<Rightarrow> tag_updater \<Rightarrow> string \<Rightarrow> unit stage io" where
  "remote_unchanged E key tu tag = do {
     tu1 \<leftarrow> set_condition E tu (mk_condition ''WriteBackReady'' ConditionTrue ''RemoteUnchanged''
       ''tag and manifest branch head are unchanged; clone skipped'');
     tu2 \<leftarrow> set_condition E tu1 (mk_condition ''Ready'' ConditionTrue ''WrittenToGit'' (present_message tag));
     r \<leftarrow> update_status E tu2;
     case r of
       Inl e \<Rightarrow> ret (Return 0 (Some e))
     | Inr _ \<Rightarrow> do {
         _ \<leftarrow> mark_reconcile_succeeded E tu2 key;
         ret (Return (reconcile_interval tu) None) } }"

definition skip_clone :: "env \<Rightarrow> string \<Rightarrow> tag_updater \<Rightarrow> string \<Rightarrow> writer \<Rightarrow> unit stage io" where
  "skip_clone E key tu tag wr =
     (if may_skip_clone tu tag (wr_data wr) then do {
        h \<leftarrow> remote_head E wr;
        case h of
          Inl _ \<Rightarrow> ret (Next ())
        | Inr head \<Rightarrow>
            (if write_back_current tag (updater_status tu) head then remote_unchanged E key tu tag
             else ret (Next ())) }
      else ret (Next ()))"

definition write_failed :: "env \<Rightarrow> tag_updater \<Rightarrow> go_error \<Rightarrow> 'a stage io" where
  "write_failed E tu e = do {
     tu1 \<leftarrow> set_condition E tu (mk_condition ''WriteBackReady'' ConditionFalse ''WriteBackFailed'' (error_text e));
     _ \<leftarrow> record_event E True ''WriteBackFailed'' (error_text e);
     err \<leftarrow> set_failed E tu1 e;
     ret (Return 0 (Some err)) }"

definition written :: "env \<Rightarrow> tag_updater \<Rightarrow> string \<Rightarrow> write_result \<Rightarrow> tag_updater io" where
  "written E tu tag result =
     (let wb = spec_write_back (updater_spec tu);
          message = ''committed tag '' @ tag @ '' to '' @ wb_path wb @ '' on branch '' @ wb_branch wb
      in if committed result then do {
           _ \<leftarrow> record_event E False ''WriteBackCommitted'' message;
           set_condition E tu (mk_condition ''WriteBackReady'' ConditionTrue ''Committed'' message) }
         else set_condition E tu (mk_condition ''WriteBackReady'' ConditionTrue ''UpToDate''
           ''manifest already contains the rendered values; no commit created''))"

definition apply_release ::
    "env \<Rightarrow> tag_updater \<Rightarrow> string \<Rightarrow> writer \<Rightarrow> (tag_updater \<times> write_result) stage io" where
  "apply_release E tu tag wr = do {
     r \<leftarrow> writer_apply E wr;
     case r of
       Fail e \<Rightarrow> write_failed E tu e
     | Abort a \<Rightarrow> ret (Crash a)
     | Ok result \<Rightarrow> do { tu1 \<leftarrow> written E tu tag result; ret (Next (tu1, result)) } }"

definition write_release ::
    "env \<Rightarrow> string \<Rightarrow> tag_updater \<Rightarrow> string \<Rightarrow> strmap \<Rightarrow> (tag_updater \<times> write_result) stage io" where
  "write_release E key tu tag data = do {
     c \<leftarrow> resolve_write_back_credentials E tu;
     case c of
       Inl e \<Rightarrow> write_failed E tu e
     | Inr cred \<Rightarrow>
         and_then (skip_clone E key tu tag (writer_for tu cred data))
           (\<lambda>_. apply_release E tu tag (writer_for tu cred data)) }"

section \<open>The record of a success\<close>

definition arm_watch :: "tag_updater \<Rightarrow> time \<Rightarrow> string \<Rightarrow> string \<Rightarrow> updater_status \<Rightarrow> updater_status" where
  "arm_watch tu now tag commit st =
     (if rollback_on tu \<and> spec_argocd_app (updater_spec tu) \<noteq> None
      then st\<lparr>watching_tag := tag, watching_commit := commit, watching_since := None, watching_armed_at := Some now\<rparr>
      else st)"

definition rotate_tag :: "tag_updater \<Rightarrow> time \<Rightarrow> string \<Rightarrow> string \<Rightarrow> updater_status \<Rightarrow> updater_status" where
  "rotate_tag tu now tag commit st =
     (if tag \<noteq> last_tag st
      then arm_watch tu now tag commit (st\<lparr>previous_tag := last_tag st, previous_image_digest := last_image_digest st,
             last_tag := tag, last_updated := Some now\<rparr>)
      else st)"

definition success_status ::
    "tag_updater \<Rightarrow> time \<Rightarrow> string \<Rightarrow> strmap \<Rightarrow> string \<Rightarrow> updater_status \<Rightarrow> updater_status" where
  "success_status tu now tag data commit st =
     (rotate_tag tu now tag commit st)\<lparr>last_image_digest := gomap_get data ''image_digest'',
        observed_generation := meta_generation tu, last_write_commit := commit\<rparr>"

definition record_success ::
    "env \<Rightarrow> string \<Rightarrow> string \<Rightarrow> strmap \<Rightarrow> tag_updater \<times> write_result \<Rightarrow> unit stage io" where
  "record_success E key tag data written_to =
     (case written_to of (tu, result) \<Rightarrow> do {
        now \<leftarrow> clock E;
        tu1 \<leftarrow> set_condition E (with_status (success_status tu now tag data (commit_sha result)) tu)
          (mk_condition ''Ready'' ConditionTrue ''WrittenToGit'' (present_message tag));
        r \<leftarrow> update_status E tu1;
        case r of
          Inl e \<Rightarrow> ret (Return 0 (Some e))
        | Inr _ \<Rightarrow> do {
            _ \<leftarrow> mark_reconcile_succeeded E tu1 key;
            ret (Return (reconcile_interval tu) None) } })"

section \<open>The handler\<close>

definition release_stage :: "env \<Rightarrow> string \<Rightarrow> tag_updater \<Rightarrow> unit stage io" where
  "release_stage E key tu =
     and_then (select_release E key tu) (\<lambda>(m, src).
       and_then (gather_data E tu m src) (\<lambda>data.
         and_then (digest_guard E tu (match_tag m) data) (\<lambda>_.
           and_then (write_release E key tu (match_tag m) data)
             (record_success E key (match_tag m) data))))"

definition reconcile_updater :: "env \<Rightarrow> string \<Rightarrow> tag_updater \<Rightarrow> unit stage io" where
  "reconcile_updater E key tu = do {
     now \<leftarrow> clock E;
     _ \<leftarrow> modify_progress (tracker_attempt key (reconcile_interval tu) now);
     and_then (admit E tu) (\<lambda>_.
       and_then (watch_gate E key tu) (\<lambda>tu.
         and_then (check_configuration E key tu) (\<lambda>_.
           release_stage E key tu))) }"

definition reconcile :: "env \<Rightarrow> string \<Rightarrow> string \<Rightarrow> unit stage io" where
  "reconcile E namespace name = do {
     g \<leftarrow> ask (\<lambda>n. env_get_updater E n namespace name) (EvGetUpdater namespace name);
     case g of
       Missing _ \<Rightarrow> do {
         _ \<leftarrow> modify_progress (tracker_forget (request_key namespace name));
         ret (Return 0 None) }
     | GetFailed e \<Rightarrow> ret (Return 0 (Some e))
     | Found tu \<Rightarrow> reconcile_updater E (request_key namespace name) tu }"

section \<open>What the handler writes and stores\<close>

text \<open>
  There is a reason to apply a release: something recorded is no longer what is wanted, or the
  manifest branch may have moved from the recorded commit.
\<close>

definition needed :: "env \<Rightarrow> tag_updater \<Rightarrow> string \<Rightarrow> writer \<Rightarrow> bool" where
  "needed E tu tag wr \<longleftrightarrow> \<not> may_skip_clone tu tag (wr_data wr) \<or>
     (\<exists>w. fst (run_state (remote_head E wr) w) \<noteq> Inr (last_write_commit (updater_status tu)))"

text \<open>
  A forward write (one that is not a rollback): pinned, for a tag that is not skipped, with
  the recorded digest if the tag is the recorded one, and for a reason.
\<close>

definition forward :: "env \<Rightarrow> tag_updater \<Rightarrow> writer \<Rightarrow> bool" where
  "forward E tu wr \<longleftrightarrow>
     pinned E tu wr \<and>
     (\<exists>tag. wr_data wr ''tag'' = Some tag \<and> tag \<notin> set (skipped_tags (updater_status tu)) \<and>
        \<not> digest_changed tu tag (wr_data wr) \<and> needed E tu tag wr)"

definition no_empty_tag :: "env \<Rightarrow> tag_updater \<Rightarrow> bool" where
  "no_empty_tag E tu \<longleftrightarrow>
     (\<forall>re. lib_compile E (tag_pattern (spec_source (updater_spec tu))) = Inr re \<longrightarrow> find_submatch re '''' = None)"

abbreviation handler_event :: "env \<Rightarrow> bool \<Rightarrow> tag_updater \<Rightarrow> (writer \<Rightarrow> bool) \<Rightarrow> event \<Rightarrow> bool" where
  "handler_event E A tu0 W \<equiv> ctl_event E (kept A tu0) W"

lemma ensures_fail_kept:
  "kept A tu0 tu \<Longrightarrow> ensures (handler_event E A tu0 W) (fail_before_write_back E tu d e) (on_next Q)"
  by (rule ensures_fail_before_write_back [OF stores_kept])

lemma ensures_mark_kept:
  "kept A tu0 tu \<Longrightarrow> ensures (handler_event E A tu0 W) (mark_reconcile_succeeded E tu key) (kept A tu0)"
  by (rule ensures_mark [OF stores_kept])

lemma ensures_update_kept:
  "kept A tu0 tu \<Longrightarrow> ensures (handler_event E A tu0 W) (update_status E tu) (\<lambda>_. True)"
  by (rule ensures_calls) simp

lemma ensures_admit:
  "kept A tu0 tu \<Longrightarrow> ensures (handler_event E A tu0 W) (admit E tu) (on_next (\<lambda>_. True))"
  unfolding admit_def Let_def
  by (intro ensures_if ensures_fail_kept ensures_bind [OF ensures_set_kept]
      ensures_bind_any [OF ensures_update_kept] ensures_bind_any [OF ensures_record] ensures_return) auto

lemma ensures_watch_gate:
  assumes srt: "slice_sort (lib_sort E)" and k: "kept A tu tu"
    and W: "\<And>tu' c d. unrotated A tu tu' \<Longrightarrow> restores E tu d \<Longrightarrow> W (writer_for tu' c d)"
  shows "ensures (handler_event E A tu W) (watch_gate E key tu) (on_next (kept A tu))"
proof -
  have u: "unrotated A tu tu" using k by (simp add: unrotated_def)
  have mark: "ensures (handler_event E A tu W) (do {
      _ \<leftarrow> (if b then mark_reconcile_succeeded E t key else ret t);
      ret (Return d None) }) (on_next (kept A tu))" if "kept A tu t" for t b d
    by (intro ensures_bind_any ensures_if ensures_weaken [OF ensures_mark_kept [OF that]] ensures_return) auto
  show ?thesis
    unfolding watch_gate_def
    apply (intro ensures_if)
     apply (rule ensures_bind [OF ensures_check_health [where W = W, OF srt u]], simp, erule (1) W)
     apply (intro ensures_outcome ensures_prod ensures_if ensures_return mark)
          apply (auto simp: k intro!: ensures_return)
    done
qed

lemma ensures_refuse:
  "kept A tu0 tu \<Longrightarrow> ensures (handler_event E A tu0 W) (refuse_configuration E key tu b r e) (on_next Q)"
  unfolding refuse_configuration_def
  by (intro ensures_bind [OF ensures_set_kept] ensures_bind [where R = "kept A tu0"] ensures_if
      ensures_bind [OF ensures_stalled_condition] ensures_set_kept
      ensures_bind_any [OF ensures_update_kept] ensures_bind_any [OF ensures_record] ensures_return) auto

lemma ensures_check_configuration:
  "kept A tu0 tu \<Longrightarrow> ensures (handler_event E A tu0 W) (check_configuration E key tu) (on_next (\<lambda>_. True))"
  unfolding check_configuration_def
  by (intro ensures_option ensures_refuse ensures_bind_any ensures_ask ensures_sum ensures_return) auto

lemma ensures_no_matching_tag:
  "kept A tu0 tu \<Longrightarrow> ensures (handler_event E A tu0 W) (no_matching_tag E key tu) (on_next Q)"
  unfolding no_matching_tag_def Let_def
  by (intro ensures_bind [OF ensures_set_kept] ensures_bind [OF ensures_not_attempted [OF stores_kept]]
      ensures_bind_any [OF ensures_update_kept] ensures_sum ensures_bind [OF ensures_mark_kept] ensures_return) auto

text \<open>A selected release: a listed tag that is not skipped and matches, with its source.\<close>

definition selected :: "env \<Rightarrow> tag_updater \<Rightarrow> match \<Rightarrow> release_iface \<Rightarrow> bool" where
  "selected E tu m src \<longleftrightarrow>
     match_tag m \<notin> set (skipped_tags (updater_status tu)) \<and>
     (\<exists>re. lib_compile E (tag_pattern (spec_source (updater_spec tu))) = Inr re \<and> find_submatch re (match_tag m) \<noteq> None) \<and>
     (\<exists>auth. source_for E (spec_source (updater_spec tu)) auth = Inr src)"

lemma ensures_select_release:
  assumes srt: "slice_sort (lib_sort E)" and k: "kept A tu0 tu"
  shows "ensures (handler_event E A tu0 W) (select_release E key tu) (on_next (\<lambda>(m, src). selected E tu m src))"
proof -
  have auth: "ensures (handler_event E A tu0 W) (listing_auth E tu) (\<lambda>_. True)"
    unfolding listing_auth_def Let_def
    by (intro ensures_if ensures_option ensures_bind_any [OF ensures_reads_ctl [OF quiet_docker_auth]] ensures_return TrueI)
  have "selected E tu m src"
    if "source_for E (spec_source (updater_spec tu)) auth = Inr src"
      and "matcher_new (lib_compile E) (tag_pattern (spec_source (updater_spec tu))) = Inr re"
      and "latest (lib_sort E) re (filter_skipped tags (skipped_tags (updater_status tu))) = Some m" for auth src re tags m
    using latest_in [OF srt that(3)] that(1,2)
    by (auto simp: selected_def match_all_set matcher_new_def result_iff)
  then show ?thesis
    unfolding select_release_def Let_def
    apply (intro ensures_bind_any [OF auth] ensures_sum ensures_fail_kept [OF k])
    subgoal for auth src
      using release_source.quiet_list [OF source_for_release, of E "spec_source (updater_spec tu)" auth src]
      by (intro ensures_bind_any [OF ensures_reads_ctl] ensures_outcome ensures_sum ensures_option
          ensures_fail_kept [OF k] ensures_no_matching_tag [OF k] ensures_return) auto
    done
qed

lemma selected_fit:
  "selected E tu m src \<Longrightarrow> data ''tag'' = Some (match_tag m) \<Longrightarrow>
    ensures reads (add_rev E src t data) (\<lambda>r. \<forall>d. r = Inr d \<longrightarrow> fit_data E tu (match_tag m) d)"
  unfolding selected_def by (elim conjE exE) (rule ensures_add_rev)

lemma ensures_gather_data:
  assumes k: "kept A tu0 tu" and s: "selected E tu m src"
  shows "ensures (handler_event E A tu0 W) (gather_data E tu m src)
    (on_next (\<lambda>d. fit_data E tu (match_tag m) d \<and> digest_fit tu d))"
proof -
  obtain auth where src: "source_for E (spec_source (updater_spec tu)) auth = Inr src"
    using s by (auto simp: selected_def)
  have digest: "ensures (handler_event E A tu0 W) (add_image_digest E tu (match_tag m) d)
      (\<lambda>r. \<forall>v. r = Inr v \<longrightarrow> fit_data E tu (match_tag m) v \<and> digest_fit tu v)"
    if "fit_data E tu (match_tag m) d" for d
    by (rule ensures_weaken [OF ensures_reads_ctl [OF add_image_digest_frame]])
      (use that in \<open>auto simp: digest_fit_def gomap_get_def fit_data_digest split: if_splits\<close>)
  show ?thesis
    unfolding gather_data_def
    by (intro ensures_bind [OF ensures_reads_ctl [OF ensures_resolve_record [OF src, of _ "match_tag m"]]]
        ensures_bind [OF ensures_reads_ctl [OF selected_fit [OF s]]] ensures_bind [OF digest]
        ensures_sum ensures_fail_kept [OF k] ensures_return) auto
qed

lemma ensures_digest_guard:
  "kept A tu0 tu \<Longrightarrow> ensures (handler_event E A tu0 W) (digest_guard E tu tag d)
    (on_next (\<lambda>_. \<not> digest_changed tu tag d))"
  unfolding digest_guard_def
  by (intro ensures_if ensures_bind [OF ensures_set_kept] ensures_bind_any [OF ensures_update_kept] ensures_return)
    (auto split: sum.splits)

lemma ensures_remote_head: "ensures reads (remote_head E wr) (\<lambda>_. True)"
  unfolding remote_head_def cleanup_def
  by (intro ensures_intro ensures_bind_any ensures_writer_auth TrueI) simp_all

lemma ensures_head_answer:
  assumes "ensures P (remote_head E wr) (\<lambda>_. True)"
  shows "ensures P (remote_head E wr) (\<lambda>h. \<exists>w. fst (run_state (remote_head E wr) w) = h)"
  using assms unfolding ensures_def by (metis fst_conv)

lemma kept_ready:
  "kept A tu0 tu \<Longrightarrow> last_tag (updater_status tu) = tag \<Longrightarrow>
    kept A tu0 (put_condition n (mk_condition ''Ready'' ConditionTrue ''WrittenToGit'' (present_message tag)) tu)"
  by (auto simp: kept_def status_ok_def ready_ok_put)

lemma needed_moved:
  "fst (run_state (remote_head E wr) w) = h \<Longrightarrow> h \<noteq> Inr (last_write_commit (updater_status tu)) \<Longrightarrow> needed E tu tag wr"
  unfolding needed_def by blast

lemma needed_changed: "\<not> may_skip_clone tu tag (wr_data wr) \<Longrightarrow> needed E tu tag wr"
  by (simp add: needed_def)

lemma ensures_skip_clone:
  assumes k: "kept A tu0 tu"
  shows "ensures (handler_event E A tu0 W) (skip_clone E key tu tag wr) (on_next (\<lambda>_. needed E tu tag wr))"
proof -
  have unchanged: "ensures (handler_event E A tu0 W) (remote_unchanged E key tu tag) (on_next N)"
    if "write_back_current tag (updater_status tu) head" for head N
    unfolding remote_unchanged_def
    by (intro ensures_bind [OF ensures_put [where I = "\<lambda>t. kept A tu0 t \<and> last_tag (updater_status t) = tag"]]
        ensures_bind [OF ensures_put [where I = "kept A tu0"]] ensures_bind_any [OF ensures_update_kept] ensures_sum
        ensures_bind [OF ensures_mark_kept] ensures_return)
      (use k that in \<open>auto simp: kept_put kept_ready write_back_current_def\<close>)
  show ?thesis
    unfolding skip_clone_def
    by (intro ensures_if ensures_bind [OF ensures_head_answer [OF ensures_reads_ctl [OF ensures_remote_head]]] ensures_sum
        unchanged ensures_return)
      (auto simp: write_back_current_def may_skip_clone_def Let_def intro: needed_moved needed_changed)
qed

lemma ensures_write_failed:
  "kept A tu0 tu \<Longrightarrow> ensures (handler_event E A tu0 W) (write_failed E tu e) (on_next Q)"
  unfolding write_failed_def
  by (intro ensures_bind [OF ensures_set_kept] ensures_bind_any [OF ensures_record]
      ensures_bind_any [OF ensures_set_failed [OF stores_kept]] ensures_return) auto

lemma ensures_write_release:
  assumes k: "kept A tu0 tu" and W: "\<And>c. needed E tu tag (writer_for tu c d) \<Longrightarrow> W (writer_for tu c d)"
  shows "ensures (handler_event E A tu0 W) (write_release E key tu tag d) (on_next (\<lambda>(tu', r). kept A tu0 tu'))"
proof -
  have apply_step: "ensures (handler_event E A tu0 W) (apply_release E tu tag wr) (on_next (\<lambda>(tu', r). kept A tu0 tu'))"
    if "W wr" for wr
    unfolding apply_release_def written_def Let_def
    by (intro ensures_bind_any [OF ensures_writer_apply] that ensures_outcome ensures_write_failed k
        ensures_bind [where R = "kept A tu0"] ensures_if ensures_bind_any [OF ensures_record] ensures_set_kept
        ensures_return) auto
  show ?thesis
    unfolding write_release_def
    by (intro ensures_bind_any [OF ensures_reads_ctl [OF quiet_write_back_credentials]] ensures_sum
        ensures_write_failed k ensures_and_then [OF ensures_skip_clone [OF k]] apply_step W)
qed

lemma watch_ok_success:
  "watch_ok st \<Longrightarrow> tag \<noteq> '''' \<Longrightarrow> watch_ok (success_status tu now tag d commit st)"
  by (simp add: watch_ok_def success_status_def rotate_tag_def arm_watch_def)

lemma last_tag_success: "last_tag (success_status tu now tag d commit st) = tag"
  by (simp add: success_status_def rotate_tag_def arm_watch_def)

lemma ensures_record_success:
  assumes "kept A tu0 tu" and "A \<longrightarrow> tag \<noteq> ''''"
  shows "ensures (handler_event E A tu0 W) (record_success E key tag d (tu, r)) (on_next (\<lambda>_. True))"
proof -
  have k: "kept A tu0 (put_condition n (mk_condition ''Ready'' ConditionTrue ''WrittenToGit'' (present_message tag))
      (with_status (success_status tu now tag d c) tu))" for n now c
    using assms watch_ok_success by (auto simp: kept_def status_ok_def ready_ok_put last_tag_success)
  show ?thesis
    unfolding record_success_def prod.case
    by (intro ensures_bind_any [OF ensures_clock] ensures_bind [OF ensures_put [where I = "kept A tu0"]]
        ensures_bind_any [OF ensures_update_kept] ensures_sum ensures_bind [OF ensures_mark_kept] ensures_return) (auto intro: k)
qed

lemma ensures_release_stage:
  assumes srt: "slice_sort (lib_sort E)" and k: "kept A tu0 tu" and ne: "A \<longrightarrow> no_empty_tag E tu0"
  shows "ensures (handler_event E A tu0 (forward E tu)) (release_stage E key tu) (on_next (\<lambda>_. True))"
proof -
  have pattern: "spec_source (updater_spec tu) = spec_source (updater_spec tu0)"
    using k by (simp add: kept_def same_object_def)
  have nonempty: "A \<longrightarrow> match_tag m \<noteq> ''''" if "selected E tu m src" for m src
    using ne that by (auto simp: no_empty_tag_def selected_def pattern)
  have fwd: "forward E tu (writer_for tu c d)"
    if "selected E tu m src" "fit_data E tu (match_tag m) d \<and> digest_fit tu d" "\<not> digest_changed tu (match_tag m) d"
      "needed E tu (match_tag m) (writer_for tu c d)"
    for m src d c
    using that by (auto simp: forward_def pinned_def selected_def fit_data_def)
  show ?thesis
    unfolding release_stage_def
    apply (rule ensures_and_then [OF ensures_select_release [OF srt k]])
    apply (rule ensures_prod)
    apply (rule ensures_and_then [OF ensures_gather_data [OF k]])
     apply simp
    apply (rule ensures_and_then [OF ensures_digest_guard [OF k]])
    apply (rule ensures_and_then [OF ensures_write_release [OF k]])
     apply (rule fwd)
       apply simp_all
    subgoal for a m src data c by (cases c) (auto intro!: ensures_record_success dest: nonempty)
    done
qed

lemma forward_pinned: "forward E tu wr \<Longrightarrow> pinned E tu wr"
  by (simp add: forward_def)

lemma restores_pinned:
  "unrotated A tu tu' \<Longrightarrow> restores E tu d \<Longrightarrow> pinned E tu (writer_for tu' c d)"
  by (auto simp: unrotated_def kept_def same_object_def restores_def pinned_def)

lemma ensures_reconcile_updater:
  assumes srt: "slice_sort (lib_sort E)" and ne: "A \<longrightarrow> no_empty_tag E tu \<and> status_ok (updater_status tu)"
  shows "ensures (handler_event E A tu (pinned E tu)) (reconcile_updater E key tu) (on_next (\<lambda>_. True))"
proof -
  have k: "kept A tu tu" using ne by (auto intro: kept_refl)
  have release: "ensures (handler_event E A tu (pinned E tu)) (release_stage E key t) (on_next (\<lambda>_. True))"
    if "kept A tu t" for t
    by (rule ensures_ctl_weaken [OF ensures_release_stage [OF srt that]])
      (use ne in \<open>auto dest: forward_pinned simp: kept_pinned [OF that]\<close>)
  show ?thesis
    unfolding reconcile_updater_def
    by (intro ensures_bind_any [OF ensures_clock] ensures_bind_any [OF ensures_progress(2)]
        ensures_and_then [OF ensures_admit [OF k]]
        ensures_and_then [OF ensures_watch_gate [where W = "pinned E tu", OF srt k restores_pinned]]
        ensures_and_then [OF ensures_check_configuration] release)
qed

lemma watch_gate_idle:
  "\<not> (rollback_on tu \<and> watching_tag (updater_status tu) \<noteq> '''') \<Longrightarrow> watch_gate E key tu = ret (Next tu)"
  unfolding watch_gate_def by (rule if_not_P)

lemma ensures_reconcile_idle:
  assumes srt: "slice_sort (lib_sort E)" and ne: "A \<longrightarrow> no_empty_tag E tu \<and> status_ok (updater_status tu)"
    and idle: "\<not> (rollback_on tu \<and> watching_tag (updater_status tu) \<noteq> '''')"
  shows "ensures (handler_event E A tu (forward E tu)) (reconcile_updater E key tu) (on_next (\<lambda>_. True))"
proof -
  have k: "kept A tu tu" using ne by (auto intro: kept_refl)
  have gate: "ensures (handler_event E A tu (forward E tu)) (watch_gate E key tu) (on_next (\<lambda>t. t = tu))"
    by (simp add: watch_gate_idle [OF idle] ensures_return)
  have rest: "ensures (handler_event E A tu (forward E tu))
      (and_then (check_configuration E key t) (\<lambda>_. release_stage E key t)) (on_next (\<lambda>_. True))" if "t = tu" for t
    unfolding that
    by (intro ensures_and_then [OF ensures_check_configuration [OF k]] ensures_release_stage [OF srt k])
      (use ne in auto)
  show ?thesis
    unfolding reconcile_updater_def
    by (intro ensures_bind_any [OF ensures_clock] ensures_bind_any [OF ensures_progress(2)]
        ensures_and_then [OF ensures_admit [OF k]] ensures_and_then [OF gate] rest)
qed

text \<open>From the handler to the request: the object is read once, at the start.\<close>

lemma reconcile_run:
  assumes "env_get_updater E (w_tick w) ns name = Found tu"
    and "ensures P (reconcile_updater E (request_key ns name) tu) Q"
    and "run_state (reconcile E ns name) w = (r, w')"
  shows "\<exists>es. w_trace w' = es @ w_trace w \<and> (\<forall>e\<in>set es. e = EvGetUpdater ns name (Found tu) \<or> P e) \<and> Q r"
proof -
  let ?w = "w\<lparr>w_tick := Suc (w_tick w), w_trace := EvGetUpdater ns name (Found tu) # w_trace w\<rparr>"
  have "run_state (reconcile_updater E (request_key ns name) tu) ?w = (r, w')"
    using assms(1,3) by (simp add: reconcile_def ask_def)
  from ensures_run [OF assms(2) this] obtain es where
    "w_trace w' = es @ EvGetUpdater ns name (Found tu) # w_trace w" "\<forall>e\<in>set es. P e" "Q r" by auto
  then show ?thesis by (intro exI [of _ "es @ [EvGetUpdater ns name (Found tu)]"]) auto
qed

end
