(* ===== verification/Controller.thy ===== *)
theory Controller
  imports Reconcile
begin

text \<open>
  The properties of the whole handler, over all requests, environments and stored objects, and
  scenarios of it in the concrete world of the examples.
\<close>

section \<open>Properties\<close>

text \<open>
  C9. Whatever manifest a reconcile writes, in a forward write or a rollback, is what the
  manifest editor made of some content for the updater's own targets and pinned data, and
  differs from that content.
\<close>

theorem reconcile_writes_only_edits:
  assumes "slice_sort (lib_sort E)" and "env_get_updater E (w_tick w) ns name = Found tu"
    and "run_state (reconcile E ns name) w = (r, w')"
    and "w_trace w' = es @ w_trace w" and "EvFs (WriteFile f content) a \<in> set es"
  shows "\<exists>wr input. pinned E tu wr \<and>
    update_manifest (lib_manifest E) input (wr_targets wr) (wr_data wr) = Ok (content, True)"
proof -
  have "ensures (handler_event E False tu (pinned E tu)) (reconcile_updater E (request_key ns name) tu) (on_next (\<lambda>_. True))"
    by (rule ensures_reconcile_updater [OF assms(1)]) simp
  from reconcile_run [OF assms(2) this assms(3)] assms(4,5) show ?thesis by (fastforce simp: edited_for_def)
qed

lemma forward_run:
  assumes "slice_sort (lib_sort E)" and "env_get_updater E (w_tick w) ns name = Found tu"
    and "\<not> (rollback_on tu \<and> watching_tag (updater_status tu) \<noteq> '''')"
    and "run_state (reconcile E ns name) w = (r, w')"
    and "w_trace w' = es @ w_trace w" and "EvApply wr \<in> set es"
  shows "forward E tu wr"
proof -
  have "ensures (handler_event E False tu (forward E tu)) (reconcile_updater E (request_key ns name) tu) (on_next (\<lambda>_. True))"
    by (rule ensures_reconcile_idle [OF assms(1) _ assms(3)]) simp
  from reconcile_run [OF assms(2) this assms(4)] assms(5,6) show ?thesis by fastforce
qed

text \<open>
  C2. While no tag is watched, a reconcile writes only a tag that is not skipped, and never
  replaces the recorded digest of the recorded tag by another one.
\<close>

theorem forward_write_keeps_known_good:
  assumes "slice_sort (lib_sort E)" and "env_get_updater E (w_tick w) ns name = Found tu"
    and "\<not> (rollback_on tu \<and> watching_tag (updater_status tu) \<noteq> '''')"
    and "run_state (reconcile E ns name) w = (r, w')"
    and "w_trace w' = es @ w_trace w" and "EvApply wr \<in> set es"
  shows "\<exists>tag. wr_data wr ''tag'' = Some tag \<and> tag \<notin> set (skipped_tags (updater_status tu)) \<and>
    (resolve_digest (spec_source (updater_spec tu)) \<and> tag = last_tag (updater_status tu) \<and>
       valid_digest (last_image_digest (updater_status tu)) \<longrightarrow>
     gomap_get (wr_data wr) ''image_digest'' = last_image_digest (updater_status tu))"
  using forward_run [OF assms] by (auto simp: forward_def digest_changed_def Let_def)

text \<open>
  C13. A recorded release is left alone: if the last write recorded a commit, the object has not
  been edited since, and the manifest branch is always found at that commit, then a reconcile
  without a watch applies nothing for the recorded tag, unless a digest is configured and the
  one recorded is missing or malformed.
\<close>

theorem recorded_release_left_alone:
  assumes "slice_sort (lib_sort E)" and "env_get_updater E (w_tick w) ns name = Found tu"
    and "\<not> (rollback_on tu \<and> watching_tag (updater_status tu) \<noteq> '''')"
    and "run_state (reconcile E ns name) w = (r, w')" and "w_trace w' = es @ w_trace w"
    and "wr_data wr ''tag'' = Some (last_tag (updater_status tu))"
    and "last_write_commit (updater_status tu) \<noteq> ''''"
    and "observed_generation (updater_status tu) = meta_generation tu"
    and "\<And>w. fst (run_state (remote_head E wr) w) = Inr (last_write_commit (updater_status tu))"
    and "resolve_digest (spec_source (updater_spec tu)) \<longrightarrow> valid_digest (last_image_digest (updater_status tu))"
  shows "EvApply wr \<notin> set es"
proof
  assume "EvApply wr \<in> set es"
  from forward_run [OF assms(1-5) this] assms(6) have
    "needed E tu (last_tag (updater_status tu)) wr" "\<not> digest_changed tu (last_tag (updater_status tu)) (wr_data wr)"
    by (auto simp: forward_def)
  with assms(7-10) show False by (auto simp: needed_def may_skip_clone_def digest_changed_def Let_def)
qed

text \<open>
  The stored object over time: it starts without status, users change its specification, and a
  reconcile stores what it sends in a status update that the API server accepts.
\<close>

inductive stored :: "tag_updater \<Rightarrow> bool" where
  created: "updater_status tu = empty_status \<Longrightarrow> stored tu"
| edited: "stored tu \<Longrightarrow> stored (tu\<lparr>updater_spec := spec, meta_generation := gen\<rparr>)"
| reconciled: "stored tu \<Longrightarrow> slice_sort (lib_sort E) \<Longrightarrow> no_empty_tag E tu \<Longrightarrow>
    env_get_updater E (w_tick w) ns name = Found tu \<Longrightarrow>
    run_state (reconcile E ns name) w = (r, w') \<Longrightarrow> w_trace w' = es @ w_trace w \<Longrightarrow>
    EvStatusUpdate tu' (Inr ()) \<in> set es \<Longrightarrow> stored tu'"

text \<open>
  C7. In every stored object the watch is consistent: a watched tag has an arming time, so it has
  a deadline, and without one no commit, arming time or health clock is left; skipped tags
  and condition types do not repeat. And Ready is True only with the report that the values of
  the recorded tag are in git. (The pattern is assumed not to accept the empty tag.)
\<close>

theorem stored_status_ok:
  assumes "stored tu"
  shows "status_ok (updater_status tu)"
  using assms
proof (induction rule: stored.induct)
  case (created tu)
  then show ?case by (simp add: status_ok_def watch_ok_def ready_ok_def names_tag_def verdict_of_def empty_status_def single_conditions_def)
next
  case (edited tu spec gen)
  then show ?case by simp
next
  case (reconciled tu E w ns name r w' es tu')
  have "ensures (handler_event E True tu (pinned E tu)) (reconcile_updater E (request_key ns name) tu) (on_next (\<lambda>_. True))"
    by (rule ensures_reconcile_updater) (use reconciled in auto)
  from reconcile_run [OF reconciled(4) this reconciled(5)] reconciled(6,7)
  have "kept True tu tu'" by fastforce
  then show ?case by (simp add: kept_def)
qed

lemma emits_record_success:
  "emits (record_success E key tag data (tu, result)) (\<lambda>_ es. \<exists>t n r rest. es = rest @ [EvStatusUpdate
    (put_condition t (mk_condition ''Ready'' ConditionTrue ''WrittenToGit'' (present_message tag))
      (with_status (success_status tu n tag data (commit_sha result)) tu)) r])"
proof -
  have mark: "emits (mark_reconcile_succeeded E x key) (\<lambda>_ _. True)" for x
    by (rule emits_weaken [OF emits_ensures [OF ensures_mark_kept [OF kept_refl [where A = False]]]]) auto
  show ?thesis
    unfolding record_success_def prod.case
    apply (rule emits_bind_silent(1))
    apply (rule emits_bind_put)
    apply (rule emits_bind_call(7))
    apply (intro emits_cases emits_return emits_bind [OF mark]; simp; blast)
    done
qed

text \<open>
  C12. The record of a success: the chosen tag is the last one with its digest, commit and
  generation; a new tag rotates the old tag and its digest into the previous ones and, with
  rollback on, arms the watch of the written commit; the same tag leaves all of that alone.
\<close>

theorem success_recorded:
  assumes "run_state (record_success E key tag data (tu, result)) w = (s, w')"
  shows "\<exists>tu' r now rest. w_trace w' = rest @ EvStatusUpdate tu' r # w_trace w \<and> same_object tu tu' \<and>
    verdict tu' ''Ready'' = Some (ConditionTrue, ''WrittenToGit'', present_message tag) \<and>
    (let st = updater_status tu; st' = updater_status tu' in
     last_tag st' = tag \<and> last_image_digest st' = gomap_get data ''image_digest'' \<and>
     last_write_commit st' = commit_sha result \<and> observed_generation st' = meta_generation tu \<and>
     skipped_tags st' = skipped_tags st \<and>
     (if tag = last_tag st then previous_tag st' = previous_tag st \<and>
        previous_image_digest st' = previous_image_digest st \<and> watching_tag st' = watching_tag st
      else previous_tag st' = last_tag st \<and> previous_image_digest st' = last_image_digest st \<and>
        (rollback_on tu \<and> spec_argocd_app (updater_spec tu) \<noteq> None \<longrightarrow> watching_tag st' = tag \<and>
           watching_commit st' = commit_sha result \<and> watching_since st' = None \<and> watching_armed_at st' = Some now)))"
proof -
  let ?u = "\<lambda>t n. put_condition t (mk_condition ''Ready'' ConditionTrue ''WrittenToGit'' (present_message tag))
      (with_status (success_status tu n tag data (commit_sha result)) tu)"
  from emits_run [OF emits_record_success assms] obtain t n r rest where tr: "w_trace w' = rest @ EvStatusUpdate (?u t n) r # w_trace w"
    by auto
  have v: "verdict (?u t n) ''Ready'' = Some (ConditionTrue, ''WrittenToGit'', present_message tag)"
    by (simp add: verdict_put_condition)
  have same: "same_object tu (?u t n)" by simp
  obtain cs where st: "updater_status (?u t n) =
      (success_status tu n tag data (commit_sha result) (updater_status tu))\<lparr>conditions := cs\<rparr>"
    by (simp add: put_condition_def)
  show ?thesis
    apply (rule exI [of _ "?u t n"], rule exI [of _ r], rule exI [of _ n], rule exI [of _ rest])
    apply (intro conjI tr same v)
    apply (simp only: st Let_def)
    apply (simp add: success_status_def rotate_tag_def arm_watch_def)
    done
qed

section \<open>A reconcile, stage by stage\<close>

lemma demo_list_updaters: "validate_field_ownership (demo_ctl_env app now) [] = None"
  by (simp add: validate_field_ownership_def)

lemma demo_write_back: "validate_write_back (spec_write_back demo_spec) = None"
proof -
  have "missing_write_back (spec_write_back demo_spec) = []" by code_simp
  then show ?thesis by (simp add: validate_write_back_def)
qed

definition demo_match :: match where
  "demo_match = \<lparr>match_tag = ''v2'', captures = [''n'' \<mapsto> ''2'']\<rparr>"

lemma demo_latest: "latest insertion_sort demo_regexp [''v1'', ''v2''] = Some demo_match"
proof -
  have "build_number \<lparr>match_tag = ''v1'', captures = [''n'' \<mapsto> ''1'']\<rparr> = Some 1"
    "build_number \<lparr>match_tag = ''v2'', captures = [''n'' \<mapsto> ''2'']\<rparr> = Some 2"
    by code_simp+
  then show ?thesis
    by (simp add: latest_def match_all_def demo_regexp_def insertion_sort_def latest_less_def demo_match_def)
qed

text \<open>An updater of the example's specification that skips nothing.\<close>

definition demo_like :: "tag_updater \<Rightarrow> bool" where
  "demo_like tu \<longleftrightarrow> updater_spec tu = demo_spec \<and> meta_namespace tu = ''ns'' \<and>
     skipped_tags (updater_status tu) = []"

lemma demo_admit:
  "demo_like tu \<Longrightarrow> run_state (admit E tu) w = (Next (), w)"
  by (simp add: admit_def demo_like_def) (simp add: demo_spec_def Let_def)

lemma demo_configuration:
  "demo_like tu \<Longrightarrow> \<exists>w'. run_state (check_configuration (demo_ctl_env app now) key tu) w = (Next (), w')"
  by (simp add: check_configuration_def demo_like_def demo_write_back ask_def demo_list_updaters)

lemma demo_select:
  assumes "demo_like tu"
  shows "\<exists>w'. run_state (select_release (demo_ctl_env app now) key tu) w =
    (Next (demo_match, git_iface (demo_ctl_env app now) demo_git_source), w')"
proof -
  obtain w1 where l: "run_state (list_tags (git_iface (demo_ctl_env app now) demo_git_source)) w = (Ok [''v1'', ''v2''], w1)"
    using demo_list_tags by blast
  have auth: "listing_auth E tu = ret ''''" for E
    using assms by (simp add: listing_auth_def demo_like_def) (simp add: demo_spec_def SourceTypeGit_def SourceTypeOCI_def)
  show ?thesis
    using assms
    by (simp add: select_release_def Let_def auth demo_like_def demo_source_for l matcher_new_def
        filter_skipped_def demo_latest)
qed

definition demo_data :: strmap where
  "demo_data = (base_data demo_match (source_repo (spec_source demo_spec)))(''rev'' \<mapsto> ''c2'')"

lemma demo_data_tag: "gomap_get demo_data ''tag'' = ''v2''"
  by (simp add: demo_data_def gomap_get_def) (simp add: demo_match_def)

lemma demo_gather:
  assumes "demo_like tu"
  shows "\<exists>w'. run_state (gather_data (demo_ctl_env app now) tu demo_match
      (git_iface (demo_ctl_env app now) demo_git_source)) w = (Next demo_data, w')"
proof -
  let ?E = "demo_ctl_env app now"
  obtain w' where "run_state (add_rev ?E (git_iface ?E demo_git_source) ''v2''
      (base_data demo_match (source_repo (spec_source demo_spec)))) w = (Inr demo_data, w')"
    unfolding demo_data_def using demo_add_rev by blast
  moreover have "add_image_digest ?E tu t d = ret (Inr d)" for t d
    using assms by (simp add: add_image_digest_def demo_like_def) (simp add: demo_spec_def Let_def)
  moreover have "match_tag demo_match = ''v2''" by (simp add: demo_match_def)
  ultimately show ?thesis
    using assms by (simp add: gather_data_def demo_record demo_like_def)
qed

lemma demo_digest_guard: "demo_like tu \<Longrightarrow> digest_guard E tu t d = ret (Next ())"
  by (simp add: digest_guard_def digest_changed_def demo_like_def) (simp add: demo_spec_def Let_def)

lemma demo_like_credentials:
  assumes "demo_like tu"
  shows "\<exists>w'. run_state (resolve_write_back_credentials (demo_ctl_env app now) tu) w = (Inr demo_credentials, w')"
proof -
  have u: "updater_spec tu = updater_spec (demo_updater ''a'')" "meta_namespace tu = meta_namespace (demo_updater ''a'')"
    using assms by (simp_all add: demo_like_def demo_updater_def)
  have "resolve_write_back_credentials E tu = resolve_write_back_credentials E (demo_updater ''a'')" for E
    unfolding resolve_write_back_credentials_def u by (rule refl)
  then show ?thesis using demo_secret_credentials by simp
qed

lemma demo_like_writer: "demo_like tu \<Longrightarrow> writer_for tu demo_credentials d = demo_wr d"
  by (simp add: writer_for_def demo_wr_def demo_like_def) (simp add: demo_spec_def)

text \<open>A new tag is written and recorded.\<close>

lemma demo_write:
  assumes "demo_like tu" and "last_tag (updater_status tu) \<noteq> ''v2''"
  shows "\<exists>tu' r w'. run_state (write_release (demo_ctl_env app now) key tu ''v2'' demo_data) w = (Next (tu', r), w') \<and>
    commit_sha r = ''sha'' \<and> demo_like tu' \<and> meta_name tu' = meta_name tu \<and> EvApply (demo_wr demo_data) \<in> set (w_trace w') \<and>
    (\<exists>f c a. EvFs (WriteFile f c) a \<in> set (w_trace w'))"
proof -
  let ?E = "demo_ctl_env app now"
  obtain w1 where c: "run_state (resolve_write_back_credentials ?E tu) w = (Inr demo_credentials, w1)"
    using demo_like_credentials [OF assms(1)] by blast
  have skip: "skip_clone ?E key tu ''v2'' wr = ret (Next ())" for wr
    using assms(2) by (simp add: skip_clone_def may_skip_clone_def Let_def)
  obtain w2 where a: "run_state (writer_apply ?E (demo_wr demo_data)) w1 = (Ok \<lparr>committed = True, commit_sha = ''sha''\<rparr>, w2)"
    using demo_ctl_apply [OF demo_data_tag] by blast
  have noted: "EvApply (demo_wr demo_data) \<in> set (w_trace w2)"
    using emits_run [OF emits_apply_noted a] by auto
  have wrote: "\<exists>f c a. EvFs (WriteFile f c) a \<in> set (w_trace w2)"
    using emits_run [OF emits_writer_apply a] by (auto simp: commit_trace_def commits_manifest_def) blast
  have put: "demo_like (put_condition t x tu)" for t x
    using assms(1) by (simp add: demo_like_def put_condition_def)
  show ?thesis
    using put noted wrote
    by (auto simp: write_release_def c demo_like_writer [OF assms(1)] and_then_def skip apply_release_def a
        written_def Let_def record_event_def note_event_def set_condition_def clock_def put_condition_def)
qed

lemma demo_reconcile_new:
  "\<exists>r w'. run_state (reconcile (demo_ctl_env app now) ''ns'' ''a'') initial_world = (r, w') \<and>
    EvApply (demo_wr demo_data) \<in> set (w_trace w') \<and> (\<exists>f c a. EvFs (WriteFile f c) a \<in> set (w_trace w')) \<and>
    (\<exists>tu a. EvStatusUpdate tu a \<in> set (w_trace w') \<and> last_tag (updater_status tu) = ''v2'' \<and>
       last_write_commit (updater_status tu) = ''sha'')"
proof -
  let ?E = "demo_ctl_env app now" and ?tu = "demo_updater ''a''" and ?key = "request_key ''ns'' ''a''"
  have like: "demo_like ?tu" by (simp add: demo_like_def demo_updater_def empty_status_def)
  have gate: "watch_gate ?E ?key ?tu = ret (Next ?tu)"
    by (rule watch_gate_idle) (simp add: demo_updater_def empty_status_def)
  have new: "last_tag (updater_status ?tu) \<noteq> ''v2''" by (simp add: demo_updater_def empty_status_def)
  obtain w0 where w0: "run_state (do { g \<leftarrow> ask (\<lambda>n. env_get_updater ?E n ''ns'' ''a'') (EvGetUpdater ''ns'' ''a'');
      now \<leftarrow> clock ?E; modify_progress (tracker_attempt ?key (reconcile_interval ?tu) now) }) initial_world = ((), w0)"
    by (cases "run_state (do { g \<leftarrow> ask (\<lambda>n. env_get_updater ?E n ''ns'' ''a'') (EvGetUpdater ''ns'' ''a'');
      now \<leftarrow> clock ?E; modify_progress (tracker_attempt ?key (reconcile_interval ?tu) now) }) initial_world") auto
  obtain w1 where w1: "run_state (check_configuration ?E ?key ?tu) w0 = (Next (), w1)"
    using demo_configuration [OF like] by blast
  obtain w2 where w2: "run_state (select_release ?E ?key ?tu) w1 = (Next (demo_match, git_iface ?E demo_git_source), w2)"
    using demo_select [OF like] by blast
  obtain w3 where w3: "run_state (gather_data ?E ?tu demo_match (git_iface ?E demo_git_source)) w2 = (Next demo_data, w3)"
    using demo_gather [OF like] by blast
  obtain tu' res w4 where w4: "run_state (write_release ?E ?key ?tu ''v2'' demo_data) w3 = (Next (tu', res), w4)"
    "EvApply (demo_wr demo_data) \<in> set (w_trace w4)" "\<exists>f c a. EvFs (WriteFile f c) a \<in> set (w_trace w4)"
    "commit_sha res = ''sha''"
    using demo_write [OF like new] by blast
  obtain r w' where w5: "run_state (record_success ?E ?key ''v2'' demo_data (tu', res)) w4 = (r, w')"
    by (cases "run_state (record_success ?E ?key ''v2'' demo_data (tu', res)) w4")
  have "ensures (handler_event ?E False tu' (\<lambda>_. True)) (record_success ?E ?key ''v2'' demo_data (tu', res)) (on_next (\<lambda>_. True))"
    by (rule ensures_record_success [OF kept_refl]) simp_all
  from ensures_grows [OF this w5] w4(2,3) have noted: "EvApply (demo_wr demo_data) \<in> set (w_trace w')"
    "\<exists>f c a. EvFs (WriteFile f c) a \<in> set (w_trace w')" by blast+
  have stored: "\<exists>tu a. EvStatusUpdate tu a \<in> set (w_trace w') \<and> last_tag (updater_status tu) = ''v2'' \<and>
      last_write_commit (updater_status tu) = ''sha''"
    using emits_run [OF emits_record_success w5] w4(4)
    by (fastforce simp: put_condition_def success_status_def rotate_tag_def arm_watch_def)
  have "run_state (reconcile ?E ''ns'' ''a'') initial_world = (r, w')"
    using w0 w1 w2 w3 w4(1) w5
    by (simp add: reconcile_def ask_def reconcile_updater_def and_then_def demo_admit [OF like] gate release_stage_def
        demo_digest_guard [OF like] clock_def modify_progress_def)
      (simp add: demo_match_def)
  with noted stored show ?thesis by blast
qed

section \<open>Witnesses\<close>

lemma demo_found: "env_get_updater (demo_ctl_env app now) n ''ns'' ''a'' = Found (demo_updater ''a'')"
  by simp

theorem reconcile_writes_only_edits_witness:
  "\<exists>content wr input. pinned (demo_ctl_env (Inr JNull) 500) (demo_updater ''a'') wr \<and>
    update_manifest demo_manifest input (wr_targets wr) (wr_data wr) = Ok (content, True)"
proof -
  obtain r w' f c a where run: "run_state (reconcile (demo_ctl_env (Inr JNull) 500) ''ns'' ''a'') initial_world = (r, w')"
    and e: "EvFs (WriteFile f c) a \<in> set (w_trace w')"
    using demo_reconcile_new by blast
  from reconcile_writes_only_edits [OF demo_sort demo_found run _ e] show ?thesis
    by (auto simp: initial_world_def)
qed

theorem forward_write_keeps_known_good_witness:
  "\<exists>tag. demo_data ''tag'' = Some tag \<and> tag \<notin> set (skipped_tags (updater_status (demo_updater ''a'')))"
proof -
  obtain r w' where run: "run_state (reconcile (demo_ctl_env (Inr JNull) 500) ''ns'' ''a'') initial_world = (r, w')"
    and e: "EvApply (demo_wr demo_data) \<in> set (w_trace w')"
    using demo_reconcile_new by blast
  have idle: "\<not> (rollback_on (demo_updater ''a'') \<and> watching_tag (updater_status (demo_updater ''a'')) \<noteq> '''')"
    by (simp add: demo_updater_def empty_status_def)
  have "\<exists>tag. wr_data (demo_wr demo_data) ''tag'' = Some tag \<and>
      tag \<notin> set (skipped_tags (updater_status (demo_updater ''a'')))"
    using forward_write_keeps_known_good [OF demo_sort demo_found idle run _ e] by (auto simp: initial_world_def)
  then show ?thesis by (simp add: demo_wr_def)
qed

theorem stored_status_ok_witness:
  "status_ok (updater_status (demo_updater ''a''))"
  by (rule stored_status_ok, rule stored.created) (simp add: demo_updater_def)

theorem success_recorded_witness:
  "\<exists>tu' r. EvStatusUpdate tu' r \<in> set (w_trace (snd (run_state
      (record_success (demo_ctl_env (Inr JNull) 500) ''ns/a'' ''v2'' demo_data
        (demo_updater ''a'', \<lparr>committed = True, commit_sha = ''sha''\<rparr>)) initial_world))) \<and>
    last_tag (updater_status tu') = ''v2'' \<and> watching_tag (updater_status tu') = ''v2''"
proof -
  let ?m = "record_success (demo_ctl_env (Inr JNull) 500) ''ns/a'' ''v2'' demo_data
        (demo_updater ''a'', \<lparr>committed = True, commit_sha = ''sha''\<rparr>)"
  obtain s w' where run: "run_state ?m initial_world = (s, w')" by (cases "run_state ?m initial_world")
  have on: "rollback_on (demo_updater ''a'')" "spec_argocd_app (updater_spec (demo_updater ''a'')) \<noteq> None"
    "last_tag (updater_status (demo_updater ''a'')) = ''''"
    by (simp_all add: rollback_on_def demo_updater_def demo_spec_def empty_status_def)
  from success_recorded [OF run] obtain tu' r now rest where
    tr: "w_trace w' = rest @ EvStatusUpdate tu' r # w_trace initial_world"
    and st: "last_tag (updater_status tu') = ''v2''" "watching_tag (updater_status tu') = ''v2''"
    using on by (auto simp: Let_def)
  from tr have "EvStatusUpdate tu' r \<in> set (w_trace w')" by simp
  with st run show ?thesis by auto
qed

section \<open>Refused configurations\<close>

text \<open>
  Rollback without an application is refused before anything else is done: the reconcile
  makes one status update, with RollbackReady and Ready False, reads no source, writes
  nothing, and comes back after its interval.
\<close>

theorem rollback_without_app_refused:
  assumes "env_get_updater E (w_tick w) ns name = Found tu"
    and "rollback_on tu" and "spec_argocd_app (updater_spec tu) = None"
    and "resolve_digest (spec_source (updater_spec tu)) \<longrightarrow> source_type (spec_source (updater_spec tu)) = SourceTypeGit"
    and "run_state (reconcile E ns name) w = (r, w')"
  shows "r = Return (reconcile_interval tu) None \<and>
    (\<exists>tu' a rest. w_trace w' = rest @ [EvStatusUpdate tu' a, EvGetUpdater ns name (Found tu)] @ w_trace w \<and>
       set rest \<subseteq> {EvRecord True ''MissingArgoCDApp'' missing_app_message} \<and> same_but_conditions tu tu' \<and>
       verdict tu' ''Ready'' = Some (ConditionFalse, ''MissingArgoCDApp'', missing_app_message) \<and>
       verdict tu' ''RollbackReady'' = Some (ConditionFalse, ''MissingArgoCDApp'', missing_app_message))"
proof -
  have admit: "admit E tu = do {
        tu1 \<leftarrow> set_condition E tu (mk_condition ''RollbackReady'' ConditionFalse ''MissingArgoCDApp'' missing_app_message);
        tu2 \<leftarrow> set_condition E tu1 (mk_condition ''Ready'' ConditionFalse ''MissingArgoCDApp'' missing_app_message);
        _ \<leftarrow> update_status E tu2;
        _ \<leftarrow> record_event E True ''MissingArgoCDApp'' missing_app_message;
        ret (Return (reconcile_interval tu) None) }"
  proof -
    have c: "\<not> (resolve_digest (spec_source (updater_spec tu)) \<and> source_type (spec_source (updater_spec tu)) \<noteq> SourceTypeGit)"
      "rollback_on tu \<and> spec_argocd_app (updater_spec tu) = None"
      using assms(2-4) by blast+
    show ?thesis unfolding admit_def Let_def if_not_P [OF c(1)] if_P [OF c(2)] by (rule refl)
  qed
  show ?thesis
    using assms(1,5)
    by (cases "env_recorder E")
      (auto simp: reconcile_def ask_def reconcile_updater_def clock_def modify_progress_def and_then_def admit
        set_condition_def update_status_def record_event_def note_event_def verdict_put_condition)
qed

definition demo_no_app :: tag_updater where
  "demo_no_app = (demo_updater ''a'')\<lparr>updater_spec := demo_spec\<lparr>spec_argocd_app := None\<rparr>\<rparr>"

theorem rollback_without_app_refused_witness:
  "\<exists>w'. run_state (reconcile (demo_env\<lparr>env_get_updater := (\<lambda>n ns nm. Found demo_no_app)\<rparr>) ''ns'' ''a'') initial_world =
      (Return (2 * minute) None, w')"
proof -
  let ?E = "demo_env\<lparr>env_get_updater := (\<lambda>n ns nm. Found demo_no_app)\<rparr>"
  have tu: "rollback_on demo_no_app" "spec_argocd_app (updater_spec demo_no_app) = None"
    "resolve_digest (spec_source (updater_spec demo_no_app)) \<longrightarrow> source_type (spec_source (updater_spec demo_no_app)) = SourceTypeGit"
    "reconcile_interval demo_no_app = 2 * minute"
    by (simp_all add: demo_no_app_def demo_spec_def rollback_on_def reconcile_interval_def default_interval_def)
  obtain r w' where run: "run_state (reconcile ?E ''ns'' ''a'') initial_world = (r, w')"
    by (cases "run_state (reconcile ?E ''ns'' ''a'') initial_world")
  have "r = Return (reconcile_interval demo_no_app) None"
    using rollback_without_app_refused [OF _ tu(1-3) run] by simp
  with run tu(4) show ?thesis by simp
qed

section \<open>Skipping the clone\<close>

text \<open>
  C14. The clone is skipped only when nothing can have changed: the chosen tag is the recorded
  one, the current generation was written, the digest is the recorded one if digests are
  resolved, and the remote itself reported the recorded commit as the head of the branch.
\<close>

theorem clone_skipped_only_when_unchanged:
  assumes "run_state (skip_clone E key tu tag wr) w = (s, w')" and "s \<noteq> Next ()"
  shows "\<exists>head w1. run_state (remote_head E wr) w = (Inr head, w1) \<and>
    (let st = updater_status tu in
     tag = last_tag st \<and> head = last_write_commit st \<and> head \<noteq> '''' \<and> observed_generation st = meta_generation tu \<and>
     (resolve_digest (spec_source (updater_spec tu)) \<longrightarrow> last_image_digest st = gomap_get (wr_data wr) ''image_digest'')) \<and>
    (\<exists>tu' r rest. w_trace w' = rest @ EvStatusUpdate tu' r # w_trace w1 \<and> same_but_conditions tu tu' \<and>
       verdict tu' ''WriteBackReady'' =
         Some (ConditionTrue, ''RemoteUnchanged'', ''tag and manifest branch head are unchanged; clone skipped''))"
proof -
  have may: "may_skip_clone tu tag (wr_data wr)"
    using assms by (auto simp: skip_clone_def split: if_splits)
  obtain h w1 where h: "run_state (remote_head E wr) w = (h, w1)" by (cases "run_state (remote_head E wr) w")
  with assms may obtain head where head: "h = Inr head" "write_back_current tag (updater_status tu) head"
    and run: "run_state (remote_unchanged E key tu tag) w1 = (s, w')"
    by (auto simp: skip_clone_def split: sum.splits if_splits)
  let ?u = "\<lambda>t1 t2. put_condition t2 (mk_condition ''Ready'' ConditionTrue ''WrittenToGit'' (present_message tag))
      (put_condition t1 (mk_condition ''WriteBackReady'' ConditionTrue ''RemoteUnchanged''
        ''tag and manifest branch head are unchanged; clone skipped'') tu)"
  have mark: "emits (mark_reconcile_succeeded E x key) (\<lambda>_ _. True)" for x
    by (rule emits_weaken [OF emits_ensures [OF ensures_mark_kept [OF kept_refl [where A = False]]]]) auto
  have "emits (remote_unchanged E key tu tag) (\<lambda>_ es. \<exists>t1 t2 r rest. es = rest @ [EvStatusUpdate (?u t1 t2) r])"
    unfolding remote_unchanged_def
    apply (rule emits_bind_put)
    apply (rule emits_bind_put)
    apply (rule emits_bind_call(7))
    apply (intro emits_cases emits_return emits_bind [OF mark]; simp; blast)
    done
  from emits_run [OF this run] obtain t1 t2 r rest where
    tr: "w_trace w' = rest @ EvStatusUpdate (?u t1 t2) r # w_trace w1" by auto
  have v: "verdict (?u t1 t2) ''WriteBackReady'' =
      Some (ConditionTrue, ''RemoteUnchanged'', ''tag and manifest branch head are unchanged; clone skipped'')"
    by (simp add: verdict_put_condition)
  have same: "same_but_conditions tu (?u t1 t2)" by simp
  have facts: "let st = updater_status tu in
     tag = last_tag st \<and> head = last_write_commit st \<and> head \<noteq> '''' \<and> observed_generation st = meta_generation tu \<and>
     (resolve_digest (spec_source (updater_spec tu)) \<longrightarrow> last_image_digest st = gomap_get (wr_data wr) ''image_digest'')"
    using may head(2) by (auto simp: may_skip_clone_def write_back_current_def Let_def)
  from h head(1) tr v same facts show ?thesis by blast
qed

section \<open>A failed tag can come back\<close>

text \<open>
  C40. When a watched first release fails, no previous tag exists and the failed tag is only
  skipped. If the reconcile goes on to another tag, the failed tag is rotated into the
  previous tag: it is both skipped and what the next rollback will write back.
\<close>

theorem failed_tag_becomes_rollback_target:
  assumes "previous_tag (updater_status tu) = ''''"
    and "watching_tag (updater_status tu) = last_tag (updater_status tu)" and "last_tag (updater_status tu) \<noteq> ''''"
    and "rollback_on tu" and "spec_argocd_app (updater_spec tu) \<noteq> None" and "tag \<noteq> last_tag (updater_status tu)"
    and "run_state (do_rollback E tu) w1 = (Ok (tu1, e), w1')" and "same_but_conditions tu1 tu2"
    and "run_state (record_success E key tag data (tu2, result)) w2 = (s, w2')"
  shows "\<exists>tu3 r. EvStatusUpdate tu3 r \<in> set (w_trace w2') \<and> watching_tag (updater_status tu3) = tag \<and>
    previous_tag (updater_status tu3) = last_tag (updater_status tu) \<and>
    previous_tag (updater_status tu3) \<in> set (skipped_tags (updater_status tu3)) \<and>
    previous_tag (updater_status tu3) \<noteq> watching_tag (updater_status tu3)"
proof -
  have cond: "previous_tag (updater_status tu) = '''' \<or> previous_tag (updater_status tu) = watching_tag (updater_status tu)"
    using assms(1) by simp
  have "emits (do_rollback E tu) (\<lambda>r es. \<forall>t e. r = Ok (t, e) \<longrightarrow> same_but_conditions
      (with_status (\<lambda>st. (clear_watch st)\<lparr>skipped_tags := append_unique (skipped_tags st) (watching_tag (updater_status tu))\<rparr>) tu) t)"
    unfolding do_rollback_def Let_def if_P [OF cond] rollback_unavailable_def save_status_def update_status_def
    by (intro emits_bind_put emits_bind_ask emits_return) auto
  from emits_run [OF this assms(7)] assms(8) have "same_but_conditions
      (with_status (\<lambda>st. (clear_watch st)\<lparr>skipped_tags := append_unique (skipped_tags st) (watching_tag (updater_status tu))\<rparr>) tu) tu2"
    by (auto simp: same_but_conditions_def)
  then have two: "updater_spec tu2 = updater_spec tu" "last_tag (updater_status tu2) = last_tag (updater_status tu)"
    "skipped_tags (updater_status tu2) = append_unique (skipped_tags (updater_status tu)) (watching_tag (updater_status tu))"
    unfolding same_but_conditions_def with_status_def clear_watch_def
    by (cases tu2, cases tu, cases "updater_status tu2", cases "updater_status tu", simp)+
  have on: "rollback_on tu2" "spec_argocd_app (updater_spec tu2) \<noteq> None"
    using assms(4,5) two(1) by (simp_all add: rollback_on_def)
  let ?u = "\<lambda>t n. put_condition t (mk_condition ''Ready'' ConditionTrue ''WrittenToGit'' (present_message tag))
      (with_status (success_status tu2 n tag data (commit_sha result)) tu2)"
  from emits_run [OF emits_record_success assms(9)] obtain t n r rest where
    tr: "w_trace w2' = rest @ EvStatusUpdate (?u t n) r # w_trace w2" by auto
  obtain cs where st: "updater_status (?u t n) =
      (success_status tu2 n tag data (commit_sha result) (updater_status tu2))\<lparr>conditions := cs\<rparr>"
    by (simp add: put_condition_def)
  have "watching_tag (updater_status (?u t n)) = tag \<and>
      previous_tag (updater_status (?u t n)) = last_tag (updater_status tu) \<and>
      skipped_tags (updater_status (?u t n)) = skipped_tags (updater_status tu2)"
    unfolding st using on two(2) assms(6) by (simp add: success_status_def rotate_tag_def arm_watch_def)
  with tr two(3) assms(2,6) show ?thesis
    by (intro exI [of _ "?u t n"] exI [of _ r]) simp
qed

lemma demo_remote_head:
  "\<exists>w'. run_state (remote_head (demo_ctl_env app now) (demo_wr d)) w = (Inr ''sha'', w')"
proof -
  let ?E = "demo_ctl_env app now"
  obtain w1 where a: "run_state (writer_auth ?E (demo_wr d)) w =
      (Inr (SshKey ''key'' (KnownHosts ''hosts''), ''git@h:o/r'', Some ''/tmp/kh''), w1)"
    using demo_ctl_auth by (metis prod.collapse)
  have "find_branch ''main'' (adv_refs demo_remote) = Some ''sha''"
    by (simp add: find_branch_def demo_remote_def)
  then show ?thesis
    by (simp add: remote_head_def a ls_remote_def ask_def cleanup_def do_fs_def demo_refs)
      (simp add: demo_wr_def demo_spec_def)
qed

lemma remote_unchanged_returns:
  "run_state (remote_unchanged E key tu tag) w = (s, w') \<Longrightarrow> s \<noteq> Next ()"
proof -
  have "ensures (handler_event E False tu (\<lambda>_. True)) (remote_unchanged E key tu tag) (\<lambda>s. s \<noteq> Next ())"
    unfolding remote_unchanged_def
    by (intro ensures_sum ensures_bind [OF ensures_put [where I = "kept False tu"]]
        ensures_bind_any [OF ensures_update_kept] ensures_bind [OF ensures_mark_kept] ensures_return)
      (auto simp: kept_def)
  then show "run_state (remote_unchanged E key tu tag) w = (s, w') \<Longrightarrow> s \<noteq> Next ()"
    by (rule ensuresD(1))
qed

lemma demo_skip_clone:
  assumes "updater_spec tu = demo_spec" and "last_tag (updater_status tu) = ''v2''"
    and "last_write_commit (updater_status tu) = ''sha''" and "observed_generation (updater_status tu) = meta_generation tu"
  shows "\<exists>w1. run_state (skip_clone (demo_ctl_env app now) key tu ''v2'' (demo_wr demo_data)) w =
    run_state (remote_unchanged (demo_ctl_env app now) key tu ''v2'') w1 \<and> set (w_trace w) \<subseteq> set (w_trace w1)"
proof -
  obtain w1 where h: "run_state (remote_head (demo_ctl_env app now) (demo_wr demo_data)) w = (Inr ''sha'', w1)"
    using demo_remote_head by blast
  have may: "may_skip_clone tu ''v2'' (wr_data (demo_wr demo_data))"
    using assms by (simp add: may_skip_clone_def) (simp add: demo_spec_def)
  show ?thesis
    using may h assms ensures_grows [OF ensures_remote_head h]
    by (auto simp: skip_clone_def write_back_current_def)
qed

lemma demo_watched_recorded:
  "last_tag (updater_status (demo_watched t)) = ''v2''" "last_write_commit (updater_status (demo_watched t)) = ''sha''"
  "observed_generation (updater_status (demo_watched t)) = 1" "meta_generation (demo_watched t) = 1"
  "skipped_tags (updater_status (demo_watched t)) = []"
  by (simp_all add: demo_watched_def demo_updater_def empty_status_def)

text \<open>
  The same object again, with the release recorded and no watch: the environment differs only in
  the object that is read, so the branch is still found at the commit.
\<close>

definition demo_settled :: tag_updater where
  "demo_settled = with_status clear_watch (demo_watched None)"

definition demo_settled_env :: env where
  "demo_settled_env = (demo_ctl_env (Inr JNull) 500)\<lparr>env_get_updater := (\<lambda>n ns nm. Found demo_settled)\<rparr>"

lemma demo_settled_head: "fst (run_state (remote_head demo_settled_env (demo_wr d)) w) = Inr ''sha''"
proof -
  let ?E = "demo_ctl_env (Inr JNull) 500"
  have calls: "do_fs demo_settled_env = do_fs ?E" "lib_ssh_key demo_settled_env = lib_ssh_key ?E"
    "ls_remote demo_settled_env = ls_remote ?E" "load_known_hosts demo_settled_env = load_known_hosts ?E"
    by (simp_all add: demo_settled_env_def do_fs_def ls_remote_def load_known_hosts_def fun_eq_iff)
  have "remote_head demo_settled_env (demo_wr d) = remote_head ?E (demo_wr d)"
    unfolding remote_head_def writer_auth_def host_key_callback_def cleanup_def calls by (rule refl)
  then show ?thesis using demo_remote_head by (metis fst_conv)
qed

theorem recorded_release_left_alone_witness:
  "EvApply (demo_wr demo_data) \<notin> set (w_trace (snd (run_state (reconcile demo_settled_env ''ns'' ''a'') initial_world)))"
proof -
  let ?tu = demo_settled
  have tu: "watching_tag (updater_status ?tu) = ''''" "last_tag (updater_status ?tu) = ''v2''"
    "last_write_commit (updater_status ?tu) = ''sha''" "observed_generation (updater_status ?tu) = meta_generation ?tu"
    "updater_spec ?tu = demo_spec"
    by (simp_all add: demo_settled_def with_status_def clear_watch_def demo_watched_recorded)
  have "slice_sort (lib_sort demo_settled_env)"
    using demo_sort [of "Inr JNull" 500] by (simp add: demo_settled_env_def)
  moreover have "env_get_updater demo_settled_env (w_tick initial_world) ''ns'' ''a'' = Found ?tu"
    by (simp add: demo_settled_env_def)
  moreover have "wr_data (demo_wr demo_data) ''tag'' = Some ''v2''"
    using demo_data_tag by (simp add: demo_wr_def gomap_get_def split: option.splits)
  moreover have "\<not> resolve_digest (spec_source demo_spec)" by (simp add: demo_spec_def)
  ultimately show ?thesis
    using recorded_release_left_alone [where E = demo_settled_env and tu = ?tu and w = initial_world
        and es = "w_trace (snd (run_state (reconcile demo_settled_env ''ns'' ''a'') initial_world))"
        and wr = "demo_wr demo_data", OF _ _ _ surjective_pairing] demo_settled_head [of demo_data] tu
    by (simp add: initial_world_def)
qed

theorem clone_skipped_only_when_unchanged_witness:
  "\<exists>tu' r. EvStatusUpdate tu' r \<in> set (w_trace (snd (run_state (skip_clone (demo_ctl_env (Inr JNull) 500) ''ns/w''
      (demo_watched None) ''v2'' (demo_wr demo_data)) initial_world))) \<and> same_but_conditions (demo_watched None) tu'"
proof -
  let ?m = "skip_clone (demo_ctl_env (Inr JNull) 500) ''ns/w'' (demo_watched None) ''v2'' (demo_wr demo_data)"
  obtain s w' where run: "run_state ?m initial_world = (s, w')" by (cases "run_state ?m initial_world")
  obtain w1 where "run_state ?m initial_world = run_state (remote_unchanged (demo_ctl_env (Inr JNull) 500) ''ns/w''
      (demo_watched None) ''v2'') w1"
    using demo_skip_clone [of "demo_watched None" "Inr JNull" 500 "''ns/w''" initial_world] demo_watched_recorded by auto
  with run have "s \<noteq> Next ()" using remote_unchanged_returns by metis
  from clone_skipped_only_when_unchanged [OF run this] obtain tu' r where
    "EvStatusUpdate tu' r \<in> set (w_trace w')" "same_but_conditions (demo_watched None) tu'" by fastforce
  then show ?thesis using run by (intro exI [of _ tu'] exI [of _ r]) simp
qed

definition demo_first :: tag_updater where
  "demo_first = with_status (\<lambda>st. st\<lparr>previous_tag := ''''\<rparr>) (demo_watched None)"

theorem failed_tag_becomes_rollback_target_witness:
  "\<exists>tu1 tu3. fst (run_state (do_rollback (demo_ctl_env (Inr JNull) 500) demo_first) initial_world) = Ok (tu1, None) \<and>
    (\<exists>r. EvStatusUpdate tu3 r \<in> set (w_trace (snd (run_state (record_success (demo_ctl_env (Inr JNull) 500) ''ns/w'' ''v1''
      Map.empty (tu1, \<lparr>committed = True, commit_sha = ''sha''\<rparr>)) initial_world)))) \<and>
    watching_tag (updater_status tu3) = ''v1'' \<and> previous_tag (updater_status tu3) = ''v2'' \<and>
    ''v2'' \<in> set (skipped_tags (updater_status tu3))"
proof -
  let ?E = "demo_ctl_env (Inr JNull) 500"
  have p: "previous_tag (updater_status demo_first) = ''''" by (simp add: demo_first_def)
  have f: "watching_tag (updater_status demo_first) = last_tag (updater_status demo_first)"
    "last_tag (updater_status demo_first) \<noteq> ''''" "rollback_on demo_first"
    "spec_argocd_app (updater_spec demo_first) \<noteq> None" "''v1'' \<noteq> last_tag (updater_status demo_first)"
    by (simp_all add: demo_first_def demo_watched_recorded rollback_on_def with_status_def)
      (simp_all add: demo_spec_def)
  obtain tu1 w1 where rb: "run_state (do_rollback ?E demo_first) initial_world = (Ok (tu1, None), w1)"
    using p by (simp add: do_rollback_def Let_def rollback_unavailable_def set_condition_def clock_def save_status_def
        update_status_def ask_def)
  let ?m = "record_success ?E ''ns/w'' ''v1'' Map.empty (tu1, \<lparr>committed = True, commit_sha = ''sha''\<rparr>)"
  obtain s w2 where rs: "run_state ?m initial_world = (s, w2)" by (cases "run_state ?m initial_world")
  from failed_tag_becomes_rollback_target [OF p f rb same_but_conditions_refl rs] obtain tu3 r where
    t: "EvStatusUpdate tu3 r \<in> set (w_trace w2)" "watching_tag (updater_status tu3) = ''v1''"
    "previous_tag (updater_status tu3) = last_tag (updater_status demo_first)"
    "previous_tag (updater_status tu3) \<in> set (skipped_tags (updater_status tu3))" by blast
  then show ?thesis using rb rs by (auto simp: demo_first_def demo_watched_recorded)
qed

section \<open>An abandoned watch does not stay visible\<close>

definition sets_ready :: "verdict \<Rightarrow> event \<Rightarrow> bool" where
  "sets_ready v e \<longleftrightarrow> (\<forall>tu r. e = EvStatusUpdate tu r \<longrightarrow> verdict tu ''Ready'' = Some v)"

lemma mark_keeps_ready:
  assumes "verdict tu ''Ready'' = Some v"
  shows "ensures (sets_ready v) (mark_reconcile_succeeded E tu key) (\<lambda>_. True)"
proof -
  have stalled: "ensures P (stalled_condition E key) (\<lambda>c. cond_type c = ''Stalled'')" for P
    unfolding stalled_condition_def by (intro ensures_bind_any ensures_intro) auto
  have keep: "sets_ready v (EvStatusUpdate (put_condition now c tu) r)" if "cond_type c = ''Stalled''" for now c r
    using assms that by (simp add: sets_ready_def verdict_put_condition)
  show ?thesis
    unfolding mark_reconcile_succeeded_def
    by (intro ensures_bind_any [OF ensures_clock] ensures_bind_any [OF ensures_progress(2)] ensures_bind [OF stalled]
        ensures_if ensures_bind_any [OF ensures_calls(8)] ensures_return keep) simp_all
qed

lemma emits_remote_unchanged:
  "emits (remote_unchanged E key tu tag) (\<lambda>_ es. \<exists>later tu2 r. es = later @ [EvStatusUpdate tu2 r] \<and>
    (\<forall>e\<in>set (EvStatusUpdate tu2 r # later). sets_ready (ConditionTrue, ''WrittenToGit'', present_message tag) e))"
proof -
  let ?v = "(ConditionTrue, ''WrittenToGit'', present_message tag)"
  let ?u = "\<lambda>t1 t2. put_condition t2 (mk_condition ''Ready'' ConditionTrue ''WrittenToGit'' (present_message tag))
      (put_condition t1 (mk_condition ''WriteBackReady'' ConditionTrue ''RemoteUnchanged''
        ''tag and manifest branch head are unchanged; clone skipped'') tu)"
  have v: "verdict (?u t1 t2) ''Ready'' = Some ?v" for t1 t2 by (simp add: verdict_put_condition)
  then have stored: "sets_ready ?v (EvStatusUpdate (?u t1 t2) r)" for t1 t2 r by (simp add: sets_ready_def)
  show ?thesis
    unfolding remote_unchanged_def
    apply (rule emits_bind_put)
    apply (rule emits_bind_put)
    apply (rule emits_bind_call(7))
    apply (intro emits_cases)
     apply (rule emits_return)
     apply (use stored in force)
    apply (rule emits_bind [OF emits_ensures [OF mark_keeps_ready [OF v]]])
    apply (rule emits_return)
    apply (use stored in force)
    done
qed

text \<open>The message of an abandoned watch is abstracted.\<close>

lemma abandon_watch_form:
  assumes "revision_observer tu = Some ref"
  shows "\<exists>m. abandon_watch E tu = do {
     tu1 \<leftarrow> set_condition E (with_status clear_watch tu)
       (mk_condition ''RollbackReady'' ConditionFalse ''CommitNeverObserved'' m);
     tu2 \<leftarrow> set_condition E tu1 (mk_condition ''Ready'' ConditionFalse ''CommitNeverObserved'' m);
     _ \<leftarrow> record_event E True ''CommitNeverObserved'' m;
     save_status E tu2 }"
  unfolding abandon_watch_def assms option.case Let_def by (rule exI, rule refl)

lemma demo_abandon:
  "\<exists>tu1 m w1. run_state (watch_gate (demo_ctl_env (Inr (JObj [])) (100 + 20 * minute)) key (demo_watched None)) w =
      (Next tu1, w1) \<and>
    EvStatusUpdate tu1 (Inr ()) \<in> set (w_trace w1) \<and>
    verdict tu1 ''Ready'' = Some (ConditionFalse, ''CommitNeverObserved'', m) \<and>
    demo_like tu1 \<and> last_tag (updater_status tu1) = ''v2'' \<and> last_write_commit (updater_status tu1) = ''sha'' \<and>
    observed_generation (updater_status tu1) = meta_generation tu1"
proof -
  let ?E = "demo_ctl_env (Inr (JObj [])) (100 + 20 * minute)" and ?tu = "demo_watched None"
  let ?now = "100 + 20 * minute"
  obtain m where form: "abandon_watch ?E ?tu = do {
     tu1 \<leftarrow> set_condition ?E (with_status clear_watch ?tu)
       (mk_condition ''RollbackReady'' ConditionFalse ''CommitNeverObserved'' m);
     tu2 \<leftarrow> set_condition ?E tu1 (mk_condition ''Ready'' ConditionFalse ''CommitNeverObserved'' m);
     _ \<leftarrow> record_event ?E True ''CommitNeverObserved'' m;
     save_status ?E tu2 }"
    using abandon_watch_form [OF demo_watched_observer(1)] by blast
  let ?u = "put_condition ?now (mk_condition ''Ready'' ConditionFalse ''CommitNeverObserved'' m)
      (put_condition ?now (mk_condition ''RollbackReady'' ConditionFalse ''CommitNeverObserved'' m)
        (with_status clear_watch ?tu))"
  have unseen: "\<not> observes (read_app ?E (JObj [])) ''sha'' (Some 100)"
    by (simp add: observes_def read_app_def nested_string_def nested_strings_def deployments_from_def
        nested_slice_def current_deployment_def List.map_filter_simps)
  have late: "20 * minute \<le> time_sub ?now 100"
    by (simp add: time_sub_def max_duration_def min_duration_def minute_def second_def)
  have on: "rollback_on ?tu" by (simp add: rollback_on_def) (simp add: demo_spec_def)
  obtain w1 where run: "run_state (watch_gate ?E key ?tu) w = (Next ?u, w1)" "EvStatusUpdate ?u (Inr ()) \<in> set (w_trace w1)"
    using on unseen late
    by (simp add: watch_gate_def check_health_def demo_watched_observer demo_read_app await_observation_def Let_def
        observation_deadline_exceeded_def clock_def form set_condition_def record_event_def note_event_def
        save_status_def update_status_def ask_def no_requeue_def)
  have "verdict ?u ''Ready'' = Some (ConditionFalse, ''CommitNeverObserved'', m)"
    by (simp add: verdict_put_condition)
  moreover have "demo_like ?u \<and> last_tag (updater_status ?u) = ''v2'' \<and> last_write_commit (updater_status ?u) = ''sha'' \<and>
    observed_generation (updater_status ?u) = meta_generation ?u"
    by (simp add: put_condition_def clear_watch_def with_status_def demo_like_def demo_watched_def demo_updater_def empty_status_def)
  ultimately show ?thesis using run by blast
qed

text \<open>
  A watch that is given up is reported only until the same reconcile goes on: in a world
  where the observer never names the commit and the deadline has passed, one reconcile first
  stores Ready False with the reason CommitNeverObserved, and afterwards stores Ready True
  (the recorded commit is still the head of the branch), which is what remains.
\<close>

theorem abandoned_watch_ends_ready:
  "\<exists>later tu2 r2 earlier tu1 r1 m.
    w_trace (snd (run_state (reconcile (demo_ctl_env (Inr (JObj [])) (100 + 20 * minute)) ''ns'' ''w'') initial_world)) =
      later @ EvStatusUpdate tu2 r2 # earlier \<and>
    EvStatusUpdate tu1 r1 \<in> set earlier \<and>
    verdict tu1 ''Ready'' = Some (ConditionFalse, ''CommitNeverObserved'', m) \<and>
    list_all (sets_ready (ConditionTrue, ''WrittenToGit'', present_message ''v2'')) (EvStatusUpdate tu2 r2 # later)"
proof -
  let ?E = "demo_ctl_env (Inr (JObj [])) (100 + 20 * minute)" and ?tu = "demo_watched None"
  let ?key = "request_key ''ns'' ''w''"
  have like: "demo_like ?tu" by (simp add: demo_like_def demo_watched_recorded)
  obtain w0 where w0: "run_state (do { g \<leftarrow> ask (\<lambda>n. env_get_updater ?E n ''ns'' ''w'') (EvGetUpdater ''ns'' ''w'');
      now \<leftarrow> clock ?E; modify_progress (tracker_attempt ?key (reconcile_interval ?tu) now) }) initial_world = ((), w0)"
    by (cases "run_state (do { g \<leftarrow> ask (\<lambda>n. env_get_updater ?E n ''ns'' ''w'') (EvGetUpdater ''ns'' ''w'');
      now \<leftarrow> clock ?E; modify_progress (tracker_attempt ?key (reconcile_interval ?tu) now) }) initial_world") auto
  obtain tu1 m w1 where gate: "run_state (watch_gate ?E ?key ?tu) w0 = (Next tu1, w1)"
    and tu1: "EvStatusUpdate tu1 (Inr ()) \<in> set (w_trace w1)"
      "verdict tu1 ''Ready'' = Some (ConditionFalse, ''CommitNeverObserved'', m)"
      "demo_like tu1" "last_tag (updater_status tu1) = ''v2''" "last_write_commit (updater_status tu1) = ''sha''"
      "observed_generation (updater_status tu1) = meta_generation tu1"
    using demo_abandon by blast
  obtain w2 where w2: "run_state (check_configuration ?E ?key tu1) w1 = (Next (), w2)"
    using demo_configuration [OF tu1(3)] by blast
  obtain w3 where w3: "run_state (select_release ?E ?key tu1) w2 = (Next (demo_match, git_iface ?E demo_git_source), w3)"
    using demo_select [OF tu1(3)] by blast
  obtain w4 where w4: "run_state (gather_data ?E tu1 demo_match (git_iface ?E demo_git_source)) w3 = (Next demo_data, w4)"
    using demo_gather [OF tu1(3)] by blast
  obtain w5 where w5: "run_state (resolve_write_back_credentials ?E tu1) w4 = (Inr demo_credentials, w5)"
    using demo_like_credentials [OF tu1(3)] by blast
  have spec: "updater_spec tu1 = demo_spec" using tu1(3) by (simp add: demo_like_def)
  obtain w6 where w6: "run_state (skip_clone ?E ?key tu1 ''v2'' (demo_wr demo_data)) w5 =
      run_state (remote_unchanged ?E ?key tu1 ''v2'') w6" "set (w_trace w5) \<subseteq> set (w_trace w6)"
    using demo_skip_clone [OF spec tu1(4-6)] by blast
  obtain s w7 where w7: "run_state (remote_unchanged ?E ?key tu1 ''v2'') w6 = (s, w7)"
    by (cases "run_state (remote_unchanged ?E ?key tu1 ''v2'') w6")
  have s: "s \<noteq> Next ()" using remote_unchanged_returns [OF w7] .
  have run: "run_state (reconcile ?E ''ns'' ''w'') initial_world = (s, w7)"
    using w0 gate w2 w3 w4 w5 w6(1) w7 s
    by (simp add: reconcile_def ask_def reconcile_updater_def and_then_def demo_admit [OF like] release_stage_def
        demo_digest_guard [OF tu1(3)] clock_def modify_progress_def write_release_def demo_like_writer [OF tu1(3)])
      (cases s; simp add: demo_match_def)
  have k: "kept False tu1 tu1" by (rule kept_refl) simp
  have sel: "selected ?E tu1 demo_match (git_iface ?E demo_git_source)"
    using ensuresD(1) [OF ensures_select_release [OF demo_sort k] w3] by simp
  have grow: "set (w_trace w1) \<subseteq> set (w_trace w6)"
    using ensures_grows [OF ensures_check_configuration [OF k] w2] ensures_grows [OF ensures_select_release [OF demo_sort k] w3]
      ensures_grows [OF ensures_gather_data [OF k sel] w4] ensures_grows [OF quiet_write_back_credentials w5] w6(2)
    by blast
  from emits_run [OF emits_remote_unchanged w7] obtain later tu2 r where
    tr: "w_trace w7 = later @ EvStatusUpdate tu2 r # w_trace w6"
      "\<forall>e\<in>set (EvStatusUpdate tu2 r # later). sets_ready (ConditionTrue, ''WrittenToGit'', present_message ''v2'') e"
    by auto
  with run tu1(1,2) grow show ?thesis
    by (intro exI [of _ later] exI [of _ tu2] exI [of _ r] exI [of _ "w_trace w6"] exI [of _ tu1] exI [of _ "Inr ()"]
        exI [of _ m]) (auto simp: list_all_iff)
qed

end
