(* ===== verification/Recorded.thy ===== *)
theory Recorded
  imports Controller
begin

text \<open>
  What the status records against what was applied, and what was applied against what the source
  had listed: every stored object either still has the tag and commit it was read with, or was
  stored after an application of that tag's data that ended in that commit; and every
  application of a Git release comes after a listing that gives its revision. The argument is a
  Hoare logic on the calls made so far.
\<close>

section \<open>Recorded and applied\<close>

text \<open>The release that an object records.\<close>

definition release_of :: "tag_updater \<Rightarrow> string \<times> string" where
  "release_of tu = (last_tag (updater_status tu), last_write_commit (updater_status tu))"

definition backed :: "env \<Rightarrow> string \<times> string \<Rightarrow> event list \<Rightarrow> bool" where
  "backed E \<rho> es \<longleftrightarrow> (\<exists>wr x later body before. es = later @ body @ EvApply wr # before \<and>
     wr_data wr ''tag'' = Some (fst \<rho>) \<and> commit_sha x = snd \<rho> \<and> applied E wr x body)"

section \<open>The commit of a Git release\<close>

text \<open>
  The calls made so far justify the revision in the data of a Git release: among them is a
  listing of the updater's own repository, and the revision is the one that its
  answer gives for the tag in the data.
\<close>

definition rev_listed :: "source_spec \<Rightarrow> strmap \<Rightarrow> event list \<Rightarrow> bool" where
  "rev_listed S data es \<longleftrightarrow> source_type S = SourceTypeGit \<longrightarrow>
     (\<exists>auth u adv tag sha. EvLsRemote auth u (Inr adv) \<in> set es \<and> u \<in> {source_repo S, to_https (source_repo S)} \<and>
        data ''tag'' = Some tag \<and> data ''rev'' = Some sha \<and> sha \<noteq> '''' \<and>
        tag_revs_from_refs (remote_list default_peeling adv) tag = Some sha)"

lemma rev_listed_append:
  "rev_listed S d es \<Longrightarrow> rev_listed S d (new @ es)"
  "rev_listed S d es \<Longrightarrow> rev_listed S d (es @ old)"
  unfolding rev_listed_def by fastforce+

lemma rev_listed_upd: "rev_listed S d es \<Longrightarrow> rev_listed S (d(''image_digest'' \<mapsto> x)) es"
  by (simp add: rev_listed_def)

lemma source_auth_url: "ensures reads (source_auth E g) (\<lambda>r. \<forall>a u. r = Inr (a, u) \<longrightarrow> u \<in> {gs_repo g, to_https (gs_repo g)})"
  unfolding source_auth_def
  by (intro ensures_intro ensures_bind_any) (auto split: sum.splits)

lemma emits_list_refs:
  "emits (list_refs E g) (\<lambda>r es. \<forall>rs. r = Inr rs \<longrightarrow> (\<exists>auth u adv. EvLsRemote auth u (Inr adv) \<in> set es \<and>
     u \<in> {gs_repo g, to_https (gs_repo g)} \<and> rs = remote_list default_peeling adv))"
  unfolding list_refs_def
  apply (rule emits_bind [OF emits_ensures [OF source_auth_url]])
  apply (intro emits_cases emits_return)
   apply simp
  apply (rule emits_bind_call(4), rule emits_return)
  apply (auto split: sum.splits)
  done

lemma emits_add_rev:
  assumes src: "source_for E S auth = Inr src" and d: "data ''tag'' = Some tag"
  shows "emits (add_rev E src tag data) (\<lambda>r es. \<forall>v. r = Inr v \<longrightarrow> rev_listed S v es)"
proof (cases "source_type S = SourceTypeGit")
  case True
  with src obtain g where g: "src = git_iface E g" "gs_repo g = source_repo S"
    by (auto simp: source_for_def)
  have revs: "emits (git_tag_revs E g) (\<lambda>r es. \<forall>m. r = Inr m \<longrightarrow> (\<exists>auth u adv. EvLsRemote auth u (Inr adv) \<in> set es \<and>
      u \<in> {source_repo S, to_https (source_repo S)} \<and> m = tag_revs_from_refs (remote_list default_peeling adv)))"
    unfolding git_tag_revs_def
    by (rule emits_bind [OF emits_list_refs], rule emits_return) (fastforce simp: g(2) split: sum.splits)
  show ?thesis
    unfolding add_rev_def g(1) git_iface_def release_iface.simps option.case
    apply (rule emits_bind_silent(1), rule emits_bind_silent(4))
    apply (rule emits_bind [OF revs])
    apply (intro emits_cases emits_bind_silent emits_return)
      apply simp
     apply simp
    apply (simp add: rev_listed_def d gomap_get_def split: option.splits)
    apply blast
    done
next
  case False
  show ?thesis
    by (rule emits_weaken [OF emits_ensures [OF release_source.add_rev_frame [OF source_for_release [OF src]]]])
      (simp add: rev_listed_def False)
qed

lemma emits_gather_rev:
  assumes "selected E tu m src"
  shows "emits (gather_data E tu m src) (\<lambda>s es. \<forall>d. s = Next d \<longrightarrow> rev_listed (spec_source (updater_spec tu)) d es)"
proof -
  let ?S = "spec_source (updater_spec tu)"
  from assms obtain auth where src: "source_for E ?S auth = Inr src" by (auto simp: selected_def)
  have failed: "emits (fail_before_write_back E tu n e) (\<lambda>s es. \<forall>d :: strmap. s = Next d \<longrightarrow> rev_listed ?S d (es @ old))" for n e old
  proof -
    have "ensures (\<lambda>_. True) (fail_before_write_back E tu n e) (on_next (\<lambda>_ :: strmap. False))"
      by (rule ensures_fail_before_write_back [where I = "\<lambda>_. True"]) (auto simp: stores_def keeps_conditions_def)
    from emits_ensures [OF this] show ?thesis by (rule emits_weaken) auto
  qed
  show ?thesis
    unfolding gather_data_def
    apply (rule emits_bind [OF emits_ensures [OF ensures_resolve_record [OF src, of _ "match_tag m"]]], simp)
    apply (intro emits_cases failed)
    apply (rule emits_bind [OF emits_add_rev [OF src, of _ "match_tag m"]], simp)
    apply (intro emits_cases, use failed in \<open>simp; fail\<close>)
    apply (rule emits_bind [OF emits_ensures [OF add_image_digest_frame]])
    apply (intro emits_cases, use failed in \<open>simp; fail\<close>)
    apply (rule emits_return)
    apply (auto intro: rev_listed_append rev_listed_upd split: if_splits)
    done
qed

lemma emits_rollback_rev:
  assumes srt: "slice_sort (lib_sort E)"
  shows "emits (rollback_data E tu (previous_tag (updater_status tu)))
    (\<lambda>r es. \<forall>d. r = Inr d \<longrightarrow> rev_listed (spec_source (updater_spec tu)) d es)"
proof -
  let ?p = "previous_tag (updater_status tu)" and ?s = "spec_source (updater_spec tu)"
  have step: "emits (do {
        r \<leftarrow> resolve_record ''rollback tag '' src ?p (base_data m (source_repo ?s));
        case r of
          Inl e \<Rightarrow> ret (Inl e)
        | Inr data \<Rightarrow> do { v \<leftarrow> add_rev E src ?p data; ret (rbind v (rollback_digest tu)) } })
      (\<lambda>r es. \<forall>d. r = Inr d \<longrightarrow> rev_listed ?s d es)"
    if l: "latest (lib_sort E) re [?p] = Some m" and src: "source_for E ?s auth = Inr src" for re m src auth
  proof -
    have m: "match_tag m = ?p" using latest_in [OF srt l] by (auto simp: match_all_set)
    show ?thesis
      apply (rule emits_bind [OF emits_ensures [OF ensures_resolve_record [OF src, of _ ?p]]])
       apply (simp add: m)
      apply (intro emits_cases)
       apply (rule emits_return, simp)
      apply (rule emits_bind [OF emits_add_rev [OF src, of _ ?p]], simp)
      apply (rule emits_return)
      apply (auto simp: result_iff rollback_digest_def intro: rev_listed_append rev_listed_upd split: if_splits)
      done
  qed
  show ?thesis
    unfolding rollback_data_def Let_def
    by (intro emits_cases step emits_return) auto
qed

section \<open>A history that is accounted for\<close>

text \<open>
  Every stored object has the source and record that was read, or a record that was applied
  before; and every application of a Git release has its revision from a listing before it.
\<close>

type_synonym record_trail = "source_spec \<times> string \<times> string"

definition trail :: "tag_updater \<Rightarrow> record_trail" where
  "trail tu = (spec_source (updater_spec tu), release_of tu)"

definition follows :: "env \<Rightarrow> record_trail \<Rightarrow> record_trail \<Rightarrow> event list \<Rightarrow> bool" where
  "follows E \<rho>0 \<rho> es \<longleftrightarrow> \<rho> = \<rho>0 \<or> fst \<rho> = fst \<rho>0 \<and> backed E (snd \<rho>) es"

fun grounded :: "env \<Rightarrow> record_trail \<Rightarrow> event list \<Rightarrow> bool" where
  "grounded E \<rho>0 [] = True"
| "grounded E \<rho>0 (EvStatusUpdate tu r # es) = (follows E \<rho>0 (trail tu) es \<and> grounded E \<rho>0 es)"
| "grounded E \<rho>0 (EvApply wr # es) = (rev_listed (fst \<rho>0) (wr_data wr) es \<and> grounded E \<rho>0 es)"
| "grounded E \<rho>0 (_ # es) = grounded E \<rho>0 es"

definition at_record :: "env \<Rightarrow> record_trail \<Rightarrow> record_trail \<Rightarrow> event list \<Rightarrow> bool" where
  "at_record E \<rho>0 \<rho> es \<longleftrightarrow> grounded E \<rho>0 es \<and> follows E \<rho>0 \<rho> es"

text \<open>The same, with data that may be applied.\<close>

definition ready :: "env \<Rightarrow> record_trail \<Rightarrow> record_trail \<Rightarrow> strmap \<Rightarrow> event list \<Rightarrow> bool" where
  "ready E \<rho>0 \<rho> d es \<longleftrightarrow> at_record E \<rho>0 \<rho> es \<and> rev_listed (fst \<rho>0) d es"

lemma backed_append: "backed E \<rho> es \<Longrightarrow> backed E \<rho> (new @ es)"
  unfolding backed_def by (metis append.assoc)

lemma follows_append: "follows E \<rho>0 \<rho> es \<Longrightarrow> follows E \<rho>0 \<rho> (new @ es)"
  by (auto simp: follows_def backed_append)

lemma at_record_grounded: "at_record E \<rho>0 \<rho> es \<Longrightarrow> grounded E \<rho>0 es"
  by (simp add: at_record_def)

lemma at_record_append_writer:
  assumes "at_record E \<rho>0 \<rho> es" and "\<forall>e\<in>set new. ctl_event E (\<lambda>tu. trail tu = \<rho>) W e"
    and "\<And>wr. W wr \<Longrightarrow> rev_listed (fst \<rho>0) (wr_data wr) es"
  shows "at_record E \<rho>0 \<rho> (new @ es)"
  using assms(2)
proof (induction new)
  case Nil
  with assms(1) show ?case by simp
next
  case (Cons e new)
  then have IH: "at_record E \<rho>0 \<rho> (new @ es)" and e: "ctl_event E (\<lambda>tu. trail tu = \<rho>) W e" by auto
  from IH have "follows E \<rho>0 \<rho> ((e # new) @ es)" "follows E \<rho>0 \<rho> (new @ es)"
    using follows_append [of E \<rho>0 \<rho> "new @ es" "[e]"] by (simp_all add: at_record_def)
  moreover have "grounded E \<rho>0 ((e # new) @ es)"
    using IH e assms(3)
    by (cases e) (auto simp: at_record_def intro: rev_listed_append(1))
  ultimately show ?case by (simp add: at_record_def)
qed

abbreviation rec_event :: "env \<Rightarrow> record_trail \<Rightarrow> event \<Rightarrow> bool" where
  "rec_event E \<rho> \<equiv> ctl_event E (\<lambda>tu. trail tu = \<rho>) (\<lambda>_. False)"

lemma at_record_append:
  "at_record E \<rho>0 \<rho> es \<Longrightarrow> \<forall>e\<in>set new. rec_event E \<rho> e \<Longrightarrow> at_record E \<rho>0 \<rho> (new @ es)"
  by (erule (1) at_record_append_writer) simp

lemma ready_grounded: "ready E \<rho>0 \<rho> d es \<Longrightarrow> grounded E \<rho>0 es"
  by (simp add: ready_def at_record_def)

lemma ready_append:
  "ready E \<rho>0 \<rho> d es \<Longrightarrow> \<forall>e\<in>set new. rec_event E \<rho> e \<Longrightarrow> ready E \<rho>0 \<rho> d (new @ es)"
  by (simp add: ready_def at_record_append rev_listed_append)

section \<open>Triples on the calls so far\<close>

definition hist :: "(event list \<Rightarrow> bool) \<Rightarrow> 'a io \<Rightarrow> ('a \<Rightarrow> event list \<Rightarrow> bool) \<Rightarrow> bool" where
  "hist P m Q \<longleftrightarrow> (\<forall>es. P es \<longrightarrow> emits m (\<lambda>r new. Q r (new @ es)))"

lemma hist_return: "(\<And>es. P es \<Longrightarrow> Q x es) \<Longrightarrow> hist P (ret x) Q"
  unfolding hist_def by (simp add: emits_return)

lemma hist_bind:
  assumes "hist P m R" and "\<And>x. hist (R x) (f x) Q"
  shows "hist P (m \<bind> f) Q"
  unfolding hist_def
proof (intro allI impI)
  fix es assume "P es"
  with assms(1) have "emits m (\<lambda>r new. R r (new @ es))" by (simp add: hist_def)
  then show "emits (m \<bind> f) (\<lambda>r new. Q r (new @ es))"
    by (rule emits_bind) (use assms(2) in \<open>simp add: hist_def\<close>)
qed

lemma hist_weaken: "hist P m Q \<Longrightarrow> (\<And>x es. Q x es \<Longrightarrow> Q' x es) \<Longrightarrow> hist P m Q'"
  unfolding hist_def by (blast intro: emits_weaken)

lemma hist_pre: "hist P m Q \<Longrightarrow> (\<And>es. P' es \<Longrightarrow> P es) \<Longrightarrow> hist P' m Q"
  unfolding hist_def by blast

text \<open>A fact that the calls so far imply may be used.\<close>

lemma hist_pure: "(\<And>es. P es \<Longrightarrow> A) \<Longrightarrow> (A \<Longrightarrow> hist P m Q) \<Longrightarrow> hist P m Q"
  unfolding hist_def by blast

lemma hist_bind_pure:
  assumes "hist P m (\<lambda>x es. R x es \<and> A x)" and "\<And>x. A x \<Longrightarrow> hist (R x) (f x) Q"
  shows "hist P (m \<bind> f) Q"
proof (rule hist_bind [OF assms(1)])
  show "hist (\<lambda>es. R x es \<and> A x) (f x) Q" for x
    by (rule hist_pure [where A = "A x"], simp) (blast intro: hist_pre [OF assms(2)])
qed

lemma hist_ensures:
  "ensures (rec_event E \<rho>) m Q \<Longrightarrow> hist (at_record E \<rho>0 \<rho>) m (\<lambda>x es. at_record E \<rho>0 \<rho> es \<and> Q x)"
  "ensures (rec_event E \<rho>) m Q \<Longrightarrow> hist (ready E \<rho>0 \<rho> d) m (\<lambda>x es. ready E \<rho>0 \<rho> d es \<and> Q x)"
  unfolding hist_def
  by (auto intro!: emits_weaken [OF emits_ensures] intro: at_record_append ready_append)

text \<open>First a step that keeps the record, with a fact about its result.\<close>

lemmas hist_step = hist_bind_pure [OF hist_ensures(1)]
lemmas hist_step_ready = hist_bind_pure [OF hist_ensures(2)]

text \<open>A step that ends with data whose revision it has listed.\<close>

lemma hist_listed:
  assumes "ensures (rec_event E \<rho>) m R" and "emits m (\<lambda>x es. \<forall>d. D x d \<longrightarrow> rev_listed (fst \<rho>) d es)"
  shows "hist (at_record E \<rho>0 \<rho>) m
    (\<lambda>x es. (at_record E \<rho>0 \<rho> es \<and> (\<forall>d. D x d \<longrightarrow> ready E \<rho>0 \<rho> d es)) \<and> R x)"
  unfolding hist_def
proof (intro allI impI)
  fix es assume at: "at_record E \<rho>0 \<rho> es"
  then have "fst \<rho>0 = fst \<rho>" by (auto simp: at_record_def follows_def)
  with at show "emits m (\<lambda>x new. (at_record E \<rho>0 \<rho> (new @ es) \<and>
      (\<forall>d. D x d \<longrightarrow> ready E \<rho>0 \<rho> d (new @ es))) \<and> R x)"
    by (intro emits_weaken [OF emits_conj [OF emits_ensures [OF assms(1)] assms(2)]])
      (auto simp: ready_def intro: at_record_append rev_listed_append(2))
qed

lemma at_record_fst: "at_record E \<rho>0 \<rho> es \<Longrightarrow> fst \<rho> = fst \<rho>0"
  by (auto simp: at_record_def follows_def)

lemma hist_reads:
  "ensures reads m R \<Longrightarrow> (\<And>x. R x \<Longrightarrow> hist (at_record E \<rho>0 \<rho>) (f x) Q) \<Longrightarrow>
    hist (at_record E \<rho>0 \<rho>) (m \<bind> f) Q"
  by (rule hist_step [OF ensures_reads_ctl])

lemma hist_cases:
  "(b \<Longrightarrow> hist P m Q) \<Longrightarrow> (\<not> b \<Longrightarrow> hist P n Q) \<Longrightarrow> hist P (if b then m else n) Q"
  "(\<And>e. r = Inl e \<Longrightarrow> hist P (f e) Q) \<Longrightarrow> (\<And>x. r = Inr x \<Longrightarrow> hist P (g x) Q) \<Longrightarrow>
    hist P (case r of Inl e \<Rightarrow> f e | Inr x \<Rightarrow> g x) Q"
  "(op = None \<Longrightarrow> hist P m Q) \<Longrightarrow> (\<And>x. op = Some x \<Longrightarrow> hist P (h x) Q) \<Longrightarrow>
    hist P (case op of None \<Rightarrow> m | Some x \<Rightarrow> h x) Q"
  "(\<And>x. oc = Ok x \<Longrightarrow> hist P (k x) Q) \<Longrightarrow> (\<And>e. oc = Fail e \<Longrightarrow> hist P (l e) Q) \<Longrightarrow>
    (\<And>a. oc = Abort a \<Longrightarrow> hist P (s a) Q) \<Longrightarrow>
    hist P (case oc of Ok x \<Rightarrow> k x | Fail e \<Rightarrow> l e | Abort a \<Rightarrow> s a) Q"
  "(\<And>a b. pr = (a, b) \<Longrightarrow> hist P (u a b) Q) \<Longrightarrow> hist P (case pr of (a, b) \<Rightarrow> u a b) Q"
  by (simp | cases r; simp | cases op; simp | cases oc; simp | cases pr; simp)+

lemma ensures_conj: "ensures P m Q \<Longrightarrow> ensures P' m Q' \<Longrightarrow> ensures P m (\<lambda>x. Q x \<and> Q' x)"
  unfolding ensures_def by meson

section \<open>Applying a writer\<close>

lemma hist_apply:
  "hist (ready E \<rho>0 \<rho> (wr_data wr)) (writer_apply E wr) (\<lambda>r es. at_record E \<rho>0 \<rho> es \<and>
     (\<forall>x tag. r = Ok x \<and> wr_data wr ''tag'' = Some tag \<longrightarrow> at_record E \<rho>0 (fst \<rho>0, tag, commit_sha x) es))"
  unfolding hist_def
proof (intro allI impI)
  fix before assume ready: "ready E \<rho>0 \<rho> (wr_data wr) before"
  have at: "at_record E \<rho>0 \<rho> (es @ before)"
    if "\<forall>e\<in>set es. ctl_event E (\<lambda>tu. trail tu = \<rho>) (\<lambda>w. w = wr) e" for es
    by (rule at_record_append_writer [OF _ that]) (use ready in \<open>auto simp: ready_def\<close>)
  have backed: "backed E (tag, commit_sha x) ((body @ [EvApply wr]) @ before)"
    if "applied E wr x body" "wr_data wr ''tag'' = Some tag" for x tag body
  proof -
    have "(body @ [EvApply wr]) @ before = [] @ body @ EvApply wr # before" by simp
    with that show ?thesis unfolding backed_def by fastforce
  qed
  show "emits (writer_apply E wr) (\<lambda>r new. at_record E \<rho>0 \<rho> (new @ before) \<and>
    (\<forall>x tag. r = Ok x \<and> wr_data wr ''tag'' = Some tag \<longrightarrow> at_record E \<rho>0 (fst \<rho>0, tag, commit_sha x) (new @ before)))"
  proof (rule emits_weaken [OF emits_conj [OF emits_applied emits_ensures [OF ensures_writer_apply [where W = "\<lambda>w. w = wr"]]]])
    show "wr = wr" ..
    fix r new
    assume *: "(\<exists>body. new = body @ [EvApply wr] \<and> (\<forall>x. r = Ok x \<longrightarrow> applied E wr x body)) \<and>
      (\<forall>e\<in>set new. ctl_event E (\<lambda>tu. trail tu = \<rho>) (\<lambda>w. w = wr) e) \<and> True"
    then have now: "at_record E \<rho>0 \<rho> (new @ before)" by (blast intro: at)
    moreover have "at_record E \<rho>0 (fst \<rho>0, tag, commit_sha x) (new @ before)"
      if "r = Ok x" "wr_data wr ''tag'' = Some tag" for x tag
      using * backed that now unfolding at_record_def follows_def by force
    ultimately show "at_record E \<rho>0 \<rho> (new @ before) \<and>
        (\<forall>x tag. r = Ok x \<and> wr_data wr ''tag'' = Some tag \<longrightarrow> at_record E \<rho>0 (fst \<rho>0, tag, commit_sha x) (new @ before))"
      by blast
  qed
qed

section \<open>Steps that keep the record\<close>

lemma trail_put [simp]: "trail (put_condition now c tu) = trail tu"
  by (simp add: trail_def release_of_def put_condition_def)

lemma stores_rec: "stores (\<lambda>tu. trail tu = \<rho>) (rec_event E \<rho>)"
  by (simp add: stores_def keeps_conditions_def reads_ctl)

lemma rec_set: "trail tu = \<rho> \<Longrightarrow> ensures (rec_event E \<rho>) (set_condition E tu c) (\<lambda>tu. trail tu = \<rho>)"
  by (rule ensures_put) simp

lemmas rec_fail = ensures_fail_before_write_back [OF stores_rec]
lemmas rec_mark = ensures_mark [OF stores_rec]

lemma rec_update: "trail tu = \<rho> \<Longrightarrow> ensures (rec_event E \<rho>) (update_status E tu) (\<lambda>_. True)"
  by (rule ensures_calls) simp

lemma rec_admit: "trail tu = \<rho> \<Longrightarrow> ensures (rec_event E \<rho>) (admit E tu) (on_next (\<lambda>_. True))"
  unfolding admit_def Let_def
  by (intro ensures_if rec_fail ensures_bind [OF rec_set] ensures_bind_any [OF rec_update]
      ensures_bind_any [OF ensures_record] ensures_return) auto

lemma rec_refuse: "trail tu = \<rho> \<Longrightarrow> ensures (rec_event E \<rho>) (refuse_configuration E key tu b r e) (on_next Q)"
  unfolding refuse_configuration_def
  by (intro ensures_bind [OF rec_set] ensures_bind [where R = "\<lambda>tu. trail tu = \<rho>"] ensures_if
      ensures_bind [OF ensures_stalled_condition] rec_set
      ensures_bind_any [OF rec_update] ensures_bind_any [OF ensures_record] ensures_return) auto

lemma rec_check_configuration:
  "trail tu = \<rho> \<Longrightarrow> ensures (rec_event E \<rho>) (check_configuration E key tu) (on_next (\<lambda>_. True))"
  unfolding check_configuration_def
  by (intro ensures_option rec_refuse ensures_bind_any ensures_ask ensures_sum ensures_return) auto

lemma rec_no_matching_tag: "trail tu = \<rho> \<Longrightarrow> ensures (rec_event E \<rho>) (no_matching_tag E key tu) (on_next Q)"
  unfolding no_matching_tag_def Let_def
  by (intro ensures_bind [OF rec_set] ensures_bind [OF ensures_not_attempted [OF stores_rec]]
      ensures_bind_any [OF rec_update] ensures_sum ensures_bind [OF rec_mark] ensures_return) auto

lemma rec_select:
  assumes srt: "slice_sort (lib_sort E)" and r: "trail tu = \<rho>"
  shows "ensures (rec_event E \<rho>) (select_release E key tu) (on_next (\<lambda>(m, src). selected E tu m src))"
proof -
  have auth: "ensures (rec_event E \<rho>) (listing_auth E tu) (\<lambda>_. True)"
    unfolding listing_auth_def Let_def
    by (intro ensures_if ensures_option ensures_bind_any [OF ensures_reads_ctl [OF quiet_docker_auth]] ensures_return TrueI)
  have "ensures (rec_event E \<rho>) (select_release E key tu) (on_next (\<lambda>_. True))"
    unfolding select_release_def Let_def
    apply (intro ensures_bind_any [OF auth] ensures_sum rec_fail [OF r])
    subgoal for auth src
      using release_source.quiet_list [OF source_for_release, of E "spec_source (updater_spec tu)" auth src]
      by (intro ensures_bind_any [OF ensures_reads_ctl] ensures_outcome ensures_sum ensures_option
          rec_fail [OF r] rec_no_matching_tag [OF r] ensures_return) auto
    done
  from ensures_conj [OF this ensures_select_release [OF srt kept_refl [where A = False]]] show ?thesis
    by (rule ensures_weaken) (auto elim!: on_next.elims)
qed

lemma rec_gather:
  assumes r: "trail tu = \<rho>" and s: "selected E tu m src"
  shows "ensures (rec_event E \<rho>) (gather_data E tu m src) (on_next (\<lambda>d. d ''tag'' = Some (match_tag m)))"
proof -
  from s obtain auth where src: "release_source src"
    using source_for_release by (auto simp: selected_def)
  have digest: "ensures (rec_event E \<rho>) (add_image_digest E tu t d) (\<lambda>_. True)" for t d
    by (rule ensures_weaken [OF ensures_reads_ctl [OF add_image_digest_frame]]) auto
  have reads: "ensures (rec_event E \<rho>) (resolve_record p src t d) (\<lambda>_. True)"
    "ensures (rec_event E \<rho>) (add_rev E src t d) (\<lambda>_. True)" for p t d
    by (rule ensures_weaken [OF ensures_reads_ctl [OF release_source.resolve_record_frame [OF src]]]; simp)
      (rule ensures_weaken [OF ensures_reads_ctl [OF release_source.add_rev_frame [OF src]]]; simp)
  have "ensures (rec_event E \<rho>) (gather_data E tu m src) (on_next (\<lambda>_. True))"
    unfolding gather_data_def
    by (intro ensures_bind_any [OF reads(1)] ensures_bind_any [OF reads(2)] ensures_bind_any [OF digest] ensures_sum
        rec_fail [OF r] ensures_return) auto
  from ensures_conj [OF this ensures_gather_data [OF kept_refl [where A = False] s]] show ?thesis
    by (rule ensures_weaken) (auto simp: fit_data_def elim!: on_next.elims)
qed

lemma rec_digest_guard:
  "trail tu = \<rho> \<Longrightarrow> ensures (rec_event E \<rho>) (digest_guard E tu tag d) (on_next (\<lambda>_. True))"
  unfolding digest_guard_def
  by (intro ensures_if ensures_bind [OF rec_set] ensures_bind_any [OF rec_update] ensures_return)
    (auto split: sum.splits)

lemma rec_skip_clone:
  "trail tu = \<rho> \<Longrightarrow> ensures (rec_event E \<rho>) (skip_clone E key tu tag wr) (on_next (\<lambda>_. True))"
  unfolding skip_clone_def remote_unchanged_def
  by (intro ensures_if ensures_bind_any [OF ensures_reads_ctl [OF ensures_remote_head]] ensures_sum
      ensures_bind [OF rec_set] ensures_bind_any [OF rec_update] ensures_bind [OF rec_mark] ensures_return) auto

lemma rec_write_failed: "trail tu = \<rho> \<Longrightarrow> ensures (rec_event E \<rho>) (write_failed E tu e) (on_next Q)"
  unfolding write_failed_def
  by (intro ensures_bind [OF rec_set] ensures_bind_any [OF ensures_record]
      ensures_bind_any [OF ensures_set_failed [OF stores_rec]] ensures_return) auto

lemma rec_written:
  "trail tu = \<rho> \<Longrightarrow> ensures (rec_event E \<rho>) (written E tu tag x) (\<lambda>tu'. trail tu' = \<rho>)"
  unfolding written_def Let_def
  by (intro ensures_if ensures_bind_any [OF ensures_record] rec_set) auto

lemma trail_clear [simp]:
  "trail (with_status clear_watch tu) = trail tu"
  "trail (with_status healthy_status tu) = trail tu"
  "trail (with_status (\<lambda>st. clear_watch st\<lparr>skipped_tags := append_unique (skipped_tags st) t\<rparr>) tu) = trail tu"
  "trail (with_status (\<lambda>st. st\<lparr>watching_since := s\<rparr>) tu) = trail tu"
  by (simp_all add: trail_def release_of_def clear_watch_def healthy_status_def with_status_def)

lemma rec_save: "trail tu = \<rho> \<Longrightarrow> ensures (rec_event E \<rho>) (save_status E tu) (saved_ok (\<lambda>tu. trail tu = \<rho>))"
  by (rule ensures_save_status)

lemma rec_abandon:
  "trail tu = \<rho> \<Longrightarrow> ensures (rec_event E \<rho>) (abandon_watch E tu) (saved_ok (\<lambda>tu. trail tu = \<rho>))"
  unfolding abandon_watch_def Let_def
  by (intro ensures_intro ensures_bind_any [OF ensures_record] ensures_bind [OF rec_set] rec_save) auto

lemma rec_unavailable:
  "trail tu = \<rho> \<Longrightarrow> ensures (rec_event E \<rho>) (rollback_unavailable E tu) (saved_ok (\<lambda>tu. trail tu = \<rho>))"
  unfolding rollback_unavailable_def Let_def
  by (intro ensures_intro ensures_bind [OF rec_set] rec_save) auto

lemma rec_finish:
  "trail (rolled_back 0 tu d (commit_sha x)) = \<rho> \<Longrightarrow>
    ensures (rec_event E \<rho>) (finish_rollback E tu d x) (saved_ok (\<lambda>tu. trail tu = \<rho>))"
  unfolding finish_rollback_def Let_def
  by (intro ensures_intro ensures_bind_any [OF ensures_record] ensures_bind_any [OF ensures_clock]
      ensures_bind [OF rec_set] rec_save) (auto simp: trail_def release_of_def rolled_back_def with_status_def)

section \<open>Rollback and the health check\<close>

text \<open>The record that a reply carries is grounded by the calls so far.\<close>

fun saved_at_record :: "env \<Rightarrow> record_trail \<Rightarrow> saved \<Rightarrow> event list \<Rightarrow> bool" where
  "saved_at_record E \<rho>0 (Ok (tu, e)) es = at_record E \<rho>0 (trail tu) es"
| "saved_at_record E \<rho>0 _ es = grounded E \<rho>0 es"

fun health_at_record :: "env \<Rightarrow> record_trail \<Rightarrow> health_reply \<Rightarrow> event list \<Rightarrow> bool" where
  "health_at_record E \<rho>0 (Ok (tu, d, e)) es = at_record E \<rho>0 (trail tu) es"
| "health_at_record E \<rho>0 _ es = grounded E \<rho>0 es"

lemma at_record_replies [simp]:
  "saved_at_record E \<rho>0 (Ok (tu, e)) = at_record E \<rho>0 (trail tu)"
  "health_at_record E \<rho>0 (Ok (tu, d, e)) = at_record E \<rho>0 (trail tu)"
  by (simp_all add: fun_eq_iff)

lemma health_no_requeue: "saved_at_record E \<rho>0 s es \<Longrightarrow> health_at_record E \<rho>0 (no_requeue s) es"
  by (cases "(E, \<rho>0, s, es)" rule: saved_at_record.cases) (auto simp: no_requeue_def)

lemma hist_saved:
  "ensures (rec_event E \<rho>) m (saved_ok (\<lambda>tu. trail tu = \<rho>)) \<Longrightarrow> hist (at_record E \<rho>0 \<rho>) m (saved_at_record E \<rho>0)"
  by (rule hist_weaken [OF hist_ensures(1)]) (auto elim!: saved_ok.elims simp: at_record_grounded)

lemma hist_do_rollback:
  assumes srt: "slice_sort (lib_sort E)" and r: "trail tu = \<rho>"
  shows "hist (at_record E \<rho>0 \<rho>) (do_rollback E tu) (saved_at_record E \<rho>0)"
proof (rule hist_pure [OF at_record_fst], assumption)
  assume src: "fst \<rho> = fst \<rho>0"
  have finish: "hist (at_record E \<rho>0 (fst \<rho>0, previous_tag (updater_status tu), commit_sha x)) (finish_rollback E tu d x)
      (saved_at_record E \<rho>0)" for d x
    by (intro hist_saved rec_finish)
      (use r src in \<open>auto simp: trail_def release_of_def rolled_back_def clear_watch_def with_status_def\<close>)
  have wrt: "hist (ready E \<rho>0 \<rho> d) (do {
        c \<leftarrow> resolve_write_back_credentials E tu;
        case c of
          Inl e \<Rightarrow> ret (Ok (tu, Some e))
        | Inr cred \<Rightarrow> do {
            r \<leftarrow> writer_apply E (writer_for tu cred d);
            case r of
              Ok result \<Rightarrow> finish_rollback E tu d result
            | Fail e \<Rightarrow> ret (Ok (tu, Some e))
            | Abort a \<Rightarrow> ret (Abort a) } }) (saved_at_record E \<rho>0)" if d: "restores E tu d" for d
    apply (rule hist_step_ready [OF ensures_reads_ctl [OF quiet_write_back_credentials]])
    apply (intro hist_cases(2) hist_return)
     apply (simp add: r ready_def)
    apply (rule hist_bind [OF hist_pre [OF hist_apply]], simp)
    apply (intro hist_cases(4) hist_return hist_pre [OF finish])
      apply (use d in \<open>auto simp: r restores_def fit_data_def at_record_grounded\<close>)
    done
  have listed: "emits (rollback_data E tu (previous_tag (updater_status tu)))
      (\<lambda>x es. \<forall>d. x = Inr d \<longrightarrow> rev_listed (fst \<rho>) d es)"
    using emits_rollback_rev [OF srt, of tu] r by (auto simp: trail_def)
  show ?thesis
    unfolding do_rollback_def Let_def
    apply (intro hist_cases(1) hist_saved [OF rec_unavailable [OF r]])
    apply (rule hist_bind_pure [OF hist_listed [OF ensures_reads_ctl [OF ensures_rollback_data [OF srt]] listed]])
    apply (intro hist_cases(2) hist_return)
     apply (simp add: r)
    apply (rule hist_pre [OF wrt], simp_all)
    done
qed

lemma hist_rollback_with_status:
  assumes srt: "slice_sort (lib_sort E)" and r: "trail tu = \<rho>"
  shows "hist (at_record E \<rho>0 \<rho>) (rollback_with_status E tu) (saved_at_record E \<rho>0)"
proof -
  have tail: "hist (at_record E \<rho>0 (trail tu1)) (do {
         tu2 \<leftarrow> set_condition E tu1 c;
         _ \<leftarrow> update_status E tu2;
         _ \<leftarrow> record_event E True reason msg;
         ret (Ok (tu2, Some e)) }) (saved_at_record E \<rho>0)" for tu1 c e reason msg
    by (rule hist_saved, intro ensures_bind [OF rec_set] ensures_bind_any [OF rec_update] ensures_bind_any [OF ensures_record]
        ensures_return) auto
  show ?thesis
    unfolding rollback_with_status_def
    apply (rule hist_bind [OF hist_do_rollback [OF srt r]])
    subgoal for s by (cases s) (auto split: prod.split option.split intro!: tail hist_return simp: hist_return)
    done
qed

lemma rec_unreadable:
  "trail tu = \<rho> \<Longrightarrow> ensures (rec_event E \<rho>) (health_unreadable E tu e) (\<lambda>tu. trail tu = \<rho>)"
  unfolding health_unreadable_def
  by (intro ensures_bind [OF rec_set] ensures_bind_any [OF rec_update] ensures_return) auto

lemma rec_await:
  assumes "trail tu = \<rho>"
  shows "ensures (rec_event E \<rho>) (await_observation E tu rs)
    (observation_ok (\<lambda>tu. trail tu = \<rho>) (\<lambda>tu. trail tu = \<rho>))"
proof -
  have out: "observation_ok (\<lambda>tu. trail tu = \<rho>) (\<lambda>tu. trail tu = \<rho>) (case s of
          Ok (tu1, None) \<Rightarrow> Inr tu1
        | Ok (tu1, Some e) \<Rightarrow> Inl (Ok (tu1, 0, Some e))
        | Fail e \<Rightarrow> Inl (Fail e)
        | Abort a \<Rightarrow> Inl (Abort a))" if "saved_ok (\<lambda>tu. trail tu = \<rho>) s" for s
    using that by (cases s) (auto split: option.splits)
  show ?thesis
    unfolding await_observation_def Let_def
    by (intro ensures_if ensures_return ensures_bind_any [OF ensures_deadline] ensures_bind_any [OF ensures_clock]
        ensures_bind [OF rec_abandon] ensures_bind [OF rec_save] out)
      (auto simp: assms intro: health_ok_no_requeue)
qed

lemma hist_health:
  "ensures (rec_event E \<rho>) m (health_ok (\<lambda>tu. trail tu = \<rho>)) \<Longrightarrow> hist (at_record E \<rho>0 \<rho>) m (health_at_record E \<rho>0)"
  by (rule hist_weaken [OF hist_ensures(1)]) (auto elim!: health_ok.elims simp: at_record_grounded)

lemma hist_judge_health:
  assumes srt: "slice_sort (lib_sort E)" and r: "trail tu = \<rho>"
  shows "hist (at_record E \<rho>0 \<rho>) (judge_health E tu st) (health_at_record E \<rho>0)"
proof -
  have healthy: "ensures (rec_event E \<rho>) (do {
        tu1 \<leftarrow> set_condition E (with_status healthy_status tu) c;
        s \<leftarrow> save_status E tu1;
        ret (no_requeue s) }) (health_ok (\<lambda>tu. trail tu = \<rho>))" for c
    by (intro ensures_bind [OF rec_set] ensures_bind [OF rec_save] ensures_return) (auto simp: r intro: health_ok_no_requeue)
  have rollback: "hist (at_record E \<rho>0 \<rho>) (do { s \<leftarrow> rollback_with_status E tu; ret (no_requeue s) }) (health_at_record E \<rho>0)"
    by (rule hist_bind [OF hist_rollback_with_status [OF srt r]]) (auto intro: hist_return health_no_requeue)
  show ?thesis
    unfolding judge_health_def
    by (intro hist_cases(1,3) hist_health [OF healthy] rollback hist_step [OF ensures_clock] hist_return)
      (auto simp: r at_record_grounded)
qed

lemma hist_check_health:
  assumes srt: "slice_sort (lib_sort E)" and r: "trail tu = \<rho>"
  shows "hist (at_record E \<rho>0 \<rho>) (check_health E tu) (health_at_record E \<rho>0)"
proof -
  have unreadable: "ensures (rec_event E \<rho>) (do { tu2 \<leftarrow> health_unreadable E t e; ret (Ok (tu2, watch_poll, None)) })
      (health_ok (\<lambda>tu. trail tu = \<rho>))" if "trail t = \<rho>" for t e
    by (intro ensures_bind [OF rec_unreadable [OF that]] ensures_return) auto
  have first: "ensures (rec_event E \<rho>) (do { tu1 \<leftarrow> health_unreadable E tu e; _ \<leftarrow> record_event E True reason msg;
      ret (Ok (tu1, watch_poll, None)) }) (health_ok (\<lambda>tu. trail tu = \<rho>))" for e reason msg
    by (intro ensures_bind [OF rec_unreadable [OF r]] ensures_bind_any [OF ensures_record] ensures_return) auto
  have answer: "hist (at_record E \<rho>0 \<rho>) (ret a) (health_at_record E \<rho>0)" if "health_ok (\<lambda>tu. trail tu = \<rho>) a" for a
    by (rule hist_health) (rule ensures_return, rule that)
  show ?thesis
    unfolding check_health_def
    apply (rule hist_step [OF ensures_read_app])
    apply (intro hist_cases(2) hist_health [OF first])
    apply (rule hist_step [OF rec_await [OF r]])
    apply (intro hist_cases(2) answer)
     apply simp
    apply (rule hist_step [OF ensures_read_app])
    apply (intro hist_cases(2) hist_health [OF unreadable] hist_judge_health [OF srt])
     apply simp_all
    done
qed

section \<open>The handler\<close>

fun stage_at_record :: "env \<Rightarrow> record_trail \<Rightarrow> ('a \<Rightarrow> event list \<Rightarrow> bool) \<Rightarrow> 'a stage \<Rightarrow> event list \<Rightarrow> bool" where
  "stage_at_record E \<rho>0 N (Next x) es = N x es"
| "stage_at_record E \<rho>0 N _ es = grounded E \<rho>0 es"

lemma stage_at_record_next [simp]: "stage_at_record E \<rho>0 N (Next x) = N x"
  by (simp add: fun_eq_iff)

lemma hist_stage_ready:
  "ensures (rec_event E \<rho>) m (on_next R) \<Longrightarrow> (\<And>x. R x \<Longrightarrow> hist (ready E \<rho>0 \<rho> d) (f x) (stage_at_record E \<rho>0 N)) \<Longrightarrow>
    hist (ready E \<rho>0 \<rho> d) (and_then m f) (stage_at_record E \<rho>0 N)"
  unfolding and_then_def
  by (rule hist_step_ready, assumption) (auto split: stage.split intro!: hist_return simp: ready_grounded)

lemma hist_stage:
  "ensures (rec_event E \<rho>) m (on_next R) \<Longrightarrow> (\<And>x. R x \<Longrightarrow> hist (at_record E \<rho>0 \<rho>) (f x) (stage_at_record E \<rho>0 N)) \<Longrightarrow>
    hist (at_record E \<rho>0 \<rho>) (and_then m f) (stage_at_record E \<rho>0 N)"
  unfolding and_then_def
  by (rule hist_step, assumption) (auto split: stage.split intro!: hist_return simp: at_record_grounded)

lemma hist_and_then:
  "hist P m (stage_at_record E \<rho>0 R) \<Longrightarrow> (\<And>x. hist (R x) (f x) (stage_at_record E \<rho>0 N)) \<Longrightarrow>
    hist P (and_then m f) (stage_at_record E \<rho>0 N)"
  unfolding and_then_def
  by (erule hist_bind) (auto split: stage.split intro!: hist_return)

lemma hist_out:
  "ensures (rec_event E \<rho>) m (on_next (\<lambda>_. False)) \<Longrightarrow> hist (at_record E \<rho>0 \<rho>) m (stage_at_record E \<rho>0 N)"
  by (rule hist_weaken [OF hist_ensures(1)]) (auto elim!: on_next.elims simp: at_record_grounded)

lemma hist_watch_gate:
  assumes srt: "slice_sort (lib_sort E)" and r: "trail tu = \<rho>"
  shows "hist (at_record E \<rho>0 \<rho>) (watch_gate E key tu) (stage_at_record E \<rho>0 (\<lambda>tu. at_record E \<rho>0 (trail tu)))"
proof -
  have mark: "hist (at_record E \<rho>0 (trail t)) (do {
      _ \<leftarrow> mark_reconcile_succeeded E t key;
      ret (Return d None) }) (stage_at_record E \<rho>0 N)" for t d N
    by (rule hist_out, intro ensures_bind_any ensures_weaken [OF rec_mark] ensures_return) auto
  have mark_if: "hist (at_record E \<rho>0 (trail t)) (do {
      _ \<leftarrow> (if b then mark_reconcile_succeeded E t key else ret t);
      ret (Return d None) }) (stage_at_record E \<rho>0 N)" for t b d N
    by (rule hist_out, intro ensures_bind_any ensures_if ensures_weaken [OF rec_mark] ensures_return) auto
  show ?thesis
    unfolding watch_gate_def
    apply (intro hist_cases(1) hist_return hist_bind [OF hist_check_health [OF srt r]])
    subgoal for s
      by (cases s) (auto split: prod.split intro!: hist_return hist_cases(1) mark mark_if simp: at_record_grounded)
    apply (simp add: r)
    done
qed

lemma quiet_written: "ensures reads (written E tu tag x) (\<lambda>_. True)"
  unfolding written_def Let_def
  by (intro ensures_if ensures_bind_any [OF ensures_record] ensures_set_any) simp

lemma hist_gather:
  assumes r: "trail tu = \<rho>" and s: "selected E tu m src"
  shows "hist (at_record E \<rho>0 \<rho>) (gather_data E tu m src)
    (\<lambda>st es. (at_record E \<rho>0 \<rho> es \<and> (\<forall>d. st = Next d \<longrightarrow> ready E \<rho>0 \<rho> d es)) \<and>
       on_next (\<lambda>d. d ''tag'' = Some (match_tag m)) st)"
  by (rule hist_listed [OF rec_gather [OF assms]]) (use emits_gather_rev [OF s] r in \<open>auto simp: trail_def\<close>)

lemma hist_write_release:
  assumes r: "trail tu = \<rho>" and d: "d ''tag'' = Some tag"
  shows "hist (ready E \<rho>0 \<rho> d) (write_release E key tu tag d)
    (stage_at_record E \<rho>0 (\<lambda>(tu', x) es. at_record E \<rho>0 (fst \<rho>0, tag, commit_sha x) es \<and>
       spec_source (updater_spec tu') = fst \<rho>))"
proof -
  let ?N = "\<lambda>(tu', x) es. at_record E \<rho>0 (fst \<rho>0, tag, commit_sha x) es \<and> spec_source (updater_spec tu') = fst \<rho>"
  have failed: "hist (at_record E \<rho>0 \<rho>) (write_failed E tu e) (stage_at_record E \<rho>0 N)" for e N
    by (rule hist_out [OF rec_write_failed [OF r]])
  have keeps: "ensures (rec_event E \<tau>) (written E tu tag x) (\<lambda>tu'. trail tu' = \<rho>)" for x \<tau>
    unfolding written_def Let_def
    by (intro ensures_if ensures_bind_any [OF ensures_record] ensures_put) (auto simp: r)
  have apply_step: "hist (ready E \<rho>0 \<rho> d) (apply_release E tu tag wr) (stage_at_record E \<rho>0 ?N)" if "wr_data wr = d" for wr
    unfolding apply_release_def
    apply (rule hist_bind [OF hist_pre [OF hist_apply]], simp add: that)
    subgoal for o'
    proof (cases o')
      case (Ok x)
      have "hist (at_record E \<rho>0 (fst \<rho>0, tag, commit_sha x)) (do { tu1 \<leftarrow> written E tu tag x; ret (Next (tu1, x)) })
          (stage_at_record E \<rho>0 ?N)"
        by (rule hist_step [OF keeps]) (auto intro: hist_return simp: trail_def)
      then show ?thesis unfolding Ok by (simp add: that d) (erule hist_pre, simp)
    next
      case (Fail e)
      show ?thesis unfolding Fail by (simp add: hist_pre [OF failed])
    next
      case (Abort a)
      show ?thesis unfolding Abort by (auto intro: hist_return simp: at_record_grounded)
    qed
    done
  show ?thesis
    unfolding write_release_def
    apply (rule hist_step_ready [OF ensures_reads_ctl [OF quiet_write_back_credentials]])
    apply (intro hist_cases(2) hist_pre [OF failed])
     apply (simp add: ready_def)
    apply (rule hist_stage_ready [OF rec_skip_clone [OF r]])
    apply (rule apply_step)
    apply simp
    done
qed

lemma hist_record_success:
  assumes src: "spec_source (updater_spec tu) = fst \<rho>0"
  shows "hist (at_record E \<rho>0 (fst \<rho>0, tag, commit_sha x)) (record_success E key tag d (tu, x)) (stage_at_record E \<rho>0 N)"
proof -
  have r: "trail (with_status (success_status tu now tag d (commit_sha x)) tu) = (fst \<rho>0, tag, commit_sha x)" for now
    by (simp add: trail_def release_of_def success_status_def rotate_tag_def arm_watch_def src with_status_def)
  show ?thesis
    unfolding record_success_def prod.case
    by (rule hist_out, intro ensures_bind_any [OF ensures_clock] ensures_bind [OF rec_set [OF r]]
        ensures_bind_any [OF rec_update] ensures_sum ensures_bind [OF rec_mark] ensures_return) auto
qed

lemma hist_release_stage:
  assumes srt: "slice_sort (lib_sort E)"
  shows "hist (at_record E \<rho>0 (trail tu)) (release_stage E key tu) (stage_at_record E \<rho>0 (\<lambda>_. grounded E \<rho>0))"
proof (rule hist_pure [OF at_record_fst], assumption)
  assume src: "fst (trail tu) = fst \<rho>0"
  have stored: "hist (at_record E \<rho>0 (fst \<rho>0, tag, commit_sha x)) (record_success E key tag d (t, x))
      (stage_at_record E \<rho>0 (\<lambda>_. grounded E \<rho>0))" if "spec_source (updater_spec t) = fst (trail tu)" for tag d t x
    by (rule hist_record_success) (simp add: that src)
  have wrt: "hist (ready E \<rho>0 (trail tu) d) (and_then (write_release E key tu tag d) (record_success E key tag d))
      (stage_at_record E \<rho>0 (\<lambda>_. grounded E \<rho>0))" if "d ''tag'' = Some tag" for tag d
  proof (rule hist_and_then [OF hist_write_release [where d = d and tag = tag, OF refl that]])
    fix tx :: "tag_updater \<times> write_result"
    obtain t x where "tx = (t, x)" by (cases tx)
    then show "hist ((\<lambda>(tu', x) es. at_record E \<rho>0 (fst \<rho>0, tag, commit_sha x) es \<and>
        spec_source (updater_spec tu') = fst (trail tu)) tx) (record_success E key tag d tx)
        (stage_at_record E \<rho>0 (\<lambda>_. grounded E \<rho>0))"
      by simp (rule hist_pure [where A = "spec_source (updater_spec t) = fst (trail tu)"], simp,
        rule hist_pre [OF stored], simp_all)
  qed
  have rest: "hist (at_record E \<rho>0 (trail tu)) (and_then (gather_data E tu m src) (\<lambda>data.
        and_then (digest_guard E tu (match_tag m) data) (\<lambda>_.
          and_then (write_release E key tu (match_tag m) data) (record_success E key (match_tag m) data))))
      (stage_at_record E \<rho>0 (\<lambda>_. grounded E \<rho>0))" if s: "selected E tu m src" for m src
    unfolding and_then_def [of "gather_data E tu m src"]
  proof (rule hist_bind_pure [OF hist_gather [OF refl s]])
    fix st :: "strmap stage"
    assume tag: "on_next (\<lambda>d. d ''tag'' = Some (match_tag m)) st"
    show "hist (\<lambda>es. at_record E \<rho>0 (trail tu) es \<and> (\<forall>d. st = Next d \<longrightarrow> ready E \<rho>0 (trail tu) d es))
        (case st of Next x \<Rightarrow> and_then (digest_guard E tu (match_tag m) x) (\<lambda>_.
            and_then (write_release E key tu (match_tag m) x) (record_success E key (match_tag m) x))
         | Return d e \<Rightarrow> ret (Return d e) | Crash a \<Rightarrow> ret (Crash a))
        (stage_at_record E \<rho>0 (\<lambda>_. grounded E \<rho>0))"
    proof (cases st)
      case (Next d)
      with tag have d: "d ''tag'' = Some (match_tag m)" by simp
      show ?thesis
        unfolding Next stage.case
        by (rule hist_pre [OF hist_stage_ready [OF rec_digest_guard [OF refl] wrt [where d = d and tag = "match_tag m", OF d]]]) simp
    qed (auto intro!: hist_return simp: at_record_grounded)
  qed
  show ?thesis
    unfolding release_stage_def
    by (rule hist_stage [OF rec_select [OF srt refl]]) (auto intro: rest)
qed

lemma hist_reconcile_updater:
  assumes srt: "slice_sort (lib_sort E)"
  shows "hist (at_record E (trail tu) (trail tu)) (reconcile_updater E key tu) (\<lambda>_. grounded E (trail tu))"
proof -
  let ?\<rho> = "trail tu"
  have rest: "hist (at_record E ?\<rho> (trail t)) (and_then (check_configuration E key t) (\<lambda>_. release_stage E key t))
      (stage_at_record E ?\<rho> (\<lambda>_. grounded E ?\<rho>))" for t
    by (rule hist_stage [OF rec_check_configuration [OF refl] hist_release_stage [OF srt]])
  have all: "hist (at_record E ?\<rho> ?\<rho>) (reconcile_updater E key tu) (stage_at_record E ?\<rho> (\<lambda>_. grounded E ?\<rho>))"
    unfolding reconcile_updater_def
    apply (rule hist_step [OF ensures_clock])
    apply (rule hist_step [OF ensures_progress(2)])
    apply (rule hist_stage [OF rec_admit [OF refl]])
    apply (rule hist_and_then [OF hist_watch_gate [OF srt refl] rest])
    done
  then show ?thesis
    by (rule hist_weaken) (auto elim!: stage_at_record.elims)
qed

text \<open>The condition on the calls, read at one status update or one application.\<close>

lemma grounded_suffix: "grounded E \<rho> (later @ es) \<Longrightarrow> grounded E \<rho> es"
proof (induction later)
  case (Cons e later)
  then show ?case by (cases e) auto
qed simp

lemma reconcile_grounded:
  assumes "slice_sort (lib_sort E)" and "env_get_updater E (w_tick w) ns name = Found tu"
    and "run_state (reconcile E ns name) w = (r, w')" and "w_trace w' = es @ w_trace w"
  shows "grounded E (trail tu) es"
proof -
  let ?get = "EvGetUpdater ns name (Found tu)"
  let ?w = "w\<lparr>w_tick := Suc (w_tick w), w_trace := ?get # w_trace w\<rparr>"
  have run: "run_state (reconcile_updater E (request_key ns name) tu) ?w = (r, w')"
    using assms(2,3) by (simp add: reconcile_def ask_def)
  have "at_record E (trail tu) (trail tu) [?get]" by (simp add: at_record_def follows_def)
  with hist_reconcile_updater [OF assms(1)] have
    "emits (reconcile_updater E (request_key ns name) tu) (\<lambda>r new. grounded E (trail tu) (new @ [?get]))"
    unfolding hist_def by blast
  from emits_run [OF this run] assms(4) show ?thesis by auto
qed

section \<open>Properties\<close>

text \<open>
  C1. Whatever a reconcile writes is pinned: the writer has the updater's own write-back
  configuration and targets, its data names a tag that the pattern accepts, and if digests are
  resolved the data holds a well-formed sha256 digest. If the source is a Git repository, then
  the same reconcile, before it applied the writer, listed that repository, and the revision in
  the data is the object id that the answer gives for exactly the tag in the data. This covers
  forward writes and rollbacks.
\<close>

theorem reconcile_writes_pinned:
  assumes "slice_sort (lib_sort E)" and "env_get_updater E (w_tick w) ns name = Found tu"
    and "run_state (reconcile E ns name) w = (r, w')"
    and "w_trace w' = later @ EvApply wr # before @ w_trace w"
  shows "pinned E tu wr \<and> rev_listed (spec_source (updater_spec tu)) (wr_data wr) before"
proof
  have "ensures (handler_event E False tu (pinned E tu)) (reconcile_updater E (request_key ns name) tu) (on_next (\<lambda>_. True))"
    by (rule ensures_reconcile_updater [OF assms(1)]) simp
  from reconcile_run [OF assms(2) this assms(3)] assms(4) show "pinned E tu wr"
    by fastforce
  have "grounded E (trail tu) (later @ EvApply wr # before)"
    by (rule reconcile_grounded [OF assms(1-3)]) (simp add: assms(4))
  from grounded_suffix [OF this] show "rev_listed (spec_source (updater_spec tu)) (wr_data wr) before"
    by (simp add: trail_def)
qed

text \<open>
  C10. Nothing is recorded that was not applied: every object that a reconcile stores either keeps
  the recorded tag and commit as they were read, or is stored after an application of
  template data for exactly that tag which succeeded with exactly that commit: its one push
  followed on the commit, or the commit is the head of a fresh clone in which there was nothing
  to change. This covers releases and rollbacks.
\<close>

theorem recorded_release_was_applied:
  assumes "slice_sort (lib_sort E)" and "env_get_updater E (w_tick w) ns name = Found tu"
    and "run_state (reconcile E ns name) w = (r, w')"
    and "w_trace w' = later @ EvStatusUpdate tu' a # before @ w_trace w"
  shows "release_of tu' = release_of tu \<or> backed E (release_of tu') before"
proof -
  have "grounded E (trail tu) (later @ EvStatusUpdate tu' a # before)"
    by (rule reconcile_grounded [OF assms(1-3)]) (simp add: assms(4))
  from grounded_suffix [OF this] show ?thesis by (auto simp: follows_def trail_def)
qed

text \<open>In the example the revision of the tag \<^verbatim>\<open>v2\<close> comes from the listing.\<close>

theorem reconcile_writes_pinned_witness:
  "\<exists>auth u adv sha. u \<in> {''git@h:o/app'', ''https://h/o/app''} \<and> EvLsRemote auth u (Inr adv) \<in> set (w_trace (snd (run_state
      (reconcile (demo_ctl_env (Inr JNull) 500) ''ns'' ''a'') initial_world))) \<and>
    demo_data ''tag'' = Some ''v2'' \<and> demo_data ''rev'' = Some sha \<and>
    tag_revs_from_refs (remote_list default_peeling adv) ''v2'' = Some sha"
proof -
  let ?E = "demo_ctl_env (Inr JNull) 500"
  obtain r w' where run: "run_state (reconcile ?E ''ns'' ''a'') initial_world = (r, w')"
    and e: "EvApply (demo_wr demo_data) \<in> set (w_trace w')"
    using demo_reconcile_new by blast
  from e obtain later before where w': "w_trace w' = later @ EvApply (demo_wr demo_data) # before @ w_trace initial_world"
    by (auto simp: initial_world_def dest: split_list)
  have d: "wr_data (demo_wr demo_data) = demo_data" "demo_data ''tag'' = Some ''v2''"
    by (simp_all add: demo_wr_def demo_data_def demo_match_def)
  have git: "source_type (spec_source demo_spec) = SourceTypeGit" "source_repo (spec_source demo_spec) = ''git@h:o/app''"
    by (simp_all add: demo_spec_def)
  have https: "to_https ''git@h:o/app'' = ''https://h/o/app''" by code_simp
  have "rev_listed (spec_source demo_spec) demo_data before"
    using reconcile_writes_pinned [OF demo_sort demo_found run w'] d(1) by (simp add: demo_updater_def)
  then obtain auth u adv sha where u: "u \<in> {''git@h:o/app'', ''https://h/o/app''}" "EvLsRemote auth u (Inr adv) \<in> set before"
    "demo_data ''rev'' = Some sha" "tag_revs_from_refs (remote_list default_peeling adv) ''v2'' = Some sha"
    unfolding rev_listed_def git https using d(2) by auto
  then show ?thesis using run w' d(2)
    by (intro exI [of _ auth] exI [of _ u] exI [of _ adv] exI [of _ sha]) simp
qed

text \<open>In the example the new release is stored, so it was applied before.\<close>

theorem recorded_release_was_applied_witness:
  "backed (demo_ctl_env (Inr JNull) 500) (''v2'', ''sha'')
     (w_trace (snd (run_state (reconcile (demo_ctl_env (Inr JNull) 500) ''ns'' ''a'') initial_world)))"
proof -
  let ?E = "demo_ctl_env (Inr JNull) 500"
  obtain r w' tu a where run: "run_state (reconcile ?E ''ns'' ''a'') initial_world = (r, w')"
    and st: "EvStatusUpdate tu a \<in> set (w_trace w')" "release_of tu = (''v2'', ''sha'')"
    using demo_reconcile_new by (fastforce simp: release_of_def)
  from st(1) obtain later before where w': "w_trace w' = later @ EvStatusUpdate tu a # before @ w_trace initial_world"
    by (auto simp: initial_world_def dest: split_list)
  have "release_of (demo_updater ''a'') \<noteq> release_of tu"
    using st(2) by (simp add: release_of_def demo_updater_def empty_status_def)
  with recorded_release_was_applied [OF demo_sort demo_found run w'] st(2)
  have "backed ?E (''v2'', ''sha'') before" by simp
  with backed_append [of ?E _ before "later @ [EvStatusUpdate tu a]"] run w' show ?thesis
    by (simp add: initial_world_def)
qed

end
