(* ===== verification/Reports.thy ===== *)
theory Reports
  imports Recorded
begin

text \<open>
  The errors that \<^verbatim>\<open>Reconcile\<close> of \<^verbatim>\<open>internal/controller/tagupdater_controller.go\<close>
  returns, against what the stored status was made to say about them. The argument is the
  Hoare logic on the calls made so far, with stages that end in an error that is told.
\<close>

section \<open>How an error is told\<close>

text \<open>The error is the API server's own: it refused the last status update.\<close>

definition refused :: "go_error \<Rightarrow> event list \<Rightarrow> bool" where
  "refused e es \<longleftrightarrow> (\<exists>tu before. es = EvStatusUpdate tu (Inl e) # before)"

text \<open>The other updaters could not be listed.\<close>

definition listing_failed :: "go_error \<Rightarrow> event list \<Rightarrow> bool" where
  "listing_failed e es \<longleftrightarrow> (\<exists>cause before. es = EvListUpdaters (Inl cause) # before \<and>
     e = Wrapped ''list TagUpdaters to validate field ownership'' cause)"

text \<open>A rollback failed, and the last status update says so.\<close>

definition rollback_told :: "go_error \<Rightarrow> event list \<Rightarrow> bool" where
  "rollback_told e es \<longleftrightarrow> (\<exists>notes tu a before. es = notes @ EvStatusUpdate tu a # before \<and>
     set notes \<subseteq> {EvRecord True ''RollbackWriteFailed'' (error_text e)} \<and>
     verdict tu ''RollbackReady'' = Some (ConditionFalse, ''RollbackWriteFailed'', error_text e))"

text \<open>The last status update names the error in Ready and as the failure of the write-back.\<close>

definition write_failure_told :: "go_error \<Rightarrow> event list \<Rightarrow> bool" where
  "write_failure_told e es \<longleftrightarrow> (\<exists>tu a before. es = EvStatusUpdate tu a # before \<and>
     verdict tu ''Ready'' = Some (ConditionFalse, ''Error'', error_text e) \<and> verdict tu ''Stalled'' \<noteq> None \<and>
     verdict tu ''WriteBackReady'' = Some (ConditionFalse, ''WriteBackFailed'', error_text e))"

text \<open>
  The last status update names the error in Ready and as the reason why a write-back was not
  attempted; and unless a watch came first, which may have rolled back, nothing was applied.
\<close>

definition early_failure_told :: "bool \<Rightarrow> go_error \<Rightarrow> event list \<Rightarrow> bool" where
  "early_failure_told idle e es \<longleftrightarrow> (\<exists>tu a before. es = EvStatusUpdate tu a # before \<and>
     verdict tu ''Ready'' = Some (ConditionFalse, ''Error'', error_text e) \<and> verdict tu ''Stalled'' \<noteq> None \<and>
     verdict tu ''WriteBackReady'' = Some (ConditionUnknown, ''NotAttempted'',
       ''write-back not attempted this reconcile: '' @ error_text e) \<and> (idle \<longrightarrow> \<not> writes before))"

definition error_told :: "bool \<Rightarrow> go_error \<Rightarrow> event list \<Rightarrow> bool" where
  "error_told idle e es \<longleftrightarrow>
     early_failure_told idle e es \<or> write_failure_told e es \<or> refused e es \<or> listing_failed e es \<or> (\<not> idle \<and> rollback_told e es)"

section \<open>Stages that tell their errors\<close>

definition quiet :: "bool \<Rightarrow> event list \<Rightarrow> bool" where
  "quiet idle es \<longleftrightarrow> (idle \<longrightarrow> \<not> writes es)"

fun accounted :: "bool \<Rightarrow> (event list \<Rightarrow> bool) \<Rightarrow> 'a stage \<Rightarrow> event list \<Rightarrow> bool" where
  "accounted idle N (Next x) es = N es"
| "accounted idle N (Return d (Some e)) es = error_told idle e es"
| "accounted idle N _ es = True"

lemma accounted_next: "accounted idle N (Next x) = N"
  by (simp add: fun_eq_iff)

lemma hist_emits:
  "emits m R \<Longrightarrow> (\<And>x new es. P es \<Longrightarrow> R x new \<Longrightarrow> Q x (new @ es)) \<Longrightarrow> hist P m Q"
  unfolding hist_def by (blast intro: emits_weaken)

lemma hist_quiet:
  assumes "ensures no_apply m (\<lambda>_. True)" and "\<And>x. hist (quiet idle) (f x) Q"
  shows "hist (quiet idle) (m \<bind> f) Q"
  by (rule hist_bind [OF hist_emits [OF emits_no_apply [OF assms(1)]] assms(2)]) (simp add: quiet_def)

lemma hist_any: "ensures P' m (\<lambda>_. True) \<Longrightarrow> (\<And>x. hist (\<lambda>_. True) (f x) Q) \<Longrightarrow> hist P (m \<bind> f) Q"
  by (rule hist_bind [OF hist_emits [OF emits_ensures]], assumption, rule TrueI)

lemma accounted_and_then:
  "hist P m (accounted idle R) \<Longrightarrow> (\<And>x. hist R (f x) (accounted idle N)) \<Longrightarrow>
    hist P (and_then m f) (accounted idle N)"
  unfolding and_then_def
  apply (erule hist_bind)
  subgoal for s
    by (cases "(idle, R, s, [] :: event list)" rule: accounted.cases) (auto intro!: hist_return simp: accounted_next)
  done

lemma ensures_reads_no_apply: "ensures reads m Q \<Longrightarrow> ensures no_apply m Q"
  by (erule ensures_weaken) (auto simp: no_apply_def)

text \<open>The two reports.\<close>

lemma emits_from_run:
  "(\<And>w s w'. run_state m w = (s, w') \<Longrightarrow> \<exists>es. w_trace w' = es @ w_trace w \<and> Q s es) \<Longrightarrow> emits m Q"
  unfolding emits_def by (metis prod.collapse)

lemma emits_fail_early:
  "emits (fail_before_write_back E tu d e) (\<lambda>s es. s = Return d (Some e) \<and> early_failure_told True e es)"
  by (rule emits_from_run, drule failure_before_write_back_reported) (fastforce simp: early_failure_told_def writes_def)

lemma accounted_fail: "hist (quiet idle) (fail_before_write_back E tu d e) (accounted idle N)"
  by (rule hist_emits [OF emits_fail_early]) (fastforce simp: error_told_def early_failure_told_def quiet_def)

lemma emits_write_failed: "emits (write_failed E tu e) (\<lambda>s es. s = Return 0 (Some e) \<and> write_failure_told e es)"
  by (rule emits_from_run)
    (auto simp: write_failed_def set_failed_def set_condition_def stalled_condition_def clock_def read_progress_def
      update_status_def ask_def record_event_def note_event_def verdict_put_condition write_failure_told_def split: if_splits)

lemma accounted_write_failed: "hist P (write_failed E tu e) (accounted idle N)"
  by (rule hist_emits [OF emits_write_failed]) (auto simp: error_told_def write_failure_told_def)

text \<open>A stage that ends with a status update returns the error of that update.\<close>

lemma accounted_update:
  assumes "\<And>u. hist (\<lambda>_. True) (f u) (accounted idle N)"
  shows "hist P (do { r \<leftarrow> update_status E tu; case r of Inl e \<Rightarrow> ret (Return 0 (Some e)) | Inr u \<Rightarrow> f u }) (accounted idle N)"
proof (rule hist_bind [OF hist_emits])
  show "emits (update_status E tu) (\<lambda>r es. es = [EvStatusUpdate tu r])"
    by (simp add: emits_def update_status_def ask_def)
  show "\<exists>old. new @ es = EvStatusUpdate tu r # old" if "new = [EvStatusUpdate tu r]" for r new es
    using that by simp
  show "hist (\<lambda>es. \<exists>old. es = EvStatusUpdate tu r # old)
      (case r of Inl e \<Rightarrow> ret (Return 0 (Some e)) | Inr u \<Rightarrow> f u) (accounted idle N)" for r
  proof (cases r)
    case (Inl e)
    then show ?thesis by (auto intro!: hist_return simp: error_told_def refused_def)
  next
    case (Inr u)
    show ?thesis unfolding Inr sum.case by (rule hist_pre [OF assms]) simp
  qed
qed

lemma accounted_done: "hist P (ret (Return d None)) (accounted idle N)"
  by (rule hist_return) simp

section \<open>The watch\<close>

fun watch_told :: "saved \<Rightarrow> event list \<Rightarrow> bool" where
  "watch_told (Ok (tu, Some e)) es = (refused e es \<or> rollback_told e es)"
| "watch_told (Ok (tu, None)) es = True"
| "watch_told (Fail e) es = False"
| "watch_told (Abort a) es = True"

fun reply_told :: "health_reply \<Rightarrow> event list \<Rightarrow> bool" where
  "reply_told (Ok (tu, d, Some e)) es = (refused e es \<or> rollback_told e es)"
| "reply_told (Ok (tu, d, None)) es = True"
| "reply_told (Fail e) es = False"
| "reply_told (Abort a) es = True"

lemma told_save: "hist P (save_status E tu) watch_told"
proof (rule hist_emits)
  show "emits (save_status E tu) (\<lambda>s es. \<exists>a. s = Ok (tu, case a of Inl e \<Rightarrow> Some e | Inr _ \<Rightarrow> None) \<and> es = [EvStatusUpdate tu a])"
    unfolding save_status_def update_status_def by (intro emits_bind_ask emits_return) auto
  show "watch_told s (new @ es)"
    if "\<exists>a. s = Ok (tu, case a of Inl e \<Rightarrow> Some e | Inr _ \<Rightarrow> None) \<and> new = [EvStatusUpdate tu a]" for s new es
  proof -
    from that obtain a where a: "s = Ok (tu, case a of Inl e \<Rightarrow> Some e | Inr _ \<Rightarrow> None)" "new = [EvStatusUpdate tu a]" by blast
    then show ?thesis by (cases a) (auto simp: refused_def)
  qed
qed

lemma told_abandon: "hist P (abandon_watch E tu) watch_told"
proof (cases "revision_observer tu = None")
  case True
  then show ?thesis by (simp add: abandon_watch_def hist_return)
next
  case False
  show ?thesis
    unfolding abandon_watch_def Let_def
    by (intro hist_cases(3) hist_any ensures_set_any ensures_record told_save TrueI) (simp add: False)
qed

text \<open>A rollback gives an answer, and its error is reported whatever it was.\<close>

lemma rollback_answers:
  assumes srt: "slice_sort (lib_sort E)"
  shows "ensures (\<lambda>_. True) (do_rollback E tu) (\<lambda>s. \<forall>e. s \<noteq> Fail e)"
proof -
  have save: "ensures (\<lambda>_. True) (save_status E t) (\<lambda>s. \<forall>e. s \<noteq> Fail e)" for t
    unfolding save_status_def by (intro ensures_bind_any ensures_intro) auto
  have data: "ensures (\<lambda>_. True) (rollback_data E tu (previous_tag (updater_status tu))) (\<lambda>_. True)"
    by (rule ensures_weaken [OF ensures_rollback_data [OF srt]]) auto
  have cred: "ensures (\<lambda>_. True) (resolve_write_back_credentials E tu) (\<lambda>_. True)"
    by (rule ensures_weaken [OF quiet_write_back_credentials]) auto
  have write_it: "ensures (\<lambda>_. True) (writer_apply E wr) (\<lambda>_. True)" for wr
    by (rule ensures_weaken [OF ensures_writer_apply [where W = "\<lambda>_. True"]]) auto
  show ?thesis
    unfolding do_rollback_def rollback_unavailable_def finish_rollback_def Let_def
    by (intro ensures_if ensures_sum ensures_outcome ensures_bind_any [OF data] ensures_bind_any [OF cred]
        ensures_bind_any [OF write_it] ensures_bind_any [OF ensures_set_any] ensures_bind_any [OF ensures_clock]
        ensures_bind_any [OF ensures_record] save ensures_return) auto
qed

lemma told_rollback:
  assumes srt: "slice_sort (lib_sort E)"
  shows "hist P (rollback_with_status E tu) watch_told"
proof -
  have report: "emits (do {
         tu2 \<leftarrow> set_condition E tu1 (mk_condition ''RollbackReady'' ConditionFalse ''RollbackWriteFailed'' (error_text e));
         _ \<leftarrow> update_status E tu2;
         _ \<leftarrow> record_event E True ''RollbackWriteFailed'' (error_text e);
         ret (Ok (tu2, Some e)) })
      (\<lambda>s es. (\<exists>tu2. s = Ok (tu2, Some e)) \<and> rollback_told e es)" for tu1 e
    unfolding update_status_def
    apply (intro emits_bind_put emits_bind_ask emits_bind_record emits_return conjI exI)
     apply (rule refl)
    apply (unfold rollback_told_def)
    apply (rule exI [of _ "if env_recorder E then [EvRecord True ''RollbackWriteFailed'' (error_text e)] else []"])
    apply (rule exI, rule exI, rule exI)
    apply (intro conjI)
      apply (simp split: if_split)
     apply (cases "env_recorder E"; simp)
    apply (simp add: verdict_put_condition)
    done
  have told: "hist P (do {
         tu2 \<leftarrow> set_condition E tu1 (mk_condition ''RollbackReady'' ConditionFalse ''RollbackWriteFailed'' (error_text e));
         _ \<leftarrow> update_status E tu2;
         _ \<leftarrow> record_event E True ''RollbackWriteFailed'' (error_text e);
         ret (Ok (tu2, Some e)) }) watch_told" for P tu1 e
    by (rule hist_emits [OF report]) (auto simp: rollback_told_def, metis append.assoc append_Cons)
  show ?thesis
    unfolding rollback_with_status_def
  proof (rule hist_bind_pure [OF hist_emits [OF emits_ensures [OF rollback_answers [OF srt]]]])
    fix s :: saved assume "\<forall>e. s \<noteq> Fail e"
    then show "hist (\<lambda>_. True) (case s of Ok (tu1, Some e) \<Rightarrow> do {
         tu2 \<leftarrow> set_condition E tu1 (mk_condition ''RollbackReady'' ConditionFalse ''RollbackWriteFailed'' (error_text e));
         _ \<leftarrow> update_status E tu2;
         _ \<leftarrow> record_event E True ''RollbackWriteFailed'' (error_text e);
         ret (Ok (tu2, Some e)) } | _ \<Rightarrow> ret s) watch_told"
      by (cases s) (auto split: option.split intro!: told hist_return)
  qed simp
qed

lemma told_no_requeue: "watch_told s es \<Longrightarrow> reply_told (no_requeue s) es"
  by (cases "(s, es)" rule: watch_told.cases) (auto simp: no_requeue_def)

lemma told_reply: "hist P m watch_told \<Longrightarrow> hist P (do { s \<leftarrow> m; ret (no_requeue s) }) reply_told"
  by (rule hist_bind, assumption, rule hist_return, rule told_no_requeue)

lemma told_check_health:
  assumes srt: "slice_sort (lib_sort E)"
  shows "hist P (check_health E tu) reply_told"
proof -
  have answer: "hist P (ret (Ok (t, d, None))) reply_told" for P t d
    by (rule hist_return) simp
  have unreadable: "ensures (\<lambda>_. True) (health_unreadable E t e) (\<lambda>_. True)" for t e
    by (rule ensures_weaken [OF ensures_no_apply(3)]) auto
  have app: "ensures (\<lambda>_. True) (argocd_app_state E ref) (\<lambda>_. True)" for ref
    by (rule ensures_weaken [OF ensures_no_apply(4)]) auto
  have noted: "ensures (\<lambda>_. True) (record_event E b r m) (\<lambda>_. True)" for b r m
    by (rule ensures_record) simp
  have judge: "hist P (judge_health E t st) reply_told" for P t st
    unfolding judge_health_def
    by (intro hist_cases(1,3) hist_any [OF ensures_set_any] hist_any [OF ensures_clock] told_reply told_save
        told_rollback [OF srt] answer hist_return) simp
  have await: "hist P (await_observation E t rs) (\<lambda>o1 es. case o1 of Inl a \<Rightarrow> reply_told a es | Inr t \<Rightarrow> True)" for P t rs
  proof -
    have late: "hist P (do { s \<leftarrow> abandon_watch E t; ret (Inl (no_requeue s)) })
        (\<lambda>o1 es. case o1 of Inl a \<Rightarrow> reply_told a es | Inr t \<Rightarrow> True)" for P
      by (rule hist_bind [OF told_abandon], rule hist_return) (simp add: told_no_requeue)
    have save: "hist P (do { s \<leftarrow> save_status E t'; ret (case s of
          Ok (tu1, None) \<Rightarrow> Inr tu1 | Ok (tu1, Some e) \<Rightarrow> Inl (Ok (tu1, 0, Some e))
        | Fail e \<Rightarrow> Inl (Fail e) | Abort a \<Rightarrow> Inl (Abort a)) })
        (\<lambda>o1 es. case o1 of Inl a \<Rightarrow> reply_told a es | Inr t \<Rightarrow> True)" for P t'
      by (rule hist_bind [OF told_save], rule hist_return)
        (auto elim!: watch_told.elims split: outcome.split option.split)
    show ?thesis
      unfolding await_observation_def Let_def
      by (intro hist_cases(1) hist_any [OF ensures_deadline] hist_any [OF ensures_clock] late save hist_return) auto
  qed
  show ?thesis
    unfolding check_health_def
    apply (rule hist_any [OF app])
    apply (rule hist_cases(2))
     apply (rule hist_any [OF unreadable], rule hist_any [OF noted], rule answer)
    apply (rule hist_bind [OF await])
    subgoal for rs o1
      by (cases o1) (auto intro!: hist_return hist_any [OF app] hist_cases(2) hist_any [OF unreadable] answer judge)
    done
qed

section \<open>The handler\<close>

lemma ensures_marks: "ensures (\<lambda>_. True) (mark_reconcile_succeeded E t key) (\<lambda>_. True)"
  by (rule ensures_mark) (simp_all add: stores_def keeps_conditions_def)

lemma accounted_watch_gate:
  assumes srt: "slice_sort (lib_sort E)"
    and idle: "idle \<longleftrightarrow> \<not> (rollback_on tu \<and> watching_tag (updater_status tu) \<noteq> '''')"
  shows "hist (quiet idle) (watch_gate E key tu) (accounted idle (quiet idle))"
proof (cases idle)
  case True
  with idle show ?thesis by (auto simp: watch_gate_def intro!: hist_return)
next
  case False
  have mark: "hist P (do { _ \<leftarrow> mark_reconcile_succeeded E t key; ret (Return d None) }) (accounted False N)" for P t d N
    by (rule hist_any [OF ensures_marks accounted_done])
  show ?thesis
    unfolding watch_gate_def
    apply (intro hist_cases(1) hist_bind [OF told_check_health [OF srt]])
    subgoal for s
      by (cases "(s, [] :: event list)" rule: reply_told.cases)
        (auto intro!: hist_return hist_cases(1) mark simp: False quiet_def error_told_def)
    apply (rule hist_return, simp)
    done
qed

lemma accounted_quiet_stage:
  "ensures no_apply m (\<lambda>s. \<forall>d e. s \<noteq> Return d (Some e)) \<Longrightarrow> hist (quiet idle) m (accounted idle (quiet idle))"
proof (rule hist_emits [OF emits_ensures], assumption)
  fix s :: "'a stage" and new es
  assume "quiet idle es" "(\<forall>e\<in>set new. no_apply e) \<and> (\<forall>d e. s \<noteq> Return d (Some e))"
  then show "accounted idle (quiet idle) s (new @ es)"
    by (cases "(idle, quiet idle, s, new)" rule: accounted.cases) (auto simp: quiet_def no_apply_writes)
qed

lemma accounted_admit: "hist (quiet idle) (admit E tu) (accounted idle (quiet idle))"
  unfolding admit_def Let_def
  by (intro hist_cases(1) accounted_fail accounted_quiet_stage ensures_bind_any [OF ensures_set_any]
      ensures_intro ensures_bind_any) auto

lemma accounted_check_configuration: "hist (quiet idle) (check_configuration E key tu) (accounted idle (quiet idle))"
proof -
  have refuse: "hist (quiet idle) (refuse_configuration E key tu b r e) (accounted idle (quiet idle))" for b r e
    unfolding refuse_configuration_def
    by (intro accounted_quiet_stage ensures_bind_any [OF ensures_set_any] ensures_bind_any ensures_if
        ensures_set_any ensures_weaken [OF ensures_stalled_condition] ensures_intro) auto
  show ?thesis
    unfolding check_configuration_def
  proof (intro hist_cases(3) refuse hist_bind [OF hist_emits])
    show "emits (ask (\<lambda>n. env_list_updaters E n) EvListUpdaters) (\<lambda>r es. es = [EvListUpdaters r])"
      by (simp add: emits_def ask_def)
    show "quiet idle (new @ es) \<and> (\<exists>old. new @ es = EvListUpdaters r # old)"
      if "quiet idle es" "new = [EvListUpdaters r]" for r new es
      using that by (simp add: quiet_def writes_def)
    show "hist (\<lambda>es. quiet idle es \<and> (\<exists>old. es = EvListUpdaters l # old))
      (case l of Inl e \<Rightarrow> ret (Return 0 (Some (Wrapped ''list TagUpdaters to validate field ownership'' e)))
        | Inr updaters \<Rightarrow> (case validate_field_ownership E updaters of
            Some e \<Rightarrow> refuse_configuration E key tu False ''ConflictingFieldOwner'' e | None \<Rightarrow> ret (Next ())))
      (accounted idle (quiet idle))" for l
    proof (cases l)
      case (Inl e)
      show ?thesis unfolding Inl sum.case
        by (rule hist_return, elim conjE exE) (simp only: accounted.simps error_told_def listing_failed_def, blast)
    next
      case (Inr us)
      show ?thesis unfolding Inr sum.case
        by (intro hist_cases(3) hist_pre [OF refuse] hist_return) (auto simp: accounted_next)
    qed
  qed
qed

lemma accounted_no_matching_tag: "hist P (no_matching_tag E key tu) (accounted idle N)"
proof -
  have wb: "ensures (\<lambda>_. True) (set_write_back_not_attempted E t m) (\<lambda>_. True)" for t m
    unfolding set_write_back_not_attempted_def by (rule ensures_set_any)
  show ?thesis
    unfolding no_matching_tag_def Let_def
    by (intro hist_any [OF ensures_set_any] hist_any [OF wb] accounted_update hist_any [OF ensures_marks] accounted_done)
qed

lemma accounted_select: "hist (quiet idle) (select_release E key tu) (accounted idle (quiet idle))"
proof -
  have auth: "ensures no_apply (listing_auth E tu) (\<lambda>_. True)"
    unfolding listing_auth_def Let_def
    by (intro ensures_if ensures_option ensures_bind_any [OF ensures_reads_no_apply [OF quiet_docker_auth]] ensures_return TrueI)
  show ?thesis
    unfolding select_release_def Let_def
    apply (rule hist_quiet [OF auth])
    apply (intro hist_cases(2) accounted_fail)
    subgoal for a src
      using release_source.quiet_list [OF source_for_release, of E "spec_source (updater_spec tu)" a src]
      by (intro hist_quiet [OF ensures_reads_no_apply] hist_cases(2,3,4) accounted_fail accounted_no_matching_tag
          hist_return) auto
    done
qed

lemma accounted_gather:
  assumes "release_source src"
  shows "hist (quiet idle) (gather_data E tu m src) (accounted idle (quiet idle))"
proof -
  have steps: "ensures no_apply (resolve_record p src t d) (\<lambda>_. True)" "ensures no_apply (add_rev E src t d) (\<lambda>_. True)"
    "ensures no_apply (add_image_digest E tu t d) (\<lambda>_. True)" for p t d
    by (rule ensures_reads_no_apply, rule ensures_weaken [OF release_source.resolve_record_frame [OF assms]], auto)
      (rule ensures_reads_no_apply, rule ensures_weaken [OF release_source.add_rev_frame [OF assms]], auto,
       rule ensures_reads_no_apply, rule ensures_weaken [OF add_image_digest_frame], auto)
  show ?thesis
    unfolding gather_data_def
    by (intro hist_quiet [OF steps(1)] hist_quiet [OF steps(2)] hist_quiet [OF steps(3)] hist_cases(2)
        accounted_fail hist_return) simp
qed

lemma accounted_digest_guard: "hist (quiet idle) (digest_guard E tu tag d) (accounted idle (quiet idle))"
proof -
  have update: "hist P (do { r \<leftarrow> update_status E t; ret (case r of Inl e \<Rightarrow> Return 0 (Some e) | Inr _ \<Rightarrow> (Return i None :: unit stage)) })
      (accounted idle (quiet idle))" for P t i
  proof -
    have "do { r \<leftarrow> update_status E t; ret (case r of Inl e \<Rightarrow> Return 0 (Some e) | Inr _ \<Rightarrow> Return i None) } =
        do { r \<leftarrow> update_status E t; case r of Inl e \<Rightarrow> ret (Return 0 (Some e)) | Inr _ \<Rightarrow> ret (Return i None :: unit stage) }"
      by (intro arg_cong2 [of _ _ _ _ State_Monad.bind] refl ext) (auto split: sum.split)
    then show ?thesis by (simp only:) (intro accounted_update accounted_done)
  qed
  show ?thesis
    unfolding digest_guard_def
    by (intro hist_cases(1) hist_any [OF ensures_set_any] update hist_return) simp
qed

lemma accounted_write_release: "hist (quiet idle) (write_release E key tu tag d) (accounted idle (\<lambda>_. True))"
proof -
  have apply_it: "hist P (apply_release E tu tag wr) (accounted idle (\<lambda>_. True))" for P wr
  proof -
    have wrt: "ensures (\<lambda>_. True) (writer_apply E wr) (\<lambda>_. True)"
      by (rule ensures_weaken [OF ensures_writer_apply [where W = "\<lambda>_. True"]]) auto
    have noted: "ensures (\<lambda>_. True) (written E tu tag x) (\<lambda>_. True)" for x
      by (rule ensures_weaken [OF quiet_written]) auto
    show ?thesis
      unfolding apply_release_def
      by (intro hist_any [OF wrt] hist_cases(4) accounted_write_failed hist_any [OF noted] hist_return) simp_all
  qed
  have unchanged: "hist P (remote_unchanged E key tu tag) (accounted idle N)" for P N
    unfolding remote_unchanged_def
    by (intro hist_any [OF ensures_set_any] accounted_update hist_any [OF ensures_marks] accounted_done)
  have head: "ensures (\<lambda>_. True) (remote_head E wr) (\<lambda>_. True)" for wr
    by (rule ensures_weaken [OF ensures_remote_head]) auto
  have skip: "hist P (skip_clone E key tu tag wr) (accounted idle (\<lambda>_. True))" for P wr
    unfolding skip_clone_def
    by (intro hist_cases(1,2) hist_any [OF head] unchanged hist_return) simp_all
  have cred: "ensures (\<lambda>_. True) (resolve_write_back_credentials E tu) (\<lambda>_. True)"
    by (rule ensures_weaken [OF quiet_write_back_credentials]) auto
  show ?thesis
    unfolding write_release_def
    by (intro hist_any [OF cred] hist_cases(2) accounted_write_failed accounted_and_then [OF skip apply_it])
qed

lemma accounted_record_success: "hist P (record_success E key tag d tx) (accounted idle N)"
  unfolding record_success_def
  by (intro hist_cases(5) hist_any [OF ensures_clock] hist_any [OF ensures_set_any] accounted_update
      hist_any [OF ensures_marks] accounted_done)

lemma hist_ensures_also: "hist P m Q \<Longrightarrow> ensures P' m R \<Longrightarrow> hist P m (\<lambda>x es. Q x es \<and> R x)"
  unfolding hist_def by (fast intro: emits_weaken [OF emits_conj [OF _ emits_ensures]])

lemma accounted_release_stage:
  assumes srt: "slice_sort (lib_sort E)"
  shows "hist (quiet idle) (release_stage E key tu) (accounted idle (\<lambda>_. True))"
proof -
  have tail: "hist (quiet idle) (and_then (gather_data E tu m src) (\<lambda>data.
      and_then (digest_guard E tu (match_tag m) data) (\<lambda>_.
        and_then (write_release E key tu (match_tag m) data) (record_success E key (match_tag m) data))))
      (accounted idle (\<lambda>_. True))" if "release_source src" for m src
    by (rule accounted_and_then [OF accounted_gather [OF that]], rule accounted_and_then [OF accounted_digest_guard],
        rule accounted_and_then [OF accounted_write_release accounted_record_success])
  show ?thesis
    unfolding release_stage_def and_then_def [of "select_release E key tu"]
  proof (rule hist_bind_pure [OF hist_ensures_also [OF accounted_select ensures_select_release [OF srt kept_refl [where A = False]]]])
    show "status_ok (updater_status tu) \<or> \<not> False" by simp
    fix s :: "(match \<times> release_iface) stage"
    assume s: "on_next (\<lambda>(m, src). selected E tu m src) s"
    show "hist (accounted idle (quiet idle) s) (case s of
        Next a \<Rightarrow> (case a of (m, src) \<Rightarrow> and_then (gather_data E tu m src) (\<lambda>data.
          and_then (digest_guard E tu (match_tag m) data) (\<lambda>_.
            and_then (write_release E key tu (match_tag m) data) (record_success E key (match_tag m) data))))
      | Return d e \<Rightarrow> ret (Return d e) | Crash a \<Rightarrow> ret (Crash a)) (accounted idle (\<lambda>_. True))"
    proof (cases s)
      case (Next a)
      obtain m src where a: "a = (m, src)" by (cases a)
      from s have "release_source src" using source_for_release by (auto simp: Next a selected_def)
      from tail [OF this] show ?thesis by (simp add: Next a accounted_next)
    next
      case (Return d e)
      then show ?thesis by (cases e) (auto intro: hist_return)
    qed (simp add: hist_return)
  qed
qed

lemma accounted_reconcile:
  assumes srt: "slice_sort (lib_sort E)"
    and idle: "idle \<longleftrightarrow> \<not> (rollback_on tu \<and> watching_tag (updater_status tu) \<noteq> '''')"
  shows "hist (quiet idle) (reconcile_updater E key tu) (accounted idle (\<lambda>_. True))"
  unfolding reconcile_updater_def
  by (rule hist_quiet [OF ensures_clock], rule hist_quiet [OF ensures_progress(2)], rule accounted_and_then [OF accounted_admit],
      rule accounted_and_then [OF accounted_watch_gate [OF srt idle]],
      rule accounted_and_then [OF accounted_check_configuration accounted_release_stage [OF srt]])

section \<open>Properties\<close>

text \<open>
  C27. Every error that a reconcile of a stored object returns is told. Either the last status
  update that the reconcile asked for names it in Ready (False, Error) and sets Stalled, and
  says that the write-back failed with it or that, because of it, no write-back was attempted --
  and then, unless the object came with a running watch, nothing was applied; or it names the
  error of a failed rollback in RollbackReady. Or the error is the API server's own: it refused
  the last status update, or the list of the other updaters was the last call and failed.
\<close>

theorem reconcile_error_told:
  assumes "slice_sort (lib_sort E)" and "env_get_updater E (w_tick w) ns name = Found tu"
    and "run_state (reconcile E ns name) w = (Return d (Some e), w')"
    and "w_trace w' = es @ w_trace w"
  shows "error_told (\<not> (rollback_on tu \<and> watching_tag (updater_status tu) \<noteq> '''')) e es"
proof -
  let ?idle = "\<not> (rollback_on tu \<and> watching_tag (updater_status tu) \<noteq> '''')"
  let ?get = "EvGetUpdater ns name (Found tu)"
  let ?w = "w\<lparr>w_tick := Suc (w_tick w), w_trace := ?get # w_trace w\<rparr>"
  have run: "run_state (reconcile_updater E (request_key ns name) tu) ?w = (Return d (Some e), w')"
    using assms(2,3) by (simp add: reconcile_def ask_def)
  have "quiet ?idle [?get]" by (simp add: quiet_def writes_def)
  with accounted_reconcile [OF assms(1) refl] have "emits (reconcile_updater E (request_key ns name) tu)
      (\<lambda>s new. accounted ?idle (\<lambda>_. True) s (new @ [?get]))"
    unfolding hist_def by blast
  from emits_run [OF this run] assms(4) show ?thesis by auto
qed

section \<open>Witness\<close>

text \<open>A reconcile whose repository cannot be listed.\<close>

definition demo_down :: env where
  "demo_down = (demo_ctl_env (Inr JNull) 500)\<lparr>env_ls_remote := (\<lambda>n a u. Inl (Errorf ''down''))\<rparr>"

lemma demo_down_fails:
  "\<exists>w'. run_state (reconcile demo_down ''ns'' ''a'') initial_world =
    (Return 0 (Some (Wrapped ''ls-remote git@h:o/app'' (Errorf ''down''))), w')"
proof -
  let ?tu = "demo_updater ''a''" and ?key = "request_key ''ns'' ''a''"
  let ?e = "Wrapped ''ls-remote git@h:o/app'' (Errorf ''down'')"
  have like: "demo_like ?tu" by (simp add: demo_like_def demo_updater_def empty_status_def)
  have gate: "watch_gate demo_down ?key ?tu = ret (Next ?tu)"
    by (rule watch_gate_idle) (simp add: demo_updater_def empty_status_def)
  have adm: "run_state (admit demo_down ?tu) w = (Next (), w)" for w by (rule demo_admit [OF like])
  have conf: "\<exists>w'. run_state (check_configuration demo_down ?key ?tu) w = (Next (), w')" for w
    using like
    by (simp add: check_configuration_def demo_like_def demo_write_back ask_def demo_list_updaters demo_down_def validate_field_ownership_def)
  have src: "source_for demo_down (spec_source (updater_spec ?tu)) auth = Inr (git_iface demo_down demo_git_source)" for auth
  proof -
    have "\<not> equal_fold '''' ''true''" by code_simp
    then show ?thesis by (simp add: source_for_def demo_updater_def demo_spec_def demo_git_source_def demo_down_def)
  qed
  have list: "\<exists>w'. run_state (list_tags (git_iface demo_down demo_git_source)) w = (Fail ?e, w')" for w
    by (simp add: git_iface_def git_tags_def list_refs_def source_auth_def demo_git_source_def ls_remote_def ask_def demo_down_def)
  have auth: "listing_auth demo_down ?tu = ret ''''"
    by (simp add: listing_auth_def demo_updater_def demo_spec_def SourceTypeGit_def SourceTypeOCI_def)
  have sel: "\<exists>w'. run_state (select_release demo_down ?key ?tu) w = (Return 0 (Some ?e), w')" for w
  proof -
    obtain w1 where w1: "run_state (list_tags (git_iface demo_down demo_git_source)) w = (Fail ?e, w1)" using list by blast
    obtain s w2 where w2: "run_state (fail_before_write_back demo_down ?tu 0 ?e :: (match \<times> release_iface) stage io) w1 = (s, w2)"
      by (cases "run_state (fail_before_write_back demo_down ?tu 0 ?e :: (match \<times> release_iface) stage io) w1")
    from failure_before_write_back_reported [OF w2] have "s = Return 0 (Some ?e)" by blast
    with w1 w2 show ?thesis by (simp add: select_release_def Let_def auth src)
  qed
  obtain w0 where w0: "run_state (do { g \<leftarrow> ask (\<lambda>n. env_get_updater demo_down n ''ns'' ''a'') (EvGetUpdater ''ns'' ''a'');
      now \<leftarrow> clock demo_down; modify_progress (tracker_attempt ?key (reconcile_interval ?tu) now) }) initial_world = ((), w0)"
    by (simp add: ask_def clock_def modify_progress_def)
  obtain w1 where w1: "run_state (check_configuration demo_down ?key ?tu) w0 = (Next (), w1)" using conf by blast
  obtain w2 where w2: "run_state (select_release demo_down ?key ?tu) w1 = (Return 0 (Some ?e), w2)" using sel by blast
  have found: "env_get_updater demo_down 0 ''ns'' ''a'' = Found ?tu" by (simp add: demo_down_def)
  from w0 w1 w2 show ?thesis
    by (simp add: reconcile_def ask_def reconcile_updater_def and_then_def adm gate release_stage_def
        clock_def modify_progress_def found initial_world_def)
qed

theorem reconcile_error_told_witness:
  "\<exists>w' tu a before. run_state (reconcile demo_down ''ns'' ''a'') initial_world =
      (Return 0 (Some (Wrapped ''ls-remote git@h:o/app'' (Errorf ''down''))), w') \<and>
    error_told True (Wrapped ''ls-remote git@h:o/app'' (Errorf ''down'')) (w_trace w') \<and>
    w_trace w' = EvStatusUpdate tu a # before"
proof -
  let ?e = "Wrapped ''ls-remote git@h:o/app'' (Errorf ''down'')"
  obtain w' where run: "run_state (reconcile demo_down ''ns'' ''a'') initial_world = (Return 0 (Some ?e), w')"
    using demo_down_fails by blast
  have srt: "slice_sort (lib_sort demo_down)" by (simp add: demo_down_def small.slice_sort_axioms)
  have found: "env_get_updater demo_down (w_tick initial_world) ''ns'' ''a'' = Found (demo_updater ''a'')"
    by (simp add: demo_down_def)
  have idle: "watching_tag (updater_status (demo_updater ''a'')) = ''''"
    by (simp add: demo_updater_def empty_status_def)
  have told: "error_told True ?e (w_trace w')"
    using reconcile_error_told [OF srt found run, of "w_trace w'"] idle by (simp add: initial_world_def)
  moreover have "\<not> listing_failed ?e (w_trace w')" by (simp add: listing_failed_def)
  ultimately have "\<exists>tu a before. w_trace w' = EvStatusUpdate tu a # before"
    unfolding error_told_def early_failure_told_def write_failure_told_def refused_def by blast
  with run told show ?thesis by blast
qed

end
