(* ===== verification/Ledger.thy ===== *)
theory Ledger
  imports Reconcile
begin

text \<open>
  What a computation leaves behind for the next reconcile: the progress tracker and the status
  updates it asked for. A component that only fetches, clones or pushes leaves this ledger
  alone; the handler's own steps are reasoned about with triples over it.
\<close>

section \<open>The ledger\<close>

type_synonym ledger = "progress_tracker \<times> (tag_updater \<times> unit result) list"

fun status_log :: "event list \<Rightarrow> (tag_updater \<times> unit result) list" where
  "status_log [] = []"
| "status_log (EvStatusUpdate tu r # es) = (tu, r) # status_log es"
| "status_log (_ # es) = status_log es"

definition ledger :: "world \<Rightarrow> ledger" where
  "ledger w = (w_progress w, status_log (w_trace w))"

lemma status_log_append [simp]: "status_log (xs @ ys) = status_log xs @ status_log ys"
  by (induction xs rule: status_log.induct) auto

section \<open>Computations that leave it alone\<close>

definition still :: "'a io \<Rightarrow> ('a \<Rightarrow> bool) \<Rightarrow> bool" where
  "still m Q \<longleftrightarrow> (\<forall>w. ledger (snd (run_state m w)) = ledger w \<and> Q (fst (run_state m w)))"

named_theorems still_intro \<open>introduction rules for computations that leave the ledger alone\<close>

lemma still_return [still_intro]: "Q x \<Longrightarrow> still (ret x) Q"
  by (simp add: still_def)

lemma still_bind:
  assumes "still m R" and "\<And>x. R x \<Longrightarrow> still (f x) Q"
  shows "still (m \<bind> f) Q"
  unfolding still_def
proof
  fix w
  obtain x w1 where m: "run_state m w = (x, w1)" by (cases "run_state m w")
  with assms(1) have "ledger w1 = ledger w" "R x" unfolding still_def by (metis fst_conv snd_conv)+
  with assms(2) [OF this(2)] m show "ledger (snd (run_state (m \<bind> f) w)) = ledger w \<and> Q (fst (run_state (m \<bind> f) w))"
    by (simp add: still_def)
qed

lemma still_bind_any: "still m (\<lambda>_. True) \<Longrightarrow> (\<And>x. still (f x) Q) \<Longrightarrow> still (m \<bind> f) Q"
  by (rule still_bind)

lemma still_weaken: "still m Q \<Longrightarrow> (\<And>x. Q x \<Longrightarrow> Q' x) \<Longrightarrow> still m Q'"
  by (simp add: still_def)

lemma still_basic [still_intro]:
  "still (clock E) (\<lambda>_. True)"
  "still read_progress (\<lambda>_. True)"
  "still (modify_rev_clock g h) (\<lambda>_. True)"
  "still (record_event E wn reason msg) (\<lambda>_. True)"
  "still (note_event (EvApply wr)) (\<lambda>_. True)"
  by (simp_all add: still_def ledger_def clock_def read_progress_def modify_rev_clock_def record_event_def note_event_def)

lemma still_calls [still_intro]:
  "still (do_fs E c) (\<lambda>_. True)"
  "still (do_stat E s) (\<lambda>_. True)"
  "still (do_git E g) (\<lambda>_. True)"
  "still (do_http E q) (\<lambda>_. True)"
  "still (ls_remote E a u) (\<lambda>_. True)"
  "still (load_known_hosts E f) (\<lambda>_. True)"
  "still (get_secret E ns n) (\<lambda>_. True)"
  "still (ask lst EvListUpdaters) (\<lambda>_. True)"
  "still (ask app (EvGetApp ns n)) (\<lambda>_. True)"
  by (simp_all add: still_def ledger_def do_fs_def do_stat_def do_git_def do_http_def ls_remote_def
      load_known_hosts_def get_secret_def ask_def)

lemma still_cases [still_intro]:
  "(b \<Longrightarrow> still m Q) \<Longrightarrow> (\<not> b \<Longrightarrow> still n Q) \<Longrightarrow> still (if b then m else n) Q"
  "(\<And>e. r = Inl e \<Longrightarrow> still (f e) Q) \<Longrightarrow> (\<And>x. r = Inr x \<Longrightarrow> still (g x) Q) \<Longrightarrow>
    still (case r of Inl e \<Rightarrow> f e | Inr x \<Rightarrow> g x) Q"
  "(op = None \<Longrightarrow> still m Q) \<Longrightarrow> (\<And>x. op = Some x \<Longrightarrow> still (h x) Q) \<Longrightarrow>
    still (case op of None \<Rightarrow> m | Some x \<Rightarrow> h x) Q"
  "(\<And>x. oc = Ok x \<Longrightarrow> still (k x) Q) \<Longrightarrow> (\<And>e. oc = Fail e \<Longrightarrow> still (l e) Q) \<Longrightarrow>
    (\<And>a. oc = Abort a \<Longrightarrow> still (s a) Q) \<Longrightarrow>
    still (case oc of Ok x \<Rightarrow> k x | Fail e \<Rightarrow> l e | Abort a \<Rightarrow> s a) Q"
  "(\<And>a b. pr = (a, b) \<Longrightarrow> still (u a b) Q) \<Longrightarrow> still (case pr of (a, b) \<Rightarrow> u a b) Q"
  "(\<And>x. x = t \<Longrightarrow> still (v x) Q) \<Longrightarrow> still (Let t v) Q"
      by (simp; fail | cases r; simp; fail | cases op; simp; fail | cases oc; simp; fail |
        cases pr; simp; fail)+

section \<open>The components are still\<close>

lemma still_git:
  "still (git_tags E g) (\<lambda>_. True)" "still (git_tag_revs E g) (\<lambda>_. True)"
  unfolding git_tags_def git_tag_revs_def list_refs_def source_auth_def Let_def
  by (intro still_intro still_bind_any TrueI)+

lemma still_nix:
  "still (nix_tags E n) (\<lambda>_. True)" "still (nix_resolve E n t) (\<lambda>_. True)"
  unfolding nix_tags_def nix_resolve_def send_request_def Let_def
  by (intro still_intro still_bind_any TrueI)+

lemma still_oci_page: "still (oci_page E s u) (\<lambda>_. True)"
  unfolding oci_page_def send_request_def Let_def
  by (intro still_intro still_bind_any TrueI)

lemma still_oci_pages:
  "still (oci_pages E s sch host n u ts) (\<lambda>r. \<forall>a. r = Abort a \<longrightarrow> a = Hang)"
proof (induction n arbitrary: u ts)
  case 0
  then show ?case by (auto intro!: still_intro)
next
  case (Suc n)
  then show ?case
    unfolding oci_pages.simps
    by (intro still_intro still_bind_any still_oci_page Suc.IH) auto
qed

lemma still_oci_tags: "still (oci_tags E s) (\<lambda>r. \<forall>a. r = Abort a \<longrightarrow> a = Hang)"
  unfolding oci_tags_def Let_def
  by (intro still_intro still_bind_any still_oci_pages) auto

lemma still_oci_digest: "still (oci_digest E s t) (\<lambda>_. True)"
  unfolding oci_digest_def bearer_token_def send_request_def Let_def
  by (intro still_intro still_bind_any TrueI)

lemma still_source_for:
  assumes "source_for E spec auth = Inr src"
  shows "still (list_tags src) (\<lambda>r. \<forall>a. r = Abort a \<longrightarrow> a = Hang \<and> source_type spec = SourceTypeOCI)"
    and "still (resolve_record what src t data) (\<lambda>_. True)"
    and "still (add_rev E src t data) (\<lambda>_. True)"
  using assms
  by (auto simp: source_for_def resolve_record_def add_rev_def git_iface_def oci_iface_def nix_iface_def of_result_def
      split: if_splits sum.splits
      intro!: still_intro still_bind_any still_git still_nix still_weaken [OF still_oci_tags])

lemma still_docker_auth: "still (resolve_docker_auth E ns s repo) (\<lambda>_. True)"
  unfolding resolve_docker_auth_def by (intro still_intro still_bind_any TrueI)

lemma still_image_digest: "still (add_image_digest E tu t data) (\<lambda>_. True)"
  unfolding add_image_digest_def Let_def
  by (intro still_intro still_bind_any still_docker_auth still_oci_digest TrueI)

lemma still_listing_auth: "still (listing_auth E tu) (\<lambda>_. True)"
  unfolding listing_auth_def Let_def
  by (intro still_intro still_bind_any still_docker_auth TrueI)

lemma still_credentials: "still (resolve_write_back_credentials E tu) (\<lambda>_. True)"
  unfolding resolve_write_back_credentials_def mounted_credentials_def Let_def
  by (intro still_intro still_bind_any TrueI)

lemma still_app_state: "still (argocd_app_state E ref) (\<lambda>_. True)"
  unfolding argocd_app_state_def by (intro still_intro still_bind_any TrueI)

lemma still_writer_auth: "still (writer_auth E wr) (\<lambda>_. True)"
  unfolding writer_auth_def host_key_callback_def Let_def
  by (intro still_intro still_bind_any TrueI)

lemma still_cleanup: "still (cleanup E f) (\<lambda>_. True)"
  unfolding cleanup_def by (intro still_intro still_bind_any TrueI)

lemma still_remote_head: "still (remote_head E wr) (\<lambda>_. True)"
  unfolding remote_head_def
  by (intro still_intro still_bind_any still_writer_auth still_cleanup TrueI)

lemma still_rollback_data: "still (rollback_data E tu t) (\<lambda>_. True)"
  unfolding rollback_data_def Let_def
  by (intro still_intro still_bind_any) (erule still_source_for still_bind_any | rule still_intro TrueI)+

section \<open>How the editor can panic\<close>

definition aborts_in :: "abort set \<Rightarrow> 'a outcome \<Rightarrow> bool" where
  "aborts_in A r \<longleftrightarrow> (\<forall>a. r = Abort a \<longrightarrow> a \<in> A)"

text \<open>The panics of \<^verbatim>\<open>UpdateManifest\<close>: a negative indentation, a slice, and an odd label list.\<close>

definition edit_panics :: "abort set" where
  "edit_panics = {Panic ''strings: negative Repeat count'', Panic ''slice bounds out of range'',
     Panic ''index out of range''}"

named_theorems aborts_intro \<open>introduction rules for the panics of an outcome\<close>

lemma aborts_simps [simp]:
  "aborts_in A (Ok x)" "aborts_in A (Fail e)" "aborts_in A (of_result r)"
  "aborts_in A (Abort a) \<longleftrightarrow> a \<in> A"
  by (simp_all add: aborts_in_def)

lemma aborts_obind [aborts_intro]:
  "aborts_in A m \<Longrightarrow> (\<And>x. m = Ok x \<Longrightarrow> aborts_in A (f x)) \<Longrightarrow> aborts_in A (obind m f)"
  by (cases m) (auto simp: aborts_in_def)

lemma aborts_omap [aborts_intro]: "(\<And>x. aborts_in A (f x)) \<Longrightarrow> aborts_in A (omap f xs)"
  by (induction xs) (auto intro!: aborts_intro)

lemma label_set_panics: "aborts_in edit_panics (label_set h ls m)"
  by (induction h ls m rule: label_set.induct) (simp_all add: edit_panics_def del: fun_upd_apply)

lemma matches_target_panics: "aborts_in edit_panics (matches_target sel h root t)"
  unfolding matches_target_def
  by (auto split: option.split sum.split intro!: aborts_intro label_set_panics)

lemma apply_patch_panics: "aborts_in edit_panics (apply_patch L data t root p st)"
  unfolding apply_patch_def by (auto split: sum.split)

lemma apply_patches_panics: "aborts_in edit_panics (apply_patches L data t root ps st)"
  by (induction ps arbitrary: st) (auto intro!: aborts_intro apply_patch_panics)

lemma apply_docs_panics: "aborts_in edit_panics (apply_docs L data t docs n st)"
  by (induction docs arbitrary: n st)
    (auto split: sum.split intro!: aborts_intro apply_patches_panics matches_target_panics)

lemma apply_targets_panics: "aborts_in edit_panics (apply_targets L data docs ts st)"
  by (induction ts arbitrary: st) (auto split: prod.split intro!: aborts_intro apply_docs_panics)

lemma splice_all_panics: "aborts_in edit_panics (splice_all es out)"
  by (induction es arbitrary: out) (auto simp: splice_def edit_panics_def intro!: aborts_intro)

lemma insertion_edit_panics: "aborts_in edit_panics (insertion_edit_for Y input starts h i)"
  unfolding insertion_edit_for_def render_mapping_entries_def repeat_space_def
  by (auto simp: edit_panics_def split: prod.split sum.split intro!: aborts_intro)

lemma update_manifest_panics: "aborts_in edit_panics (update_manifest L input ts data)"
  unfolding update_manifest_def apply_yaml_edits_def collect_edits_def Let_def
  by (auto split: sum.split prod.split
      intro!: aborts_intro apply_targets_panics splice_all_panics insertion_edit_panics)

lemma still_writer_apply: "still (writer_apply E wr) (aborts_in edit_panics)"
proof -
  have clone: "still (new_clone_directory E) (\<lambda>_. True)"
    unfolding new_clone_directory_def ensure_temp_dir_def Let_def
    by (intro still_intro still_bind_any TrueI)
  have edit: "a \<in> edit_panics" if "update_manifest L input ts data = Abort a" for L input ts data a
    using update_manifest_panics [of L input ts data] that by simp
  have inside: "still (apply_in_clone E wr auth url dir clean) (aborts_in edit_panics)" for auth url dir clean
    unfolding apply_in_clone_def clone_branch_def head_result_def commit_and_push_def Let_def
    by (intro still_intro still_bind_any) (auto dest: edit split: sum.split)
  have once: "still (apply_once E wr auth url) (aborts_in edit_panics)" for auth url
    unfolding apply_once_def
    by (intro still_cases still_return still_bind_any [OF clone] still_bind [OF inside] still_bind_any [OF still_calls(1)])
      auto
  have attempts: "still (apply_attempts E wr auth url n) (aborts_in edit_panics)" for auth url n
    by (induction n) (auto intro!: still_intro still_bind [OF once])
  show ?thesis
    unfolding writer_apply_def
    by (intro still_intro still_bind_any still_writer_auth still_bind [OF attempts] still_cleanup) auto
qed

section \<open>The watch as a state machine\<close>

text \<open>
  The specification: a watch is armed with a tag and a commit, is observed once, and ends. A
  watch never changes what it watches, and none is armed while another is on.
\<close>

datatype phase = Idle | Armed string string "time option" | Observed string string "time option" time

definition phase_of :: "updater_status \<Rightarrow> phase" where
  "phase_of st =
     (if watching_tag st = '''' then Idle
      else case watching_since st of
        None \<Rightarrow> Armed (watching_tag st) (watching_commit st) (watching_armed_at st)
      | Some since \<Rightarrow> Observed (watching_tag st) (watching_commit st) (watching_armed_at st) since)"

abbreviation watch :: "tag_updater \<Rightarrow> phase" where
  "watch tu \<equiv> phase_of (updater_status tu)"

inductive watch_step :: "phase \<Rightarrow> phase \<Rightarrow> bool" where
  stay: "watch_step p p"
| arm: "tag \<noteq> '''' \<Longrightarrow> watch_step Idle (Armed tag commit (Some now))"
| observe: "watch_step (Armed tag commit armed) (Observed tag commit armed since)"
| give_up: "watch_step (Armed tag commit armed) Idle"
| conclude: "watch_step (Observed tag commit armed since) Idle"

inductive_simps watch_step_simps:
  "watch_step Idle p" "watch_step (Armed tag commit armed) p" "watch_step (Observed tag commit armed since) p"

fun last_phase :: "phase \<Rightarrow> (tag_updater \<times> unit result) list \<Rightarrow> phase" where
  "last_phase p [] = p"
| "last_phase p ((tu, r) # log) = watch tu"

fun path :: "phase \<Rightarrow> (tag_updater \<times> unit result) list \<Rightarrow> bool" where
  "path p [] = True"
| "path p ((tu, r) # log) \<longleftrightarrow> watch_step (last_phase p log) (watch tu) \<and> path p log"

lemma phase_eqI:
  "watching_tag st' = watching_tag st \<Longrightarrow> watching_commit st' = watching_commit st \<Longrightarrow>
    watching_armed_at st' = watching_armed_at st \<Longrightarrow> watching_since st' = watching_since st \<Longrightarrow>
    phase_of st' = phase_of st"
  by (cases "watching_since st") (simp_all add: phase_of_def)

lemma phase_conditions [simp]: "phase_of (st\<lparr>conditions := cs\<rparr>) = phase_of st"
  by (rule phase_eqI) simp_all

lemma watch_same [simp]:
  assumes "same_but_conditions tu tu'"
  shows "watch tu' = watch tu"
proof -
  let ?f = "\<lambda>t. t\<lparr>updater_status := (updater_status t)\<lparr>conditions := []\<rparr>\<rparr>"
  have "watch (?f tu') = watch (?f tu)" using assms by (simp add: same_but_conditions_def)
  then show ?thesis by simp
qed

lemma same_but_conditions_object:
  assumes "same_but_conditions tu tu'"
  shows "same_object tu tu'"
proof -
  let ?f = "\<lambda>t. t\<lparr>updater_status := (updater_status t)\<lparr>conditions := []\<rparr>\<rparr>"
  have "same_object tu (?f tu')" using assms by (simp add: same_but_conditions_def same_object_def)
  then show ?thesis by (simp add: same_object_def)
qed

lemma step_idle: "watch_step p Idle"
  by (cases p) (simp_all add: watch_step.intros)

lemma phase_clear [simp]:
  "phase_of (clear_watch st) = Idle" "phase_of (clear_watch st\<lparr>skipped_tags := ts\<rparr>) = Idle"
  "phase_of (healthy_status st) = Idle"
  by (simp_all add: phase_of_def clear_watch_def healthy_status_def)

lemma step_observe:
  "watching_tag st \<noteq> '''' \<Longrightarrow> watching_since st = None \<Longrightarrow>
    watch_step (phase_of st) (phase_of (st\<lparr>watching_since := Some now\<rparr>))"
  by (simp add: phase_of_def watch_step.intros)

lemma step_success:
  assumes "rollback_on tu \<longrightarrow> phase_of st = Idle"
  shows "watch_step (phase_of st) (phase_of (success_status tu now tag data commit st))"
proof (cases "tag \<noteq> last_tag st \<and> rollback_on tu \<and> spec_argocd_app (updater_spec tu) \<noteq> None")
  case True
  with assms have "phase_of st = Idle" by simp
  moreover have "phase_of (success_status tu now tag data commit st) =
      (if tag = '''' then Idle else Armed tag commit (Some now))"
    using True by (simp add: success_status_def rotate_tag_def arm_watch_def phase_of_def)
  ultimately show ?thesis by (auto intro: watch_step.intros)
next
  case False
  then have "phase_of (success_status tu now tag data commit st) = phase_of st"
    by (intro phase_eqI) (auto simp: success_status_def rotate_tag_def arm_watch_def)
  then show ?thesis by (simp add: watch_step.stay)
qed

end
