(* ===== verification/Lifecycle.thy ===== *)
theory Lifecycle
  imports Ledger
begin

text \<open>
  What a reconcile does over time: the status updates it asks for are a run of the watch's state
  machine, its progress is recorded exactly when it ends without an error, and the ways it can
  end abnormally. All three come from one pass of triples over the handler.
\<close>

section \<open>Triples\<close>

definition triple :: "(ledger \<Rightarrow> bool) \<Rightarrow> 'a io \<Rightarrow> ('a \<Rightarrow> ledger \<Rightarrow> bool) \<Rightarrow> bool" where
  "triple P m Q \<longleftrightarrow>
     (\<forall>w. P (ledger w) \<longrightarrow> Q (fst (run_state m w)) (ledger (snd (run_state m w))))"

named_theorems triple_intro \<open>introduction rules for triples\<close>

lemma triple_return: "(\<And>l. P l \<Longrightarrow> Q x l) \<Longrightarrow> triple P (ret x) Q"
  by (simp add: triple_def)

lemma triple_bind:
  assumes "triple P m R" and "\<And>x. triple (R x) (f x) Q"
  shows "triple P (m \<bind> f) Q"
  unfolding triple_def
proof (intro allI impI)
  fix w assume P: "P (ledger w)"
  obtain x w1 where m: "run_state m w = (x, w1)" by (cases "run_state m w")
  with assms(1) P have "R x (ledger w1)" unfolding triple_def by (metis fst_conv snd_conv)
  with assms(2) [of x] m show "Q (fst (run_state (m \<bind> f) w)) (ledger (snd (run_state (m \<bind> f) w)))"
    by (simp add: triple_def)
qed

lemma triple_still:
  assumes "still m R" and "\<And>x. R x \<Longrightarrow> triple P (f x) Q"
  shows "triple P (m \<bind> f) Q"
  by (rule triple_bind [where R = "\<lambda>x l. P l \<and> R x"]) (use assms in \<open>auto simp: triple_def still_def\<close>)

lemma triple_skip: "still m (\<lambda>_. True) \<Longrightarrow> (\<And>x. triple P (f x) Q) \<Longrightarrow> triple P (m \<bind> f) Q"
  by (rule triple_still)

lemma triple_post: "triple P m Q \<Longrightarrow> (\<And>x l. Q x l \<Longrightarrow> Q' x l) \<Longrightarrow> triple P m Q'"
  by (simp add: triple_def)

lemma triple_pre: "triple P m Q \<Longrightarrow> (\<And>l. P' l \<Longrightarrow> P l) \<Longrightarrow> triple P' m Q"
  by (simp add: triple_def)

lemma triple_given: "(\<And>l. P l \<Longrightarrow> triple P m Q) \<Longrightarrow> triple P m Q"
  unfolding triple_def by blast

lemma triple_exists: "(\<And>x. triple (P x) m Q) \<Longrightarrow> triple (\<lambda>l. \<exists>x. P x l) m Q"
  by (auto simp: triple_def)

lemma triple_fact: "(b \<Longrightarrow> triple P m Q) \<Longrightarrow> triple (\<lambda>l. b \<and> P l) m Q"
  by (auto simp: triple_def)

lemma triple_cases [triple_intro]:
  "(b \<Longrightarrow> triple P m Q) \<Longrightarrow> (\<not> b \<Longrightarrow> triple P n Q) \<Longrightarrow> triple P (if b then m else n) Q"
  "(\<And>e. r = Inl e \<Longrightarrow> triple P (f e) Q) \<Longrightarrow> (\<And>x. r = Inr x \<Longrightarrow> triple P (g x) Q) \<Longrightarrow>
    triple P (case r of Inl e \<Rightarrow> f e | Inr x \<Rightarrow> g x) Q"
  "(op = None \<Longrightarrow> triple P m Q) \<Longrightarrow> (\<And>x. op = Some x \<Longrightarrow> triple P (h x) Q) \<Longrightarrow>
    triple P (case op of None \<Rightarrow> m | Some x \<Rightarrow> h x) Q"
  "(\<And>x. oc = Ok x \<Longrightarrow> triple P (k x) Q) \<Longrightarrow> (\<And>e. oc = Fail e \<Longrightarrow> triple P (l e) Q) \<Longrightarrow>
    (\<And>a. oc = Abort a \<Longrightarrow> triple P (s a) Q) \<Longrightarrow>
    triple P (case oc of Ok x \<Rightarrow> k x | Fail e \<Rightarrow> l e | Abort a \<Rightarrow> s a) Q"
  "(\<And>a b. pr = (a, b) \<Longrightarrow> triple P (u a b) Q) \<Longrightarrow> triple P (case pr of (a, b) \<Rightarrow> u a b) Q"
  "(\<And>x. x = t \<Longrightarrow> triple P (v x) Q) \<Longrightarrow> triple P (Let t v) Q"
      by (simp; fail | cases r; simp; fail | cases op; simp; fail | cases oc; simp; fail |
        cases pr; simp; fail)+

section \<open>Assertions\<close>

text \<open>
  Since the start of the request, where the watch was in phase \<open>fst start\<close> and \<open>snd start\<close> had
  been stored, the updates followed the machine to phase \<open>p\<close>; the tracker is \<open>T\<close>.
\<close>

type_synonym origin = "phase \<times> (tag_updater \<times> unit result) list"

definition reached :: "origin \<Rightarrow> progress_tracker \<Rightarrow> phase \<Rightarrow> ledger \<Rightarrow> bool" where
  "reached start T p l \<longleftrightarrow>
     fst l = T \<and> (\<exists>new. snd l = new @ snd start \<and> path (fst start) new \<and> last_phase (fst start) new = p)"

lemma triple_update:
  assumes "watch_step p (watch tu)"
  shows "triple (reached b T p) (update_status E tu) (\<lambda>_. reached b T (watch tu))"
  unfolding triple_def
proof (intro allI impI)
  fix w assume "reached b T p (ledger w)"
  then obtain new where "w_progress w = T" "status_log (w_trace w) = new @ snd b" "path (fst b) new"
    "last_phase (fst b) new = p" by (auto simp: reached_def ledger_def)
  with assms show "reached b T (watch tu) (ledger (snd (run_state (update_status E tu) w)))"
    by (auto simp: update_status_def ask_def reached_def ledger_def
        intro!: exI [of _ "(tu, env_update_status E (w_tick w) tu) # new"])
qed

lemma still_set: "still (set_condition E tu c) (same_but_conditions tu)"
  unfolding set_condition_def by (intro still_bind_any still_intro) simp

lemma still_stalled: "still (stalled_condition E key) (\<lambda>_. True)"
  unfolding stalled_condition_def by (intro still_intro still_bind_any TrueI)

lemma same_trans: "same_but_conditions a b \<Longrightarrow> same_but_conditions b c \<Longrightarrow> same_but_conditions a c"
  by (simp add: same_but_conditions_def)

lemma triple_touch:
  assumes "same_but_conditions tu tu'"
  shows "triple (reached b T (watch tu)) (update_status E tu') (\<lambda>_. reached b T (watch tu))"
  using triple_update [of "watch tu" tu' b T E] assms by (simp add: watch_step.stay)

lemma triple_progress:
  "triple (reached b T p) (modify_progress f) (\<lambda>_. reached b (f T) p)"
  by (simp add: triple_def reached_def ledger_def modify_progress_def)

text \<open>How a stage leaves: on to the next one, or out of the handler.\<close>

definition marked :: "progress_tracker \<Rightarrow> string \<Rightarrow> progress_tracker \<Rightarrow> bool" where
  "marked T key T' \<longleftrightarrow> (\<exists>now. T' = tracker_success key now T)"

fun leaves :: "origin \<Rightarrow> progress_tracker \<Rightarrow> string \<Rightarrow> (abort \<Rightarrow> bool) \<Rightarrow> ('a \<Rightarrow> ledger \<Rightarrow> bool)
    \<Rightarrow> 'a stage \<Rightarrow> ledger \<Rightarrow> bool" where
  "leaves b T key C N (Next x) l = N x l"
| "leaves b T key C N (Return d e) l =
     (\<exists>T' p. reached b T' p l \<and> (T' = T \<or> e = None \<and> marked T key T'))"
| "leaves b T key C N (Crash a) l = (C a \<and> (\<exists>p. reached b T p l))"

lemma triple_and_then:
  assumes "triple P m (leaves b T key C N)" and "\<And>x. triple (N x) (f x) (leaves b T key C N')"
  shows "triple P (and_then m f) (leaves b T key C N')"
  unfolding and_then_def
proof (rule triple_bind [OF assms(1)])
  show "triple (leaves b T key C N s)
      (case s of Next x \<Rightarrow> f x | Return d e \<Rightarrow> ret (Return d e) | Crash a \<Rightarrow> ret (Crash a)) (leaves b T key C N')" for s
    using assms(2) by (cases s) (simp_all add: triple_def)
qed

lemma triple_out:
  "(\<And>l. P l \<Longrightarrow> \<exists>T' p. reached b T' p l \<and> (T' = T \<or> e = None \<and> marked T key T')) \<Longrightarrow>
    triple P (ret (Return d e)) (leaves b T key C N)"
  by (rule triple_return) simp

section \<open>Reports\<close>

lemma triple_set:
  assumes "\<And>tu'. same_but_conditions tu0 tu' \<Longrightarrow> triple P (f tu') Q" and "same_but_conditions tu0 tu"
  shows "triple P (set_condition E tu c \<bind> f) Q"
  by (rule triple_still [OF still_set]) (use assms in \<open>blast intro: same_trans\<close>)

lemma triple_set_failed:
  assumes "same_but_conditions tu0 tu"
  shows "triple (reached b T (watch tu0)) (set_failed E tu e) (\<lambda>_. reached b T (watch tu0))"
  unfolding set_failed_def
  by (rule triple_set [OF _ assms], rule triple_skip [OF still_stalled], rule triple_set, rule triple_bind [OF triple_touch])
    (auto intro: triple_return)

lemma triple_fail_before:
  assumes "same_but_conditions tu0 tu"
  shows "triple (reached b T (watch tu0)) (fail_before_write_back E tu d e) (leaves b T key C N)"
  unfolding fail_before_write_back_def set_failed_before_write_back_def set_write_back_not_attempted_def
    bind_assoc
  by (rule triple_set [OF _ assms], rule triple_bind [OF triple_set_failed]) (auto intro: triple_out)

lemma triple_mark:
  assumes "same_but_conditions tu0 tu"
  shows "triple (reached b T (watch tu0)) (mark_reconcile_succeeded E tu key)
    (\<lambda>_ l. \<exists>T'. marked T key T' \<and> reached b T' (watch tu0) l)"
proof -
  have keep: "same_but_conditions tu0 (put_condition now c tu)" for now c
    using assms by simp
  show ?thesis
    unfolding mark_reconcile_succeeded_def
    apply (rule triple_skip [OF still_basic(1)])
    apply (rule triple_bind [OF triple_progress])
    apply (intro triple_skip [OF still_stalled] triple_skip [OF still_basic(1)] triple_cases(1))
     apply (rule triple_bind [OF triple_touch [OF keep]])
     apply (auto intro!: triple_return simp: marked_def)
    done
qed

lemma triple_mark_out:
  assumes "same_but_conditions tu0 tu"
  shows "triple (reached b T (watch tu0)) (mark_reconcile_succeeded E tu key \<bind> (\<lambda>_. ret (Return d None)))
    (leaves b T key C N)"
  by (rule triple_bind [OF triple_mark [OF assms]]) (auto intro!: triple_out)

text \<open>The common end of a stage that reports: update, then count the reconcile as a success.\<close>

lemma triple_report:
  assumes "same_but_conditions tu0 tu"
  shows "triple (reached b T (watch tu0)) (do {
      r \<leftarrow> update_status E tu;
      case r of
        Inl e \<Rightarrow> ret (Return 0 (Some e))
      | Inr _ \<Rightarrow> do { _ \<leftarrow> mark_reconcile_succeeded E tu key; ret (Return d None) } }) (leaves b T key C N)"
  by (rule triple_bind [OF triple_touch [OF assms]], intro triple_cases(2) triple_mark_out [OF assms])
    (auto intro: triple_out)

section \<open>The stages without a watch\<close>

definition crash_ok :: "tag_updater \<Rightarrow> abort \<Rightarrow> bool" where
  "crash_ok tu a \<longleftrightarrow> a \<in> edit_panics \<or> a = Hang \<and> source_type (spec_source (updater_spec tu)) = SourceTypeOCI"

abbreviation stays :: "origin \<Rightarrow> progress_tracker \<Rightarrow> tag_updater \<Rightarrow> 'a \<Rightarrow> ledger \<Rightarrow> bool" where
  "stays b T tu \<equiv> \<lambda>_. reached b T (watch tu)"

lemma triple_admit:
  "triple (reached b T (watch tu)) (admit E tu) (leaves b T key C
     (\<lambda>_ l. (rollback_on tu \<longrightarrow> revision_observer tu \<noteq> None) \<and> reached b T (watch tu) l))"
  unfolding admit_def Let_def
  by (intro triple_cases(1) triple_fail_before triple_set triple_bind [OF triple_touch] triple_skip [OF still_basic(4)]
      triple_out triple_return) (auto simp: revision_observer_def split: option.splits)

lemma triple_refuse:
  "triple (reached b T (watch tu)) (refuse_configuration E key tu s reason e) (leaves b T key' C N)"
proof -
  have tail: "triple (reached b T (watch tu)) (do {
      _ \<leftarrow> update_status E t; _ \<leftarrow> record_event E True reason msg; ret (Return d None) }) (leaves b T key' C N)"
    if "same_but_conditions tu t" for t msg d
    by (rule triple_bind [OF triple_touch [OF that]], rule triple_skip [OF still_basic(4)]) (auto intro: triple_out)
  have st: "still (if s then do { c \<leftarrow> stalled_condition E key; set_condition E t c } else ret t) (same_but_conditions t)"
    for t
    by (intro still_intro still_bind_any [OF still_stalled] still_set) simp
  show ?thesis
    unfolding refuse_configuration_def
    by (intro triple_set triple_still [OF st] tail) (auto intro: same_trans)
qed

lemma triple_check_configuration:
  "triple (reached b T (watch tu)) (check_configuration E key tu) (leaves b T key' C (stays b T tu))"
  unfolding check_configuration_def
  by (intro triple_cases triple_refuse triple_skip [OF still_calls(8)] triple_out triple_return) auto

lemma triple_no_matching_tag:
  "triple (reached b T (watch tu)) (no_matching_tag E key tu) (leaves b T key C N)"
  unfolding no_matching_tag_def Let_def set_write_back_not_attempted_def
  by (rule triple_set, rule triple_set, rule triple_report) auto

lemma triple_select_release:
  "triple (reached b T (watch tu)) (select_release E key tu)
    (leaves b T key (crash_ok tu) (\<lambda>(m, src) l. (\<exists>auth. source_for E (spec_source (updater_spec tu)) auth = Inr src) \<and>
       reached b T (watch tu) l))"
  unfolding select_release_def Let_def
  apply (intro triple_skip [OF still_listing_auth] triple_cases(2) triple_fail_before same_but_conditions_refl)
  apply (rule triple_still [OF still_source_for(1)], assumption)
  apply (intro triple_cases(2,3,4) triple_fail_before same_but_conditions_refl triple_no_matching_tag triple_return)
   apply (auto simp: crash_ok_def)
  done

lemma triple_gather_data:
  assumes "source_for E (spec_source (updater_spec tu)) auth = Inr src"
  shows "triple (reached b T (watch tu)) (gather_data E tu m src) (leaves b T key C (stays b T tu))"
  unfolding gather_data_def
  by (intro triple_skip [OF still_source_for(2) [OF assms]] triple_skip [OF still_source_for(3) [OF assms]]
      triple_skip [OF still_image_digest] triple_cases(2) triple_fail_before same_but_conditions_refl triple_return) simp

lemma triple_digest_guard:
  "triple (reached b T (watch tu)) (digest_guard E tu tag d) (leaves b T key C (stays b T tu))"
  unfolding digest_guard_def
  by (intro triple_cases(1) triple_set triple_bind [OF triple_touch] triple_return)
    (auto split: sum.split)

lemma triple_skip_clone:
  "triple (reached b T (watch tu)) (skip_clone E key tu tag wr) (leaves b T key C (stays b T tu))"
proof -
  have "triple (reached b T (watch tu)) (remote_unchanged E key tu tag) (leaves b T key C (stays b T tu))"
    unfolding remote_unchanged_def by (rule triple_set, rule triple_set, rule triple_report) auto
  then show ?thesis
    unfolding skip_clone_def
    by (intro triple_cases(1,2) triple_skip [OF still_remote_head] triple_return) auto
qed

lemma triple_write_failed:
  "triple (reached b T (watch tu)) (write_failed E tu e) (leaves b T key C N)"
  unfolding write_failed_def
  by (rule triple_set, rule triple_skip [OF still_basic(4)], rule triple_bind [OF triple_set_failed])
    (auto intro: triple_out)

lemma still_written: "still (written E tu tag result) (same_but_conditions tu)"
  unfolding written_def Let_def
  by (intro still_cases still_bind_any [OF still_basic(4)] still_set)

lemma triple_write_release:
  "triple (reached b T (watch tu)) (write_release E key tu tag data)
    (leaves b T key (crash_ok tu) (\<lambda>(tu', r) l. same_but_conditions tu tu' \<and> reached b T (watch tu) l))"
proof -
  have go: "triple (reached b T (watch tu)) (apply_release E tu tag wr)
    (leaves b T key (crash_ok tu) (\<lambda>(tu', r) l. same_but_conditions tu tu' \<and> reached b T (watch tu) l))" for wr
    unfolding apply_release_def
    by (rule triple_still [OF still_writer_apply], intro triple_cases(4) triple_write_failed
        triple_still [OF still_written] triple_return) (auto simp: crash_ok_def aborts_in_def)
  show ?thesis
    unfolding write_release_def
    by (intro triple_skip [OF still_credentials] triple_cases(2) triple_write_failed
        triple_and_then [OF triple_skip_clone] go)
qed

lemma triple_record_success:
  assumes same: "same_but_conditions tu0 tu" and idle: "rollback_on tu0 \<longrightarrow> watch tu0 = Idle"
  shows "triple (reached b T (watch tu0)) (record_success E key tag data (tu, result)) (leaves b T key C N)"
proof -
  have on: "rollback_on tu = rollback_on tu0"
    using same_but_conditions_object [OF same] by (simp add: same_object_def rollback_on_def)
  have step: "watch_step (watch tu0) (watch (with_status (success_status tu now tag data commit) tu))" for now commit
    using step_success [of tu "updater_status tu"] idle same by (simp add: on)
  have report: "triple (reached b T (watch tu0)) (do {
      r \<leftarrow> update_status E t;
      case r of
        Inl e \<Rightarrow> ret (Return 0 (Some e))
      | Inr _ \<Rightarrow> do { _ \<leftarrow> mark_reconcile_succeeded E t key; ret (Return d None) } }) (leaves b T key C N)"
    if s: "watch_step (watch tu0) (watch t)" for t d
    by (rule triple_bind [OF triple_update [OF s]], intro triple_cases(2) triple_mark_out) (auto intro: triple_out)
  have set: "triple (reached b T (watch tu0)) (set_condition E t c \<bind> f) (leaves b T key C N)"
    if "watch_step (watch tu0) (watch t)" and "\<And>t'. watch_step (watch tu0) (watch t') \<Longrightarrow>
        triple (reached b T (watch tu0)) (f t') (leaves b T key C N)" for t c f
    by (rule triple_still [OF still_set]) (use that in simp)
  show ?thesis
    unfolding record_success_def prod.case
    by (rule triple_skip [OF still_basic(1)], rule set [OF step], rule report)
qed

lemma triple_release_stage:
  assumes "rollback_on tu \<longrightarrow> watch tu = Idle"
  shows "triple (reached b T (watch tu)) (release_stage E key tu) (leaves b T key (crash_ok tu) N)"
proof -
  have rest: "triple ((\<lambda>(m, src) l. (\<exists>auth. source_for E (spec_source (updater_spec tu)) auth = Inr src) \<and>
       reached b T (watch tu) l) x)
      (case x of (m, src) \<Rightarrow> and_then (gather_data E tu m src) (\<lambda>data.
         and_then (digest_guard E tu (match_tag m) data) (\<lambda>_.
           and_then (write_release E key tu (match_tag m) data) (record_success E key (match_tag m) data))))
      (leaves b T key (crash_ok tu) N)" for x
    by (cases x) (auto intro!: triple_fact triple_and_then [OF triple_gather_data] triple_and_then [OF triple_digest_guard]
        triple_and_then [OF triple_write_release] triple_record_success assms)
  show ?thesis
    unfolding release_stage_def by (rule triple_and_then [OF triple_select_release rest])
qed

section \<open>The watch\<close>

text \<open>What a health handler leaves: the updater it answers is the last one stored, up to conditions.\<close>

fun saved_at :: "origin \<Rightarrow> progress_tracker \<Rightarrow> tag_updater \<Rightarrow> saved \<Rightarrow> ledger \<Rightarrow> bool" where
  "saved_at b T tu0 (Ok (tu, e)) l \<longleftrightarrow>
     same_object tu0 tu \<and> (e = None \<longrightarrow> watch tu = Idle) \<and> reached b T (watch tu) l"
| "saved_at b T tu0 (Fail e) l = False"
| "saved_at b T tu0 (Abort a) l \<longleftrightarrow> a \<in> edit_panics \<and> (\<exists>p. reached b T p l)"

fun health_at :: "origin \<Rightarrow> progress_tracker \<Rightarrow> tag_updater \<Rightarrow> health_reply \<Rightarrow> ledger \<Rightarrow> bool" where
  "health_at b T tu0 (Ok (tu, d, e)) l \<longleftrightarrow>
     same_object tu0 tu \<and> (\<not> 0 < d \<and> e = None \<longrightarrow> watch tu = Idle) \<and> reached b T (watch tu) l"
| "health_at b T tu0 (Fail e) l = False"
| "health_at b T tu0 (Abort a) l \<longleftrightarrow> a \<in> edit_panics \<and> (\<exists>p. reached b T p l)"

lemma health_at_no_requeue: "saved_at b T tu0 s l \<Longrightarrow> health_at b T tu0 (no_requeue s) l"
  by (cases "(b, T, tu0, s, l)" rule: saved_at.cases) (auto simp: no_requeue_def)

lemma triple_answer:
  "triple P m (saved_at b T tu0) \<Longrightarrow> triple P (m \<bind> (\<lambda>s. ret (no_requeue s))) (health_at b T tu0)"
  by (erule triple_bind, rule triple_return, rule health_at_no_requeue)

text \<open>Storing an updater whose watch is over.\<close>

lemma triple_save_idle:
  assumes "same_object tu0 tu" and "watch tu = Idle"
  shows "triple (reached b T p) (save_status E tu) (saved_at b T tu0)"
  unfolding save_status_def
  by (rule triple_bind [OF triple_update]) (use assms step_idle in \<open>auto intro!: triple_return split: sum.split\<close>)

lemma same_object_conditions:
  "same_object tu0 tu \<Longrightarrow> same_but_conditions tu tu' \<Longrightarrow> same_object tu0 tu'"
  by (blast intro: same_object_trans same_but_conditions_object)

lemma triple_set_idle:
  assumes "same_object tu0 tu" and "watch tu = Idle"
    and "\<And>t. same_object tu0 t \<Longrightarrow> watch t = Idle \<Longrightarrow> triple P (f t) Q"
  shows "triple P (set_condition E tu c \<bind> f) Q"
  by (rule triple_still [OF still_set], rule assms(3)) (use assms(1,2) in \<open>auto intro: same_object_conditions\<close>)

lemma triple_abandon:
  assumes "same_object tu0 tu" and "revision_observer tu \<noteq> None"
  shows "triple (reached b T p) (abandon_watch E tu) (saved_at b T tu0)"
proof (cases "revision_observer tu")
  case (Some observer)
  show ?thesis
    unfolding abandon_watch_def Some option.case Let_def
    by (intro triple_set_idle triple_skip [OF still_basic(4)] triple_save_idle)
      (use assms(1) in simp_all)
qed (use assms(2) in simp)

lemma triple_unavailable:
  "same_object tu0 tu \<Longrightarrow> triple (reached b T p) (rollback_unavailable E tu) (saved_at b T tu0)"
  unfolding rollback_unavailable_def Let_def
  by (intro triple_set_idle triple_save_idle) simp_all

lemma triple_finish:
  "same_object tu0 tu \<Longrightarrow> triple (reached b T p) (finish_rollback E tu d r) (saved_at b T tu0)"
proof -
  assume same: "same_object tu0 tu"
  have "watch (rolled_back now tu d commit) = Idle" for now commit
    by (simp add: rolled_back_def phase_of_def clear_watch_def)
  with same show ?thesis
    unfolding finish_rollback_def Let_def
    by (intro triple_skip [OF still_basic(1)] triple_set_idle triple_skip [OF still_basic(4)]
        triple_save_idle) (simp_all add: rolled_back_def)
qed

lemma triple_do_rollback:
  assumes "same_object tu0 tu"
  shows "triple (reached b T (watch tu)) (do_rollback E tu) (saved_at b T tu0)"
  unfolding do_rollback_def Let_def
  by (intro triple_cases(1,2,4) triple_unavailable assms triple_skip [OF still_rollback_data]
      triple_skip [OF still_credentials] triple_still [OF still_writer_apply] triple_finish triple_return)
    (use assms in \<open>auto simp: aborts_in_def\<close>)

lemma triple_rollback_with_status:
  assumes "same_object tu0 tu"
  shows "triple (reached b T (watch tu)) (rollback_with_status E tu) (saved_at b T tu0)"
proof -
  have failed: "triple (reached b T (watch tu1)) (do {
         tu2 \<leftarrow> set_condition E tu1 c;
         _ \<leftarrow> update_status E tu2;
         _ \<leftarrow> record_event E True reason msg;
         ret (Ok (tu2, Some e)) }) (saved_at b T tu0)" if "same_object tu0 tu1" for tu1 c e reason msg
    by (rule triple_set, rule triple_bind [OF triple_touch], assumption, rule triple_skip [OF still_basic(4)])
      (use that in \<open>auto intro!: triple_return intro: same_object_conditions\<close>)
  have "triple (saved_at b T tu0 s) (case s of
       Ok (tu1, Some e) \<Rightarrow> do {
         tu2 \<leftarrow> set_condition E tu1 (mk_condition ''RollbackReady'' ConditionFalse ''RollbackWriteFailed'' (error_text e));
         _ \<leftarrow> update_status E tu2;
         _ \<leftarrow> record_event E True ''RollbackWriteFailed'' (error_text e);
         ret (Ok (tu2, Some e)) }
     | _ \<Rightarrow> ret s) (saved_at b T tu0)" for s
  proof (cases s)
    case (Ok r)
    obtain t e where r: "r = (t, e)" by (cases r)
    show ?thesis
    proof (cases e)
      case (Some err)
      show ?thesis
        unfolding Ok r Some
        by (simp, rule triple_given, rule triple_pre [OF failed]) auto
    qed (auto simp: Ok r intro!: triple_return)
  qed (auto intro!: triple_return)
  then show ?thesis
    unfolding rollback_with_status_def by (rule triple_bind [OF triple_do_rollback [OF assms]])
qed
fun awaits_at :: "origin \<Rightarrow> progress_tracker \<Rightarrow> tag_updater \<Rightarrow> health_reply + tag_updater \<Rightarrow> ledger \<Rightarrow> bool" where
  "awaits_at b T tu0 (Inl answer) l = health_at b T tu0 answer l"
| "awaits_at b T tu0 (Inr tu) l \<longleftrightarrow>
     same_object tu0 tu \<and> watching_since (updater_status tu) \<noteq> None \<and> reached b T (watch tu) l"

lemma still_deadline: "still (observation_deadline_exceeded E tu) (\<lambda>_. True)"
  unfolding observation_deadline_exceeded_def by (intro still_intro still_bind_any TrueI)

lemma watch_poll_positive [simp]: "0 < watch_poll"
  by (simp add: watch_poll_def second_def)

lemma triple_await:
  assumes same: "same_object tu0 tu" and ref: "revision_observer tu \<noteq> None"
    and tag: "watching_tag (updater_status tu) \<noteq> ''''"
  shows "triple (reached b T (watch tu)) (await_observation E tu rs) (awaits_at b T tu0)"
proof (cases "watching_since (updater_status tu)")
  case None
  let ?seen = "\<lambda>now. with_status (\<lambda>st. st\<lparr>watching_since := Some now\<rparr>) tu"
  have step: "watch_step (watch tu) (watch (?seen now))" for now
    using step_observe [OF tag None] by simp
  have late: "triple (reached b T (watch tu)) (do { s \<leftarrow> abandon_watch E tu; ret (Inl (no_requeue s)) }) (awaits_at b T tu0)"
    by (rule triple_bind [OF triple_abandon [OF same ref]], rule triple_return) (simp add: health_at_no_requeue)
  have seen: "triple (reached b T (watch tu)) (do {
        s \<leftarrow> save_status E (?seen now);
        ret (case s of
          Ok (tu1, None) \<Rightarrow> Inr tu1
        | Ok (tu1, Some e) \<Rightarrow> Inl (Ok (tu1, 0, Some e))
        | Fail e \<Rightarrow> Inl (Fail e)
        | Abort a \<Rightarrow> Inl (Abort a)) }) (awaits_at b T tu0)" for now
    unfolding save_status_def bind_assoc bind_left_identity
    by (rule triple_bind [OF triple_update [OF step]], rule triple_return) (use same in \<open>auto split: sum.split\<close>)
  show ?thesis
    unfolding await_observation_def Let_def None
    by (simp, intro triple_cases(1) impI conjI triple_skip [OF still_deadline] triple_skip [OF still_basic(1)] late seen triple_return)
      (use same in auto)
next
  case (Some since)
  with same show ?thesis by (simp add: await_observation_def Let_def triple_return)
qed

lemma triple_judge:
  assumes same: "same_object tu0 tu" and "watching_since (updater_status tu) \<noteq> None"
  shows "triple (reached b T (watch tu)) (judge_health E tu st) (health_at b T tu0)"
proof -
  obtain since where since: "watching_since (updater_status tu) = Some since" using assms(2) by blast
  have over: "triple (reached b T (watch tu)) (do {
      tu1 \<leftarrow> set_condition E (with_status healthy_status tu) c; s \<leftarrow> save_status E tu1; ret (no_requeue s) })
      (health_at b T tu0)" for c
    by (rule triple_set_idle [OF _ _ triple_answer [OF triple_save_idle]]) (use same in auto)
  show ?thesis
    unfolding judge_health_def since option.case
    by (intro triple_cases(1) over triple_answer [OF triple_rollback_with_status [OF same]]
        triple_skip [OF still_basic(1)] triple_return) (use same in auto)
qed

lemma triple_unreadable:
  "triple (reached b T (watch tu)) (health_unreadable E tu e)
    (\<lambda>tu' l. same_but_conditions tu tu' \<and> reached b T (watch tu) l)"
  unfolding health_unreadable_def
  by (rule triple_set, rule triple_bind [OF triple_touch]) (auto intro: triple_return)

lemma triple_check_health:
  assumes ref: "revision_observer tu \<noteq> None" and tag: "watching_tag (updater_status tu) \<noteq> ''''"
  shows "triple (reached b T (watch tu)) (check_health E tu) (health_at b T tu)"
proof -
  have unreadable: "triple (reached b T (watch t)) (health_unreadable E t e \<bind> (\<lambda>t'. ret (Ok (t', watch_poll, None))))
      (health_at b T tu)" if "same_object tu t" for t e
    by (rule triple_bind [OF triple_unreadable], rule triple_return)
      (use that in \<open>auto intro: same_object_conditions\<close>)
  have noted: "triple (reached b T (watch tu)) (do {
      t \<leftarrow> health_unreadable E tu e; _ \<leftarrow> record_event E True r msg; ret (Ok (t, watch_poll, None)) })
      (health_at b T tu)" for e r msg
    by (rule triple_bind [OF triple_unreadable], rule triple_skip [OF still_basic(4)], rule triple_return)
      (auto intro: same_but_conditions_object)
  have go: "triple (awaits_at b T tu o1) (case o1 of
           Inl answer \<Rightarrow> ret answer
         | Inr tu1 \<Rightarrow> do {
             s \<leftarrow> argocd_app_state E (spec_argocd_app (updater_spec tu1));
             case s of
               Inl e \<Rightarrow> do { tu2 \<leftarrow> health_unreadable E tu1 e; ret (Ok (tu2, watch_poll, None)) }
             | Inr state \<Rightarrow> judge_health E tu1 state }) (health_at b T tu)" for o1
  proof (cases o1)
    case (Inr t)
    show ?thesis
      unfolding Inr sum.case
      by (rule triple_given, rule triple_pre [where P = "reached b T (watch t)"], intro triple_skip [OF still_app_state] triple_cases(2) unreadable triple_judge) auto
  qed (auto intro!: triple_return)
  show ?thesis
    unfolding check_health_def
    by (intro triple_skip [OF still_app_state] triple_cases(2) noted triple_bind [OF triple_await go] ref tag) simp
qed

lemma triple_watch_gate:
  assumes ref: "rollback_on tu \<longrightarrow> revision_observer tu \<noteq> None"
  shows "triple (reached b T (watch tu)) (watch_gate E key tu) (leaves b T key (crash_ok tu)
    (\<lambda>tu' l. same_object tu tu' \<and> (rollback_on tu' \<longrightarrow> watch tu' = Idle) \<and> reached b T (watch tu') l))"
    (is "triple ?P _ (leaves b T key ?C ?N)")
proof (cases "rollback_on tu \<and> watching_tag (updater_status tu) \<noteq> ''''")
  case False
  then show ?thesis
    by (auto simp: watch_gate_idle phase_of_def intro!: triple_return)
next
  case True
  have mark: "triple (reached b T (watch t)) (do {
      _ \<leftarrow> (if c then mark_reconcile_succeeded E t key else ret t); ret (Return d None) }) (leaves b T key ?C ?N)" for t c d
    by (cases c) (auto intro!: triple_mark_out triple_out)
  have go: "triple (health_at b T tu r) (case r of
          Fail e \<Rightarrow> ret (Return 0 (Some e))
        | Abort a \<Rightarrow> ret (Crash a)
        | Ok (tu1, requeue, err) \<Rightarrow>
            (if err \<noteq> None then ret (Return 0 err)
             else if 0 < requeue then do {
               _ \<leftarrow> (if watching_since (updater_status tu1) \<noteq> None
                     then mark_reconcile_succeeded E tu1 key else ret tu1);
               ret (Return requeue None) }
             else ret (Next tu1))) (leaves b T key ?C ?N)" for r
  proof (cases "(b, T, tu, r, undefined :: ledger)" rule: health_at.cases)
    case (1 b' T' tu' t d e l)
    then have r: "r = Ok (t, d, e)" by simp
    show ?thesis
      unfolding r outcome.case prod.case
      by (intro triple_cases(1) triple_pre [OF mark] triple_out triple_return) auto
  qed (auto simp: crash_ok_def intro!: triple_return)
  from True ref have "triple ?P (check_health E tu) (health_at b T tu)"
    by (intro triple_check_health) auto
  from triple_bind [OF this go] show ?thesis
    unfolding watch_gate_def if_P [OF True] .
qed

lemma triple_reconcile_updater:
  shows "triple (reached b T (watch tu)) (reconcile_updater E key tu)
    (\<lambda>s l. \<exists>now. leaves b (tracker_attempt key (reconcile_interval tu) now T) key (crash_ok tu) (\<lambda>_ _. False) s l)"
proof -
  let ?T = "\<lambda>now. tracker_attempt key (reconcile_interval tu) now T"
  have crash: "crash_ok tu' = crash_ok tu" if "same_object tu tu'" for tu'
    using that by (simp add: fun_eq_iff crash_ok_def same_object_def)
  have rest: "triple (reached b T' (watch tu)) (and_then (admit E tu) (\<lambda>_.
       and_then (watch_gate E key tu) (\<lambda>tu.
         and_then (check_configuration E key tu) (\<lambda>_. release_stage E key tu))))
      (leaves b T' key (crash_ok tu) (\<lambda>_ _. False))" for T'
    apply (intro triple_and_then [OF triple_admit] triple_fact triple_and_then [OF triple_watch_gate])
     apply assumption
    apply (drule crash [symmetric], erule ssubst)
    apply (intro triple_and_then [OF triple_check_configuration] triple_release_stage)
    apply assumption
    done
  show ?thesis
    unfolding reconcile_updater_def
    by (rule triple_skip [OF still_basic(1)], rule triple_bind [OF triple_progress], rule triple_post [OF rest]) blast
qed
text \<open>From the triple to one request.\<close>

lemma reconcile_leaves:
  assumes "env_get_updater E (w_tick w) ns name = Found tu" and "run_state (reconcile E ns name) w = (r, w')"
  shows "\<exists>now. leaves (watch tu, status_log (w_trace w))
    (tracker_attempt (request_key ns name) (reconcile_interval tu) now (w_progress w)) (request_key ns name)
    (crash_ok tu) (\<lambda>_ _. False) r (ledger w')"
proof -
  let ?w = "w\<lparr>w_tick := Suc (w_tick w), w_trace := EvGetUpdater ns name (Found tu) # w_trace w\<rparr>"
  have "run_state (reconcile_updater E (request_key ns name) tu) ?w = (r, w')"
    using assms by (simp add: reconcile_def ask_def)
  moreover have "reached (watch tu, status_log (w_trace w)) (w_progress w) (watch tu) (ledger ?w)"
    by (simp add: reached_def ledger_def)
  ultimately show ?thesis
    using triple_reconcile_updater unfolding triple_def by (metis fst_conv snd_conv)
qed

lemma leaves_reached: "leaves b T key C N s l \<Longrightarrow> (\<And>x. \<not> N x l) \<Longrightarrow> \<exists>T' p. reached b T' p l"
  by (cases s) auto

section \<open>Properties\<close>

text \<open>
  C11. The status is a refinement of the watch machine: in the order in which a reconcile asks
  for them, the status updates are a run of the machine from the phase of the object that was
  read. A watch is armed only from idle, observed once, never changes its tag, commit or
  arming time, and ends in idle before another is armed.
\<close>

theorem watch_follows_machine:
  assumes "env_get_updater E (w_tick w) ns name = Found tu" and "run_state (reconcile E ns name) w = (r, w')"
    and "w_trace w' = es @ w_trace w"
  shows "path (phase_of (updater_status tu)) (status_log es)"
proof -
  from leaves_reached [THEN exE] reconcile_leaves [OF assms(1,2)] obtain T p where
    "reached (watch tu, status_log (w_trace w)) T p (ledger w')" by (metis leaves_reached)
  with assms(3) show ?thesis by (auto simp: reached_def ledger_def)
qed

text \<open>
  C16. Progress is counted only for a reconcile that ends without an error: every reconcile
  notes its attempt, and nothing else changes in the tracker unless the handler returns no
  error, in which case it may note one success of the same object. So an object whose
  reconciles keep failing becomes stale.
\<close>

theorem progress_counts_only_success:
  assumes "env_get_updater E (w_tick w) ns name = Found tu" and "run_state (reconcile E ns name) w = (r, w')"
  shows "\<exists>started. let key = request_key ns name;
      attempted = tracker_attempt key (reconcile_interval tu) started (w_progress w) in
    w_progress w' = attempted \<or>
    (\<exists>delay ended. r = Return delay None \<and> w_progress w' = tracker_success key ended attempted)"
proof -
  from reconcile_leaves [OF assms] obtain now where "leaves (watch tu, status_log (w_trace w))
    (tracker_attempt (request_key ns name) (reconcile_interval tu) now (w_progress w)) (request_key ns name)
    (crash_ok tu) (\<lambda>_ _. False) r (ledger w')" ..
  then show ?thesis
    by (intro exI [of _ now]) (cases r; auto simp: reached_def ledger_def marked_def Let_def)
qed

text \<open>
  C15. A reconcile of a stored object always ends, and almost always with an answer: for every
  object, configured or not, and every behaviour of the outside world, it returns its two
  results, or it panics inside the manifest editor, or it hangs in the listing of a
  registry. In particular no optional part of the object is dereferenced when it is missing.
\<close>

theorem reconcile_answers:
  assumes "env_get_updater E (w_tick w) ns name = Found tu" and "run_state (reconcile E ns name) w = (r, w')"
  shows "(\<exists>delay e. r = Return delay e) \<or> (\<exists>a. r = Crash a \<and> a \<in> edit_panics) \<or>
    (r = Crash Hang \<and> source_type (spec_source (updater_spec tu)) = SourceTypeOCI)"
  using reconcile_leaves [OF assms] by (cases r) (auto simp: crash_ok_def)

section \<open>Witnesses\<close>

abbreviation demo_run :: "unit stage \<times> world" where
  "demo_run \<equiv> run_state (reconcile (demo_ctl_env (Inr (JObj [])) 500) ''ns'' ''w'') initial_world"

lemma demo_run_found: "env_get_updater (demo_ctl_env app now) (w_tick initial_world) ''ns'' ''w'' = Found (demo_watched None)"
  by (simp add: demo_ctl_env_def)

theorem watch_follows_machine_witness:
  "path (phase_of (updater_status (demo_watched None))) (status_log (w_trace (snd demo_run)))"
  using watch_follows_machine [OF demo_run_found, of "Inr (JObj [])" 500 "fst demo_run" "snd demo_run"
      "w_trace (snd demo_run)"] by (simp add: initial_world_def)

theorem progress_counts_only_success_witness:
  "\<exists>started. let key = request_key ''ns'' ''w'';
      attempted = tracker_attempt key (reconcile_interval (demo_watched None)) started (w_progress initial_world) in
    w_progress (snd demo_run) = attempted \<or>
    (\<exists>delay ended. fst demo_run = Return delay None \<and> w_progress (snd demo_run) = tracker_success key ended attempted)"
  by (rule progress_counts_only_success [OF demo_run_found]) simp

theorem reconcile_answers_witness:
  "(\<exists>delay e. fst demo_run = Return delay e) \<or> (\<exists>a. fst demo_run = Crash a \<and> a \<in> edit_panics)"
  using reconcile_answers [OF demo_run_found, of "Inr (JObj [])" 500 "fst demo_run" "snd demo_run"]
  by (simp add: demo_watched_def demo_updater_def demo_spec_def SourceTypeGit_def SourceTypeOCI_def)

end
