(* ===== verification/Service.thy ===== *)
theory Service
  imports Lifecycle
begin

text \<open>
  The process (\<^verbatim>\<open>cmd/main.go\<close>): its flags, the manager it configures, the liveness checks, and
  the requests it serves until it is stopped. controller-runtime and client-go are a parameter,
  \<open>platform\<close>: what their calls answer, and the requests the manager hands out. The manager runs
  one worker (the default of \<^verbatim>\<open>MaxConcurrentReconciles\<close>) and recovers a panic of a
  reconcile, so requests follow one another; one that never returns is the last.
\<close>

section \<open>Configuration\<close>

record flags =
  metrics_addr :: string
  probe_addr :: string
  leader_elect :: bool
  stale_multiplier :: int
  stale_floor :: duration

definition default_flags :: flags where
  "default_flags = \<lparr>metrics_addr = '':8080'', probe_addr = '':8081'', leader_elect = True,
     stale_multiplier = 10, stale_floor = 15 * minute\<rparr>"

text \<open>The options of the manager; the namespaces its Secret cache is restricted to, if any.\<close>

record manager_options =
  opt_metrics_addr :: string
  opt_probe_addr :: string
  opt_leader_election :: bool
  opt_leader_id :: string
  opt_secret_namespaces :: "string list option"

definition manager_options_for :: "env \<Rightarrow> flags \<Rightarrow> manager_options" where
  "manager_options_for E fl =
     (let watch_namespace = env_var E ''WATCH_NAMESPACE'' in
      \<lparr>opt_metrics_addr = metrics_addr fl, opt_probe_addr = probe_addr fl,
       opt_leader_election = leader_elect fl, opt_leader_id = ''argocd-tag-updater.updater.argocd.io'',
       opt_secret_namespaces = (if watch_namespace \<noteq> '''' then Some [watch_namespace] else None)\<rparr>)"

definition configure_tracker :: "flags \<Rightarrow> progress_tracker \<Rightarrow> progress_tracker" where
  "configure_tracker fl t = t\<lparr>tracker_multiplier := stale_multiplier fl, tracker_floor := stale_floor fl\<rparr>"

section \<open>Liveness\<close>

text \<open>The registered liveness checks, in order, with their verdicts at this moment.\<close>

definition liveness_checks :: "env \<Rightarrow> (string \<times> go_error option) list io" where
  "liveness_checks E = do {
     revs \<leftarrow> rev_resolution_healthz E;
     now \<leftarrow> clock E;
     tracker \<leftarrow> read_progress;
     ret [(''healthz'', None), (''tag-resolution'', revs),
          (''reconcile-progress'', reconcile_progress_healthz tracker now)] }"

section \<open>Serving\<close>

fun serve :: "env \<Rightarrow> (string \<times> string) list \<Rightarrow> unit stage list io" where
  "serve E [] = ret []"
| "serve E ((ns, name) # requests) = do {
     s \<leftarrow> reconcile E ns name;
     if s = Crash Hang then ret [s]
     else do { ss \<leftarrow> serve E requests; ret (s # ss) } }"

record platform =
  pf_flags :: "flags \<Rightarrow> flags"
  pf_client_scheme :: "unit result"
  pf_scheme :: "unit result"
  pf_config :: "string result"
  pf_manager :: "string \<Rightarrow> manager_options \<Rightarrow> unit result"
  pf_dynamic :: "string \<Rightarrow> unit result"
  pf_register :: "unit result"
  pf_requests :: "(string \<times> string) list"
  pf_stopped :: "unit result"

text \<open>The end of the process: a regular return, or \<^verbatim>\<open>fail\<close> with its message and exit status 1.\<close>

datatype exit = Stopped | Failed string

definition failure :: "string \<Rightarrow> go_error \<Rightarrow> exit" where
  "failure what e = Failed (''argocd-tag-updater: '' @ what @ '': '' @ error_text e @ [newline])"

definition or_fail :: "string \<Rightarrow> 'a result \<Rightarrow> ('a \<Rightarrow> exit io) \<Rightarrow> exit io" where
  "or_fail what r next = (case r of Inl e \<Rightarrow> ret (failure what e) | Inr x \<Rightarrow> next x)"

definition run_manager :: "env \<Rightarrow> platform \<Rightarrow> flags \<Rightarrow> exit io" where
  "run_manager E P fl =
     or_fail ''add clientgo scheme'' (pf_client_scheme P) (\<lambda>_.
     or_fail ''add scheme'' (pf_scheme P) (\<lambda>_.
     or_fail ''get rest config'' (pf_config P) (\<lambda>cfg.
     or_fail ''new manager'' (pf_manager P cfg (manager_options_for E fl)) (\<lambda>_.
     or_fail ''dynamic client'' (pf_dynamic P cfg) (\<lambda>_. do {
       _ \<leftarrow> modify_progress (configure_tracker fl);
       or_fail ''setup controller'' (pf_register P) (\<lambda>_. do {
         _ \<leftarrow> serve E (pf_requests P);
         or_fail ''start manager'' (pf_stopped P) (\<lambda>_. ret Stopped) }) })))))"

text \<open>\<^verbatim>\<open>os.Exit\<close> does not run the deferred release; a regular return does.\<close>

definition controller_main :: "env \<Rightarrow> platform \<Rightarrow> exit io" where
  "controller_main E P =
     (let fl = pf_flags P default_flags in do {
        prepared \<leftarrow> prepare_temp_dir E;
        or_fail ''prepare write-back temp directory'' prepared (\<lambda>fd. do {
          r \<leftarrow> run_manager E P fl;
          case r of
            Stopped \<Rightarrow> do { _ \<leftarrow> release_lock E fd False; ret Stopped }
          | Failed m \<Rightarrow> ret (Failed m) }) })"

section \<open>A failing object becomes stale\<close>

definition failed :: "'a stage \<Rightarrow> bool" where
  "failed s \<longleftrightarrow> (case s of Next _ \<Rightarrow> False | Return d e \<Rightarrow> e \<noteq> None | Crash a \<Rightarrow> True)"

lemma failed_simps [simp]: "failed (Return d e) \<longleftrightarrow> e \<noteq> None" "failed (Crash a)"
  by (simp_all add: failed_def)

lemma reconcile_progress:
  assumes "run_state (reconcile E ns name) w = (s, w')"
  shows "(w_progress w' = tracker_forget (request_key ns name) (w_progress w) \<and> \<not> failed s) \<or>
    w_progress w' = w_progress w \<or>
    (\<exists>tu t. let attempted = tracker_attempt (request_key ns name) (reconcile_interval tu) t (w_progress w) in
       env_get_updater E (w_tick w) ns name = Found tu \<and> (w_progress w' = attempted \<or>
       \<not> failed s \<and> (\<exists>done. w_progress w' = tracker_success (request_key ns name) done attempted)))"
proof (cases "env_get_updater E (w_tick w) ns name")
  case (Found tu)
  from reconcile_leaves [OF Found assms] obtain now where "leaves (watch tu, status_log (w_trace w))
    (tracker_attempt (request_key ns name) (reconcile_interval tu) now (w_progress w)) (request_key ns name)
    (crash_ok tu) (\<lambda>_ _. False) s (ledger w')" ..
  with Found show ?thesis
    by (intro disjI2 exI [of _ tu] exI [of _ now])
      (cases s; auto simp: reached_def ledger_def marked_def Let_def)
qed (use assms in \<open>auto simp: reconcile_def ask_def modify_progress_def\<close>)

text \<open>What an operation of one key leaves of the anchor of another, and an attempt of its own.\<close>

lemma view_other:
  assumes "k \<noteq> key"
  shows "tracker_view (tracker_attempt k i t s) key = tracker_view s key"
    and "tracker_view (tracker_success k t s) key = tracker_view s key"
    and "tracker_view (tracker_forget k s) key = tracker_view s key"
  using assms
  by (auto simp: tracker_view_def tracker_attempt_def tracker_success_def tracker_forget_def Let_def
      update_conv' delete_conv' split: option.splits)

lemma view_attempted:
  "tracker_view s key = Some (suc, first, i) \<Longrightarrow> tracker_view (tracker_attempt key j t s) key = Some (suc, first, j)"
  by (auto simp: tracker_view_def tracker_attempt_def entry_view_def update_conv')

lemma reconcile_keeps_anchor:
  assumes "run_state (reconcile E ns name) w = (s, w')" and "request_key ns name = key \<longrightarrow> failed s"
    and "\<And>tu. request_key ns name = key \<Longrightarrow> env_get_updater E (w_tick w) ns name = Found tu \<Longrightarrow> reconcile_interval tu = i"
    and "tracker_view (w_progress w) key = Some (suc, first, i)"
  shows "tracker_view (w_progress w') key = Some (suc, first, i)"
  using reconcile_progress [OF assms(1)] assms(2-4)
  by (cases "request_key ns name = key") (auto simp: Let_def view_other view_attempted)

lemma tracker_params [simp]:
  "tracker_multiplier (tracker_attempt k i t s) = tracker_multiplier s"
  "tracker_multiplier (tracker_success k t s) = tracker_multiplier s"
  "tracker_multiplier (tracker_forget k s) = tracker_multiplier s"
  "tracker_floor (tracker_attempt k i t s) = tracker_floor s"
  "tracker_floor (tracker_success k t s) = tracker_floor s"
  "tracker_floor (tracker_forget k s) = tracker_floor s"
  by (simp_all add: tracker_attempt_def tracker_success_def tracker_forget_def Let_def split: option.splits)

lemma reconcile_params:
  assumes "run_state (reconcile E ns name) w = (s, w')"
  shows "tracker_multiplier (w_progress w') = tracker_multiplier (w_progress w)"
    and "tracker_floor (w_progress w') = tracker_floor (w_progress w)"
  using reconcile_progress [OF assms] by (auto simp: Let_def)

lemma serve_keeps_anchor:
  assumes "run_state (serve E reqs) w = (ss, w')"
    and "list_all (\<lambda>(rq, s). request_key (fst rq) (snd rq) = key \<longrightarrow> failed s) (zip reqs ss)"
    and "\<forall>n ns name tu. request_key ns name = key \<and> env_get_updater E n ns name = Found tu \<longrightarrow> reconcile_interval tu = i"
    and "tracker_view (w_progress w) key = Some (suc, first, i)"
  shows "tracker_view (w_progress w') key = Some (suc, first, i)"
    and "tracker_multiplier (w_progress w') = tracker_multiplier (w_progress w)"
    and "tracker_floor (w_progress w') = tracker_floor (w_progress w)"
proof -
  have "tracker_view (w_progress w') key = Some (suc, first, i) \<and>
      tracker_multiplier (w_progress w') = tracker_multiplier (w_progress w) \<and>
      tracker_floor (w_progress w') = tracker_floor (w_progress w)"
    using assms(1,2,4)
  proof (induction reqs arbitrary: w ss)
    case Nil
    then show ?case by simp
  next
    case (Cons rq reqs)
    obtain ns name where rq: "rq = (ns, name)" by (cases rq)
    obtain s w1 where s: "run_state (reconcile E ns name) w = (s, w1)" by (cases "run_state (reconcile E ns name) w")
    obtain rest w2 where rest: "run_state (serve E reqs) w1 = (rest, w2)" by (cases "run_state (serve E reqs) w1")
    have "request_key ns name = key \<longrightarrow> failed s"
      using Cons.prems(1,2) s rest by (auto simp: rq split: if_splits)
    then have view: "tracker_view (w_progress w1) key = Some (suc, first, i)"
      using Cons.prems(3) assms(3) by (intro reconcile_keeps_anchor [OF s]) auto
    show ?case
    proof (cases "s = Crash Hang")
      case True
      with Cons.prems s view show ?thesis by (auto simp: rq dest: reconcile_params)
    next
      case False
      with Cons.prems s rest have "list_all (\<lambda>(rq, s). request_key (fst rq) (snd rq) = key \<longrightarrow> failed s) (zip reqs rest)"
        "w2 = w'" by (auto simp: rq)
      with Cons.IH [OF _ _ view, of rest] rest show ?thesis by (simp add: reconcile_params [OF s])
    qed
  qed
  then show "tracker_view (w_progress w') key = Some (suc, first, i)"
    "tracker_multiplier (w_progress w') = tracker_multiplier (w_progress w)"
    "tracker_floor (w_progress w') = tracker_floor (w_progress w)" by auto
qed

text \<open>
  C24. An object whose reconciles keep failing becomes stale: while its interval is unchanged and
  every reconcile of it that the worker runs ends in an error or abnormally, attempts do not
  postpone the moment, however many there are and whatever happens to other objects. It is
  stale exactly when its window has passed since its last success, or since its first
  attempt when there was none.
\<close>

theorem failing_object_goes_stale:
  assumes "run_state (serve E reqs) w = (ss, w')"
    and "list_all (\<lambda>(rq, s). request_key (fst rq) (snd rq) = key \<longrightarrow> failed s) (zip reqs ss)"
    and "\<forall>n ns name tu. request_key ns name = key \<and> env_get_updater E n ns name = Found tu \<longrightarrow> reconcile_interval tu = i"
    and "tracker_view (w_progress w) key = Some (suc, first, i)"
  shows "is_stale (w_progress w') key now \<longleftrightarrow>
    stale_window (w_progress w) i < time_sub now (case suc of None \<Rightarrow> first | Some s \<Rightarrow> s)"
proof -
  note kept = serve_keeps_anchor [OF assms]
  have "stale_window (w_progress w') i = stale_window (w_progress w) i"
    by (rule stale_window_params) (fact kept)+
  then show ?thesis by (simp add: is_stale_view view_stale_def kept(1))
qed

section \<open>Liveness\<close>

text \<open>
  C39. What restarts the process: one of the registered liveness checks fails exactly when git
  revisions were looked up but not for the last five minutes (since the last success, or since the
  first attempt when there was none), or when updaters are tracked and every one of them
  is stale. A single failing updater is not enough.
\<close>

theorem liveness_fails_iff:
  assumes "run_state (liveness_checks E) w = (checks, w')" and "tracker_ok (w_progress w)"
  shows "list_ex (\<lambda>(name, verdict). verdict \<noteq> None) checks \<longleftrightarrow>
    (let anchor = (if w_last_rev_success w = 0 then w_first_rev_attempt w else w_last_rev_success w) in
       anchor \<noteq> 0 \<and> 5 * minute < time_sub (env_now E (w_tick w)) (unix_time anchor)) \<or>
    (let keys = {k. tracker_view (w_progress w) k \<noteq> None} in
       keys \<noteq> {} \<and> (\<forall>k\<in>keys. is_stale (w_progress w) k (env_now E (Suc (w_tick w)))))"
proof -
  have revs: "rev_resolution_health E first success now \<noteq> None \<longleftrightarrow>
      (let anchor = (if success = 0 then first else success) in anchor \<noteq> 0 \<and> 5 * minute < time_sub now (unix_time anchor))"
    for first success now
    by (simp add: rev_resolution_health_def rev_stale_after_def Let_def)
  show ?thesis
    using assms(1) healthz_unhealthy_iff [OF assms(2), of "env_now E (Suc (w_tick w))"] revs
    by (auto simp: liveness_checks_def rev_resolution_healthz_def clock_def read_progress_def Let_def)
qed

section \<open>The lock is held while requests are served\<close>

text \<open>An object is only read while the lock on the temporary directory is held.\<close>

fun served_locked :: "env \<Rightarrow> event list \<Rightarrow> bool" where
  "served_locked E [] = True"
| "served_locked E (EvGetUpdater ns name g # es) = ((\<exists>fd. holds_lock E fd es) \<and> served_locked E es)"
| "served_locked E (_ # es) = served_locked E es"

definition no_unlock :: "event \<Rightarrow> bool" where
  "no_unlock e \<longleftrightarrow> (\<forall>fd b. e \<noteq> EvFs (Funlock fd) b \<and> e \<noteq> EvFs (CloseFd fd) b)"

definition no_request :: "event \<Rightarrow> bool" where
  "no_request e \<longleftrightarrow> (\<forall>ns name g. e \<noteq> EvGetUpdater ns name g)"

lemma reads_no_unlock: "reads e \<Longrightarrow> no_unlock e"
  by (cases e rule: reads.cases) (auto simp: no_unlock_def)

lemma lock_held_keep: "lock_held fd es \<Longrightarrow> \<forall>e\<in>set new. no_unlock e \<Longrightarrow> lock_held fd (new @ es)"
proof (induction new)
  case (Cons e new)
  then show ?case
    by (cases "(fd, e # new @ es)" rule: lock_held.cases) (auto simp: no_unlock_def)
qed simp

lemma holds_lock_keep: "holds_lock E fd es \<Longrightarrow> \<forall>e\<in>set new. no_unlock e \<Longrightarrow> holds_lock E fd (new @ es)"
  by (auto simp: holds_lock_def lock_held_keep)

lemma served_append:
  "holds_lock E fd es \<Longrightarrow> served_locked E es \<Longrightarrow> \<forall>e\<in>set new. no_unlock e \<Longrightarrow> served_locked E (new @ es)"
proof (induction new)
  case (Cons e new)
  then have "served_locked E (new @ es)" "holds_lock E fd (new @ es)" by (auto intro: holds_lock_keep)
  then show ?case by (cases "(E, e # new @ es)" rule: served_locked.cases) auto
qed simp

lemma served_no_request: "\<forall>e\<in>set es. no_request e \<Longrightarrow> served_locked E es"
  by (induction E es rule: served_locked.induct) (auto simp: no_request_def)

lemma prepare_locks:
  "emits (prepare_temp_dir E) (\<lambda>r es. served_locked E es \<and> (\<forall>fd. r = Inr fd \<longrightarrow> holds_lock E fd es))"
proof -
  have candidates: "ensures no_request (remove_candidates E root names) (\<lambda>_. True)" for root names
  proof (induction names)
    case Nil
    then show ?case by (simp add: ensures_intro)
  next
    case (Cons name names)
    then show ?case
      unfolding remove_candidates.simps Let_def
      by (intro ensures_intro ensures_bind_any) (auto simp: no_request_def)
  qed
  have "ensures no_request (prepare_temp_dir E) (\<lambda>_. True)"
    unfolding prepare_temp_dir_def ensure_temp_dir_def lock_temp_dir_def remove_interrupted_clones_def
      release_lock_def Let_def
    by (intro ensures_intro ensures_bind_any ensures_ask candidates) (auto simp: no_request_def)
  from emits_conj [OF emits_ensures [OF this] emits_prepare_lock] show ?thesis
    by (rule emits_weaken) (auto intro: served_no_request)
qed

lemma reconcile_keeps_lock:
  assumes "slice_sort (lib_sort E)"
  shows "ensures no_unlock (reconcile E ns name) (\<lambda>_. True)"
  unfolding ensures_def
proof
  fix w
  obtain r w' where run: "run_state (reconcile E ns name) w = (r, w')" by (cases "run_state (reconcile E ns name) w")
  show "\<exists>new. w_trace (snd (run_state (reconcile E ns name) w)) = new @ w_trace w \<and> (\<forall>e\<in>set new. no_unlock e) \<and> True"
  proof (cases "env_get_updater E (w_tick w) ns name")
    case (Found tu)
    have "ensures no_unlock (reconcile_updater E (request_key ns name) tu) (\<lambda>_. True)"
      by (rule ensures_weaken [OF ensures_reconcile_updater [OF assms, of False]])
        (auto simp: no_unlock_def)
    from reconcile_run [OF Found this run] run show ?thesis by (auto simp: no_unlock_def)
  qed (use run in \<open>auto simp: reconcile_def ask_def modify_progress_def no_unlock_def\<close>)
qed

lemma serve_keeps_lock:
  assumes "slice_sort (lib_sort E)"
  shows "ensures no_unlock (serve E reqs) (\<lambda>_. True)"
proof (induction reqs)
  case Nil
  then show ?case by (simp add: ensures_return)
next
  case (Cons rq reqs)
  then show ?case
    by (cases rq) (auto intro!: ensures_intro ensures_bind_any reconcile_keeps_lock [OF assms])
qed

lemma ensures_or_fail:
  "(\<And>x. r = Inr x \<Longrightarrow> ensures P (f x) (\<lambda>_. True)) \<Longrightarrow> ensures P (or_fail what r f) (\<lambda>_. True)"
  by (cases r) (simp_all add: or_fail_def ensures_return)

lemma run_manager_keeps_lock:
  "slice_sort (lib_sort E) \<Longrightarrow> ensures no_unlock (run_manager E P fl) (\<lambda>_. True)"
  unfolding run_manager_def
  by (intro ensures_or_fail ensures_bind_any ensures_progress serve_keeps_lock ensures_return TrueI)

text \<open>
  C26. Requests are only served under the lock on the temporary directory: every object that the
  process reads, it reads after having locked the directory and without having released it, and
  when it stops regularly, the release is the last thing it does. As the lock is exclusive, two processes sharing
  the directory never serve at the same time, and cleaning up interrupted clones at start-up
  cannot remove one in use.
\<close>

theorem serves_under_lock:
  assumes "slice_sort (lib_sort E)" and "run_state (controller_main E P) w = (r, w')"
  shows "\<exists>es. w_trace w' = es @ w_trace w \<and> served_locked E es \<and>
    (r = Stopped \<longrightarrow> (\<exists>fd a b ys. es = EvFs (CloseFd fd) a # EvFs (Funlock fd) b # ys \<and> holds_lock E fd ys))"
proof (rule emits_run [OF _ assms(2)])
  let ?Q = "\<lambda>r es. served_locked E es \<and>
    (r = Stopped \<longrightarrow> (\<exists>fd a b ys. es = EvFs (CloseFd fd) a # EvFs (Funlock fd) b # ys \<and> holds_lock E fd ys))"
  have serving: "emits (do {
      r \<leftarrow> run_manager E P fl;
      case r of Stopped \<Rightarrow> do { _ \<leftarrow> release_lock E fd False; ret Stopped } | Failed m \<Rightarrow> ret (Failed m) })
      (\<lambda>y new. ?Q y (new @ es))" if "served_locked E es" "holds_lock E fd es" for fl fd es
  proof (rule emits_bind [OF emits_ensures [OF run_manager_keeps_lock [OF assms(1)]]])
    fix r new
    assume new: "(\<forall>e\<in>set new. no_unlock e) \<and> True"
    with that have "served_locked E (new @ es)" "holds_lock E fd (new @ es)" by (auto intro: served_append holds_lock_keep)
    then show "emits (case r of Stopped \<Rightarrow> do { _ \<leftarrow> release_lock E fd False; ret Stopped } | Failed m \<Rightarrow> ret (Failed m))
        (\<lambda>y newer. ?Q y ((newer @ new) @ es))"
      by (cases r) (auto intro!: emits_bind_release emits_return)
  qed
  show "emits (controller_main E P) ?Q"
    unfolding controller_main_def Let_def
  proof (rule emits_bind [OF prepare_locks])
    fix prepared :: "string result" and es
    assume "served_locked E es \<and> (\<forall>fd. prepared = Inr fd \<longrightarrow> holds_lock E fd es)"
    then show "emits (or_fail ''prepare write-back temp directory'' prepared (\<lambda>fd. do {
          r \<leftarrow> run_manager E P (pf_flags P default_flags);
          case r of Stopped \<Rightarrow> do { _ \<leftarrow> release_lock E fd False; ret Stopped } | Failed m \<Rightarrow> ret (Failed m) }))
        (\<lambda>y new. ?Q y (new @ es))"
      by (cases prepared) (auto simp: or_fail_def failure_def intro!: emits_return serving)
  qed
qed

section \<open>Witnesses\<close>

text \<open>An object that is refused at every reconcile: digests are not resolved for registries.\<close>

definition demo_refused :: tag_updater where
  "demo_refused = (demo_updater ''a'')\<lparr>updater_spec := demo_spec\<lparr>spec_interval := minute,
     spec_source := (spec_source demo_spec)\<lparr>source_type := SourceTypeOCI, resolve_digest := True\<rparr>\<rparr>\<rparr>"

definition demo_refused_env :: env where
  "demo_refused_env = demo_env\<lparr>env_get_updater := (\<lambda>n ns nm. Found demo_refused)\<rparr>"

lemma demo_refused_fails: "failed (fst (run_state (reconcile demo_refused_env ns nm) w))"
  by (simp add: reconcile_def demo_refused_env_def ask_def reconcile_updater_def clock_def modify_progress_def
      admit_def demo_refused_def Let_def SourceTypeGit_def SourceTypeOCI_def fail_before_write_back_def
      set_failed_before_write_back_def set_failed_def and_then_def split_beta)

lemma serve_all:
  "(\<And>ns nm w. failed (fst (run_state (reconcile E ns nm) w))) \<Longrightarrow> list_all failed (fst (run_state (serve E reqs) w))"
  by (induction E reqs arbitrary: w rule: serve.induct) (simp_all add: split_beta)

theorem failing_object_goes_stale_witness:
  "is_stale (w_progress (snd (run_state (serve demo_refused_env [(''ns'', ''a''), (''ns'', ''a'')])
      (initial_world\<lparr>w_progress := tracker_attempt ''ns/a'' minute 5 (new_tracker 0 0)\<rparr>)))) ''ns/a'' (6 + 15 * minute)"
proof -
  let ?reqs = "[(''ns'', ''a''), (''ns'', ''a'')]"
    and ?w = "initial_world\<lparr>w_progress := tracker_attempt ''ns/a'' minute 5 (new_tracker 0 0)\<rparr>"
  obtain ss w' where run: "run_state (serve demo_refused_env ?reqs) ?w = (ss, w')"
    by (cases "run_state (serve demo_refused_env ?reqs) ?w")
  have "list_all failed ss"
    using serve_all [OF demo_refused_fails, of ?reqs ?w] run by simp
  then have fails: "list_all (\<lambda>(rq, s). request_key (fst rq) (snd rq) = ''ns/a'' \<longrightarrow> failed s) (zip ?reqs ss)"
    by (auto simp: list_all_iff dest: set_zip_rightD)
  have interval: "\<forall>n ns name tu. request_key ns name = ''ns/a'' \<and> env_get_updater demo_refused_env n ns name = Found tu \<longrightarrow>
      reconcile_interval tu = minute"
    by (simp add: demo_refused_env_def demo_refused_def reconcile_interval_def minute_def second_def)
  have view: "tracker_view (w_progress ?w) ''ns/a'' = Some (None, 5, minute)"
    by (simp add: tracker_view_def tracker_attempt_def new_tracker_def entry_view_def)
  from failing_object_goes_stale [OF run fails interval view, of "6 + 15 * minute"]
  have "is_stale (w_progress w') ''ns/a'' (6 + 15 * minute)"
    by (simp add: stale_window_def tracker_attempt_def new_tracker_def wrap64_def default_stale_multiplier_def
        default_stale_floor_def minute_def second_def time_sub_def min_duration_def max_duration_def)
  then show ?thesis by (simp only: run snd_conv)
qed

text \<open>One updater that never succeeded, first attempted more than fifteen minutes ago.\<close>

definition demo_frozen :: world where
  "demo_frozen = initial_world\<lparr>w_tick := 0, w_progress := tracker_attempt ''ns/a'' minute 5 (new_tracker 0 0)\<rparr>"

theorem liveness_fails_iff_witness:
  "list_ex (\<lambda>(name, verdict). verdict \<noteq> None)
     (fst (run_state (liveness_checks (demo_env\<lparr>env_now := (\<lambda>n. 6 + 15 * minute)\<rparr>)) demo_frozen))"
proof -
  let ?E = "demo_env\<lparr>env_now := (\<lambda>n. 6 + 15 * minute)\<rparr>"
  obtain checks w' where run: "run_state (liveness_checks ?E) demo_frozen = (checks, w')"
    by (cases "run_state (liveness_checks ?E) demo_frozen")
  have "tracker_ok (w_progress demo_frozen)"
    by (simp add: demo_frozen_def tracker_ok_def tracker_attempt_def new_tracker_def)
  note iff = liveness_fails_iff [OF run this]
  have "tracker_view (w_progress demo_frozen) k \<noteq> None \<longleftrightarrow> k = ''ns/a''" for k
    by (simp add: demo_frozen_def tracker_view_def tracker_attempt_def new_tracker_def)
  moreover have "is_stale (w_progress demo_frozen) ''ns/a'' (6 + 15 * minute)"
    by (simp add: demo_frozen_def is_stale_def stale_at_def stale_window_def tracker_attempt_def new_tracker_def
        wrap64_def default_stale_multiplier_def default_stale_floor_def minute_def second_def time_sub_def
        min_duration_def max_duration_def)
  ultimately show ?thesis using iff run by (simp add: Let_def)
qed

definition demo_platform :: platform where
  "demo_platform = \<lparr>pf_flags = id, pf_client_scheme = Inr (), pf_scheme = Inr (), pf_config = Inr ''config'',
     pf_manager = (\<lambda>c opts. Inr ()), pf_dynamic = (\<lambda>c. Inr ()), pf_register = Inr (),
     pf_requests = [(''ns'', ''a'')], pf_stopped = Inr ()\<rparr>"

abbreviation demo_process :: "exit \<times> world" where
  "demo_process \<equiv> run_state (controller_main (demo_ctl_env (Inr (JObj [])) 500) demo_platform) initial_world"

lemma demo_process_stops: "fst demo_process = Stopped"
  by (simp add: controller_main_def or_fail_def run_manager_def demo_platform_def modify_progress_def split_beta
      prepare_temp_dir_def ensure_temp_dir_def lock_temp_dir_def
      remove_interrupted_clones_def Let_def do_fs_def do_stat_def ask_def demo_env_def
      demo_ctl_env_def demo_fs_def demo_dir_stat_def check_temp_root_def initial_world_def del: serve.simps)

theorem serves_under_lock_witness:
  "\<exists>fd a b ys. w_trace (snd demo_process) = EvFs (CloseFd fd) a # EvFs (Funlock fd) b # ys \<and>
     holds_lock (demo_ctl_env (Inr (JObj [])) 500) fd ys"
  using serves_under_lock [OF demo_sort, of "Inr (JObj [])" 500 demo_platform initial_world "fst demo_process" "snd demo_process"]
    demo_process_stops by (auto simp: initial_world_def)

end
