(* ===== verification/Deep_Copy.thy ===== *)
theory Deep_Copy
  imports Api "HOL-Library.State_Monad" "HOL-Library.Monad_Syntax"
begin

text \<open>
  The generated copies of the API types (\<^verbatim>\<open>api/v1alpha1/zz_generated.deepcopy.go\<close>) over an explicit
  store. Elsewhere the objects are immutable values; in Go they are structs that hold pointers,
  slices and maps, and the client hands the handler a copy of the cached object. The
  property that makes the two views agree is that a copy has the same value and shares no cell
  with what it was copied from.
\<close>

section \<open>The store\<close>

text \<open>
  A struct in memory is a record in which every pointer, slice and map is an address; a
  slice is \<^verbatim>\<open>nil\<close> or the address of its items. Structs without such a field are the records of the
  API. Of the object metadata the part the program uses is kept.
\<close>

type_synonym addr = nat

record raw_source =
  rs_digest_auth_realm :: string
  rs_resolve_digest :: bool
  rs_digest_repo :: string
  rs_type :: string
  rs_repo :: string
  rs_tag_pattern :: string
  rs_image_pull_secret_ref :: "addr option"

record raw_requirement =
  rr_key :: string
  rr_operator :: string
  rr_values :: "addr option"

record raw_selector =
  rl_match_labels :: "addr option"
  rl_match_expressions :: "addr option"

record raw_target =
  rt_api_version :: string
  rt_kind :: string
  rt_name :: string
  rt_namespace :: string
  rt_selector :: "addr option"
  rt_patches :: "addr option"

record raw_spec =
  rp_source :: raw_source
  rp_targets :: "addr option"
  rp_interval :: duration
  rp_write_back :: write_back_spec
  rp_argocd_app :: "addr option"
  rp_managing_app :: "addr option"
  rp_rollback :: "addr option"

record raw_status =
  ra_last_image_digest :: string
  ra_previous_image_digest :: string
  ra_observed_generation :: int
  ra_last_tag :: string
  ra_last_updated :: "addr option"
  ra_conditions :: "addr option"
  ra_last_write_commit :: string
  ra_previous_tag :: string
  ra_skipped_tags :: "addr option"
  ra_watching_tag :: string
  ra_watching_commit :: string
  ra_watching_armed_at :: "addr option"
  ra_watching_since :: "addr option"

record raw_updater =
  ru_name :: string
  ru_namespace :: string
  ru_generation :: int
  ru_spec :: raw_spec
  ru_status :: raw_status

record raw_updater_list =
  rv_items :: "addr option"

datatype cell =
    LocalRefCell string
  | AppRefCell argocd_app_ref
  | PatchCell patch_spec
  | RollbackCell rollback_spec
  | WriteBackCell write_back_spec
  | InstantCell time
  | SourceCell raw_source
  | SelectorCell raw_selector
  | TargetCell raw_target
  | SpecCell raw_spec
  | StatusCell raw_status
  | UpdaterCell raw_updater
  | UpdaterListCell raw_updater_list
  | StringsCell "string list"
  | LabelsCell "(string \<times> string) list"
  | PatchesCell "patch_spec list"
  | ConditionsCell "condition list"
  | RequirementsCell "raw_requirement list"
  | TargetsCell "raw_target list"
  | UpdatersCell "raw_updater list"

record store =
  store_cells :: "addr \<rightharpoonup> cell"
  store_next :: addr

type_synonym 'a alloc = "(store, 'a) state"

definition new_cell :: "cell \<Rightarrow> addr alloc" where
  "new_cell c = State (\<lambda>h. (store_next h, h\<lparr>store_cells := (store_cells h)(store_next h \<mapsto> c), store_next := Suc (store_next h)\<rparr>))"

text \<open>A type of cells: how its contents are read off a cell, and the cell that holds them.\<close>

type_synonym 'a cell_type = "(cell \<Rightarrow> 'a option) \<times> ('a \<Rightarrow> cell)"

definition local_ref_type :: "string cell_type" where
  "local_ref_type = (\<lambda>c. case c of LocalRefCell x \<Rightarrow> Some x | _ \<Rightarrow> None, LocalRefCell)"

definition app_ref_type :: "argocd_app_ref cell_type" where
  "app_ref_type = (\<lambda>c. case c of AppRefCell x \<Rightarrow> Some x | _ \<Rightarrow> None, AppRefCell)"

definition patch_type :: "patch_spec cell_type" where
  "patch_type = (\<lambda>c. case c of PatchCell x \<Rightarrow> Some x | _ \<Rightarrow> None, PatchCell)"

definition rollback_type :: "rollback_spec cell_type" where
  "rollback_type = (\<lambda>c. case c of RollbackCell x \<Rightarrow> Some x | _ \<Rightarrow> None, RollbackCell)"

definition write_back_type :: "write_back_spec cell_type" where
  "write_back_type = (\<lambda>c. case c of WriteBackCell x \<Rightarrow> Some x | _ \<Rightarrow> None, WriteBackCell)"

definition instant_type :: "time cell_type" where
  "instant_type = (\<lambda>c. case c of InstantCell x \<Rightarrow> Some x | _ \<Rightarrow> None, InstantCell)"

definition source_type :: "raw_source cell_type" where
  "source_type = (\<lambda>c. case c of SourceCell x \<Rightarrow> Some x | _ \<Rightarrow> None, SourceCell)"

definition selector_type :: "raw_selector cell_type" where
  "selector_type = (\<lambda>c. case c of SelectorCell x \<Rightarrow> Some x | _ \<Rightarrow> None, SelectorCell)"

definition target_type :: "raw_target cell_type" where
  "target_type = (\<lambda>c. case c of TargetCell x \<Rightarrow> Some x | _ \<Rightarrow> None, TargetCell)"

definition spec_type :: "raw_spec cell_type" where
  "spec_type = (\<lambda>c. case c of SpecCell x \<Rightarrow> Some x | _ \<Rightarrow> None, SpecCell)"

definition status_type :: "raw_status cell_type" where
  "status_type = (\<lambda>c. case c of StatusCell x \<Rightarrow> Some x | _ \<Rightarrow> None, StatusCell)"

definition updater_type :: "raw_updater cell_type" where
  "updater_type = (\<lambda>c. case c of UpdaterCell x \<Rightarrow> Some x | _ \<Rightarrow> None, UpdaterCell)"

definition updater_list_type :: "raw_updater_list cell_type" where
  "updater_list_type = (\<lambda>c. case c of UpdaterListCell x \<Rightarrow> Some x | _ \<Rightarrow> None, UpdaterListCell)"

definition strings_type :: "(string list) cell_type" where
  "strings_type = (\<lambda>c. case c of StringsCell x \<Rightarrow> Some x | _ \<Rightarrow> None, StringsCell)"

definition labels_type :: "((string \<times> string) list) cell_type" where
  "labels_type = (\<lambda>c. case c of LabelsCell x \<Rightarrow> Some x | _ \<Rightarrow> None, LabelsCell)"

definition patches_type :: "(patch_spec list) cell_type" where
  "patches_type = (\<lambda>c. case c of PatchesCell x \<Rightarrow> Some x | _ \<Rightarrow> None, PatchesCell)"

definition conditions_type :: "(condition list) cell_type" where
  "conditions_type = (\<lambda>c. case c of ConditionsCell x \<Rightarrow> Some x | _ \<Rightarrow> None, ConditionsCell)"

definition requirements_type :: "(raw_requirement list) cell_type" where
  "requirements_type = (\<lambda>c. case c of RequirementsCell x \<Rightarrow> Some x | _ \<Rightarrow> None, RequirementsCell)"

definition targets_type :: "(raw_target list) cell_type" where
  "targets_type = (\<lambda>c. case c of TargetsCell x \<Rightarrow> Some x | _ \<Rightarrow> None, TargetsCell)"

definition updaters_type :: "(raw_updater list) cell_type" where
  "updaters_type = (\<lambda>c. case c of UpdatersCell x \<Rightarrow> Some x | _ \<Rightarrow> None, UpdatersCell)"

lemmas cell_type_defs = local_ref_type_def app_ref_type_def patch_type_def rollback_type_def write_back_type_def instant_type_def source_type_def selector_type_def target_type_def spec_type_def status_type_def updater_type_def updater_list_type_def strings_type_def labels_type_def patches_type_def conditions_type_def requirements_type_def targets_type_def updaters_type_def

text \<open>
  \<^verbatim>\<open>if in.F != nil { out.F = new(T); ... }\<close>: a nil pointer stays nil, any other is given a fresh
  cell whose contents \<open>into\<close> makes from the old ones. There is no dangling pointer in Go.
\<close>

definition copy_pointer :: "'a cell_type \<Rightarrow> ('a \<Rightarrow> 'a alloc) \<Rightarrow> addr option \<Rightarrow> addr option alloc" where
  "copy_pointer T into p =
     (case p of
        None \<Rightarrow> State_Monad.return None
      | Some a \<Rightarrow> do {
          x \<leftarrow> State (\<lambda>h. (Option.bind (store_cells h a) (fst T), h));
          case x of
            None \<Rightarrow> State_Monad.return (Some a)
          | Some x \<Rightarrow> do { y \<leftarrow> into x; b \<leftarrow> new_cell (snd T y); State_Monad.return (Some b) } })"

text \<open>\<^verbatim>\<open>**out = **in\<close>, and \<^verbatim>\<open>copy(*out, *in)\<close> for items without pointers.\<close>

abbreviation copy_flat :: "'a cell_type \<Rightarrow> addr option \<Rightarrow> addr option alloc" where
  "copy_flat T \<equiv> copy_pointer T State_Monad.return"

fun copy_items :: "('a \<Rightarrow> 'a alloc) \<Rightarrow> 'a list \<Rightarrow> 'a list alloc" where
  "copy_items into [] = State_Monad.return []"
| "copy_items into (x # xs) = do { y \<leftarrow> into x; ys \<leftarrow> copy_items into xs; State_Monad.return (y # ys) }"

section \<open>DeepCopyInto\<close>

definition argocd_app_ref_into :: "argocd_app_ref \<Rightarrow> argocd_app_ref alloc" where
  "argocd_app_ref_into x = State_Monad.return x"

definition local_object_reference_into :: "string \<Rightarrow> string alloc" where
  "local_object_reference_into x = State_Monad.return x"

definition patch_spec_into :: "patch_spec \<Rightarrow> patch_spec alloc" where
  "patch_spec_into x = State_Monad.return x"

definition rollback_spec_into :: "rollback_spec \<Rightarrow> rollback_spec alloc" where
  "rollback_spec_into x = State_Monad.return (x\<lparr>rollback_timeout_spec := rollback_timeout_spec x\<rparr>)"

definition write_back_spec_into :: "write_back_spec \<Rightarrow> write_back_spec alloc" where
  "write_back_spec_into x = State_Monad.return (x\<lparr>wb_secret_name := wb_secret_name x\<rparr>)"

definition source_spec_into :: "raw_source \<Rightarrow> raw_source alloc" where
  "source_spec_into x = do {
     secret \<leftarrow> copy_flat local_ref_type (rs_image_pull_secret_ref x);
     State_Monad.return (x\<lparr>rs_image_pull_secret_ref := secret\<rparr>) }"

definition requirement_into :: "raw_requirement \<Rightarrow> raw_requirement alloc" where
  "requirement_into x = do {
     values \<leftarrow> copy_flat strings_type (rr_values x);
     State_Monad.return (x\<lparr>rr_values := values\<rparr>) }"

definition label_selector_into :: "raw_selector \<Rightarrow> raw_selector alloc" where
  "label_selector_into x = do {
     labels \<leftarrow> copy_flat labels_type (rl_match_labels x);
     expressions \<leftarrow> copy_pointer requirements_type (copy_items requirement_into) (rl_match_expressions x);
     State_Monad.return (x\<lparr>rl_match_labels := labels, rl_match_expressions := expressions\<rparr>) }"

definition target_spec_into :: "raw_target \<Rightarrow> raw_target alloc" where
  "target_spec_into x = do {
     selector \<leftarrow> copy_pointer selector_type label_selector_into (rt_selector x);
     patches \<leftarrow> copy_flat patches_type (rt_patches x);
     State_Monad.return (x\<lparr>rt_selector := selector, rt_patches := patches\<rparr>) }"

definition updater_spec_into :: "raw_spec \<Rightarrow> raw_spec alloc" where
  "updater_spec_into x = do {
     source \<leftarrow> source_spec_into (rp_source x);
     targets \<leftarrow> copy_pointer targets_type (copy_items target_spec_into) (rp_targets x);
     app \<leftarrow> copy_flat app_ref_type (rp_argocd_app x);
     managing \<leftarrow> copy_flat app_ref_type (rp_managing_app x);
     rollback \<leftarrow> copy_flat rollback_type (rp_rollback x);
     State_Monad.return (x\<lparr>rp_source := source, rp_targets := targets, rp_interval := rp_interval x,
       rp_write_back := rp_write_back x, rp_argocd_app := app, rp_managing_app := managing, rp_rollback := rollback\<rparr>) }"

definition updater_status_into :: "raw_status \<Rightarrow> raw_status alloc" where
  "updater_status_into x = do {
     updated \<leftarrow> copy_flat instant_type (ra_last_updated x);
     conds \<leftarrow> copy_flat conditions_type (ra_conditions x);
     skipped \<leftarrow> copy_flat strings_type (ra_skipped_tags x);
     armed \<leftarrow> copy_flat instant_type (ra_watching_armed_at x);
     since \<leftarrow> copy_flat instant_type (ra_watching_since x);
     State_Monad.return (x\<lparr>ra_last_updated := updated, ra_conditions := conds, ra_skipped_tags := skipped,
       ra_watching_armed_at := armed, ra_watching_since := since\<rparr>) }"

definition tag_updater_into :: "raw_updater \<Rightarrow> raw_updater alloc" where
  "tag_updater_into x = do {
     spec \<leftarrow> updater_spec_into (ru_spec x);
     status \<leftarrow> updater_status_into (ru_status x);
     State_Monad.return (x\<lparr>ru_spec := spec, ru_status := status\<rparr>) }"

definition tag_updater_list_into :: "raw_updater_list \<Rightarrow> raw_updater_list alloc" where
  "tag_updater_list_into x = do {
     items \<leftarrow> copy_pointer updaters_type (copy_items tag_updater_into) (rv_items x);
     State_Monad.return (x\<lparr>rv_items := items\<rparr>) }"

section \<open>DeepCopy\<close>

text \<open>The copy of a struct behind a pointer: a new cell of the same type, filled by \<^verbatim>\<open>DeepCopyInto\<close>.\<close>

definition argocd_app_ref_copy :: "addr option \<Rightarrow> addr option alloc" where
  "argocd_app_ref_copy p = copy_pointer app_ref_type argocd_app_ref_into p"

definition local_object_reference_copy :: "addr option \<Rightarrow> addr option alloc" where
  "local_object_reference_copy p = copy_pointer local_ref_type local_object_reference_into p"

definition patch_spec_copy :: "addr option \<Rightarrow> addr option alloc" where
  "patch_spec_copy p = copy_pointer patch_type patch_spec_into p"

definition rollback_spec_copy :: "addr option \<Rightarrow> addr option alloc" where
  "rollback_spec_copy p = copy_pointer rollback_type rollback_spec_into p"

definition source_spec_copy :: "addr option \<Rightarrow> addr option alloc" where
  "source_spec_copy p = copy_pointer source_type source_spec_into p"

definition tag_updater_copy :: "addr option \<Rightarrow> addr option alloc" where
  "tag_updater_copy p = copy_pointer updater_type tag_updater_into p"

definition tag_updater_list_copy :: "addr option \<Rightarrow> addr option alloc" where
  "tag_updater_list_copy p = copy_pointer updater_list_type tag_updater_list_into p"

definition updater_spec_copy :: "addr option \<Rightarrow> addr option alloc" where
  "updater_spec_copy p = copy_pointer spec_type updater_spec_into p"

definition updater_status_copy :: "addr option \<Rightarrow> addr option alloc" where
  "updater_status_copy p = copy_pointer status_type updater_status_into p"

definition target_spec_copy :: "addr option \<Rightarrow> addr option alloc" where
  "target_spec_copy p = copy_pointer target_type target_spec_into p"

definition write_back_spec_copy :: "addr option \<Rightarrow> addr option alloc" where
  "write_back_spec_copy p = copy_pointer write_back_type write_back_spec_into p"

text \<open>\<^verbatim>\<open>DeepCopyObject\<close>: the copy as an object, or no object.\<close>

definition tag_updater_copy_object :: "addr option \<Rightarrow> addr option alloc" where
  "tag_updater_copy_object p = do {
     c \<leftarrow> tag_updater_copy p;
     State_Monad.return (case c of Some a \<Rightarrow> Some a | None \<Rightarrow> None) }"

definition tag_updater_list_copy_object :: "addr option \<Rightarrow> addr option alloc" where
  "tag_updater_list_copy_object p = do {
     c \<leftarrow> tag_updater_list_copy p;
     State_Monad.return (case c of Some a \<Rightarrow> Some a | None \<Rightarrow> None) }"

section \<open>What a struct in memory stands for\<close>

definition read_pointer ::
    "'a cell_type \<Rightarrow> ((addr \<rightharpoonup> cell) \<Rightarrow> 'a \<Rightarrow> 'v option) \<Rightarrow> (addr \<rightharpoonup> cell) \<Rightarrow> addr option \<Rightarrow> 'v option option" where
  "read_pointer T R m p =
     (case p of None \<Rightarrow> Some None | Some a \<Rightarrow> do { x \<leftarrow> Option.bind (m a) (fst T); v \<leftarrow> R m x; Some (Some v) })"

definition read_flat :: "(addr \<rightharpoonup> cell) \<Rightarrow> 'a \<Rightarrow> 'a option" where
  "read_flat m x = Some x"

definition read_items :: "((addr \<rightharpoonup> cell) \<Rightarrow> 'a \<Rightarrow> 'v option) \<Rightarrow> (addr \<rightharpoonup> cell) \<Rightarrow> 'a list \<Rightarrow> 'v list option" where
  "read_items R m xs = those (map (R m) xs)"

text \<open>A nil slice or map has no items.\<close>

definition items_of :: "'v list option \<Rightarrow> 'v list" where
  "items_of r = (case r of None \<Rightarrow> [] | Some xs \<Rightarrow> xs)"

definition read_source :: "(addr \<rightharpoonup> cell) \<Rightarrow> raw_source \<Rightarrow> source_spec option" where
  "read_source m x = do {
     secret \<leftarrow> read_pointer local_ref_type read_flat m (rs_image_pull_secret_ref x);
     Some \<lparr>digest_auth_realm = rs_digest_auth_realm x, resolve_digest = rs_resolve_digest x,
       digest_repo = rs_digest_repo x, source_type = rs_type x, source_repo = rs_repo x,
       tag_pattern = rs_tag_pattern x, image_pull_secret_ref = secret\<rparr> }"

definition read_requirement :: "(addr \<rightharpoonup> cell) \<Rightarrow> raw_requirement \<Rightarrow> selector_requirement option" where
  "read_requirement m x = do {
     values \<leftarrow> read_pointer strings_type read_flat m (rr_values x);
     Some \<lparr>req_key = rr_key x, req_operator = rr_operator x, req_values = items_of values\<rparr> }"

definition read_selector :: "(addr \<rightharpoonup> cell) \<Rightarrow> raw_selector \<Rightarrow> label_selector option" where
  "read_selector m x = do {
     labels \<leftarrow> read_pointer labels_type read_flat m (rl_match_labels x);
     expressions \<leftarrow> read_pointer requirements_type (read_items read_requirement) m (rl_match_expressions x);
     Some \<lparr>match_labels = items_of labels, match_expressions = items_of expressions\<rparr> }"

definition read_target :: "(addr \<rightharpoonup> cell) \<Rightarrow> raw_target \<Rightarrow> target_spec option" where
  "read_target m x = do {
     selector \<leftarrow> read_pointer selector_type read_selector m (rt_selector x);
     patches \<leftarrow> read_pointer patches_type read_flat m (rt_patches x);
     Some \<lparr>target_api_version = rt_api_version x, target_kind = rt_kind x, target_name = rt_name x,
       target_namespace = rt_namespace x, target_selector = selector, target_patches = items_of patches\<rparr> }"

definition read_spec :: "(addr \<rightharpoonup> cell) \<Rightarrow> raw_spec \<Rightarrow> updater_spec option" where
  "read_spec m x = do {
     source \<leftarrow> read_source m (rp_source x);
     targets \<leftarrow> read_pointer targets_type (read_items read_target) m (rp_targets x);
     app \<leftarrow> read_pointer app_ref_type read_flat m (rp_argocd_app x);
     managing \<leftarrow> read_pointer app_ref_type read_flat m (rp_managing_app x);
     rollback \<leftarrow> read_pointer rollback_type read_flat m (rp_rollback x);
     Some \<lparr>spec_source = source, spec_targets = items_of targets, spec_interval = rp_interval x,
       spec_write_back = rp_write_back x, spec_argocd_app = app, spec_managing_app = managing, spec_rollback = rollback\<rparr> }"

definition read_status :: "(addr \<rightharpoonup> cell) \<Rightarrow> raw_status \<Rightarrow> updater_status option" where
  "read_status m x = do {
     updated \<leftarrow> read_pointer instant_type read_flat m (ra_last_updated x);
     conds \<leftarrow> read_pointer conditions_type read_flat m (ra_conditions x);
     skipped \<leftarrow> read_pointer strings_type read_flat m (ra_skipped_tags x);
     armed \<leftarrow> read_pointer instant_type read_flat m (ra_watching_armed_at x);
     since \<leftarrow> read_pointer instant_type read_flat m (ra_watching_since x);
     Some \<lparr>last_image_digest = ra_last_image_digest x, previous_image_digest = ra_previous_image_digest x,
       observed_generation = ra_observed_generation x, last_tag = ra_last_tag x, last_updated = updated,
       conditions = items_of conds, last_write_commit = ra_last_write_commit x, previous_tag = ra_previous_tag x,
       skipped_tags = items_of skipped, watching_tag = ra_watching_tag x, watching_commit = ra_watching_commit x,
       watching_armed_at = armed, watching_since = since\<rparr> }"

definition read_updater :: "(addr \<rightharpoonup> cell) \<Rightarrow> raw_updater \<Rightarrow> tag_updater option" where
  "read_updater m x = do {
     spec \<leftarrow> read_spec m (ru_spec x);
     status \<leftarrow> read_status m (ru_status x);
     Some \<lparr>meta_name = ru_name x, meta_namespace = ru_namespace x, meta_generation = ru_generation x,
       updater_spec = spec, updater_status = status\<rparr> }"

definition read_updater_list :: "(addr \<rightharpoonup> cell) \<Rightarrow> raw_updater_list \<Rightarrow> tag_updater list option" where
  "read_updater_list m x = do {
     items \<leftarrow> read_pointer updaters_type (read_items read_updater) m (rv_items x);
     Some (items_of items) }"

section \<open>Cloning\<close>

definition store_ok :: "store \<Rightarrow> bool" where
  "store_ok h \<longleftrightarrow> dom (store_cells h) \<subseteq> {..<store_next h}"

definition extends :: "store \<Rightarrow> store \<Rightarrow> bool" where
  "extends h h' \<longleftrightarrow> store_ok h' \<and> store_next h \<le> store_next h' \<and> store_cells h \<subseteq>\<^sub>m store_cells h'"

text \<open>
  Run in any later state of \<open>h\<close>, the computation changes no cell and its result satisfies \<open>Q\<close>
  on the cells that are not of \<open>h\<close>.
\<close>

definition clones :: "store \<Rightarrow> 'a alloc \<Rightarrow> ('a \<Rightarrow> (addr \<rightharpoonup> cell) \<Rightarrow> bool) \<Rightarrow> bool" where
  "clones h m Q \<longleftrightarrow> (\<forall>h1. extends h h1 \<longrightarrow>
     (case run_state m h1 of (y, h2) \<Rightarrow> extends h1 h2 \<and> Q y (store_cells h2 |` {store_next h..})))"

lemma extends_trans: "extends a b \<Longrightarrow> extends b c \<Longrightarrow> extends a c"
  by (auto simp: extends_def intro: map_le_trans)

lemma restrict_map_mono: "m \<subseteq>\<^sub>m m' \<Longrightarrow> m |` A \<subseteq>\<^sub>m m' |` A"
  by (auto simp: map_le_def restrict_map_def)

lemma clones_return: "(\<And>m. Q x m) \<Longrightarrow> clones h (State_Monad.return x) Q"
  by (simp add: clones_def extends_def)

lemma clones_bind:
  assumes "clones h m R" and mono: "\<And>x m m'. m \<subseteq>\<^sub>m m' \<Longrightarrow> R x m \<Longrightarrow> R x m'"
    and "\<And>x. clones h (f x) (\<lambda>y m'. R x m' \<longrightarrow> Q y m')"
  shows "clones h (m \<bind> f) Q"
  unfolding clones_def
proof (intro allI impI)
  fix h1
  assume h1: "extends h h1"
  obtain x h2 where x: "run_state m h1 = (x, h2)" by (cases "run_state m h1")
  obtain y h3 where y: "run_state (f x) h2 = (y, h3)" by (cases "run_state (f x) h2")
  have 2: "extends h1 h2" "R x (store_cells h2 |` {store_next h..})"
    using assms(1) h1 x by (auto simp: clones_def)
  have 3: "extends h2 h3" "R x (store_cells h3 |` {store_next h..}) \<longrightarrow> Q y (store_cells h3 |` {store_next h..})"
    using assms(3) [of x] extends_trans [OF h1 2(1)] y by (auto simp: clones_def)
  have "R x (store_cells h3 |` {store_next h..})"
    by (rule mono [OF restrict_map_mono 2(2)]) (use 3(1) in \<open>simp add: extends_def\<close>)
  with x y 2 3 show "case run_state (m \<bind> f) h1 of (y, h2) \<Rightarrow> extends h1 h2 \<and> Q y (store_cells h2 |` {store_next h..})"
    by (auto intro: extends_trans)
qed

text \<open>A reader of a type and a copier of it.\<close>

locale copier =
  fixes read :: "(addr \<rightharpoonup> cell) \<Rightarrow> 'a \<Rightarrow> 'v option" and into :: "'a \<Rightarrow> 'a alloc"
  assumes read_mono: "m \<subseteq>\<^sub>m m' \<Longrightarrow> read m x = Some v \<Longrightarrow> read m' x = Some v"
    and into_clones: "store_ok h \<Longrightarrow> read (store_cells h) x = Some v \<Longrightarrow> clones h (into x) (\<lambda>y m. read m y = Some v)"
begin

text \<open>The copy reads as the original, from cells that are all new, and the original as before.\<close>

lemma separate:
  assumes "store_ok h" and "read (store_cells h) x = Some v" and "run_state (into x) h = (y, h')"
  shows "(\<forall>a \<ge> store_next h. m a = store_cells h' a) \<Longrightarrow> read m y = Some v"
    and "(\<forall>a < store_next h. m a = store_cells h' a) \<Longrightarrow> read m x = Some v"
proof -
  have "extends h h" using assms(1) by (simp add: extends_def)
  with into_clones [OF assms(1,2)] assms(3) have e: "extends h h'"
    "read (store_cells h' |` {store_next h..}) y = Some v" by (auto simp: clones_def)
  show "read m y = Some v" if "\<forall>a \<ge> store_next h. m a = store_cells h' a"
    by (rule read_mono [OF _ e(2)]) (use that in \<open>auto simp: map_le_def restrict_map_def\<close>)
  show "read m x = Some v" if "\<forall>a < store_next h. m a = store_cells h' a"
  proof (rule read_mono [OF _ assms(2)], unfold map_le_def, intro ballI)
    fix a
    assume a: "a \<in> dom (store_cells h)"
    with assms(1) have "a < store_next h" by (auto simp: store_ok_def)
    with that e(1) a show "store_cells h a = m a" by (simp add: extends_def map_le_def)
  qed
qed

end

section \<open>Pointers and slices of a type\<close>

definition cell_type_ok :: "'a cell_type \<Rightarrow> bool" where
  "cell_type_ok T \<longleftrightarrow> (\<forall>x. fst T (snd T x) = Some x)"

lemma cell_types_ok:
  "cell_type_ok local_ref_type" "cell_type_ok app_ref_type" "cell_type_ok rollback_type" "cell_type_ok instant_type"
  "cell_type_ok selector_type" "cell_type_ok updater_type" "cell_type_ok strings_type" "cell_type_ok labels_type"
  "cell_type_ok patches_type" "cell_type_ok conditions_type" "cell_type_ok requirements_type"
  "cell_type_ok targets_type" "cell_type_ok updaters_type"
  by (simp_all add: cell_type_ok_def cell_type_defs)

lemma clones_lookup:
  "store_cells h a = Some c \<Longrightarrow> clones h (f (g c)) Q \<Longrightarrow>
    clones h (State (\<lambda>h. (Option.bind (store_cells h a) g, h)) \<bind> f) Q"
  by (auto simp: clones_def extends_def map_le_def dom_def split: prod.splits)

lemma clones_new: "clones h (new_cell c) (\<lambda>b m. m b = Some c)"
  unfolding clones_def
proof (intro allI impI)
  fix h1
  assume "extends h h1"
  then have "store_cells h1 (store_next h1) = None" "dom (store_cells h1) \<subseteq> {..<store_next h1}" "store_next h \<le> store_next h1"
    by (auto simp: extends_def store_ok_def)
  then show "case run_state (new_cell c) h1 of (b, h2) \<Rightarrow>
      extends h1 h2 \<and> (store_cells h2 |` {store_next h..}) b = Some c"
    by (auto simp: new_cell_def extends_def store_ok_def map_le_def)
qed

lemma bind_mono:
  "Option.bind a f = Some v \<Longrightarrow> (\<And>x. a = Some x \<Longrightarrow> a' = Some x) \<Longrightarrow> (\<And>x. f x = Some v \<Longrightarrow> f' x = Some v) \<Longrightarrow>
    Option.bind a' f' = Some v"
  by (cases a) auto

lemma map_le_lookup: "m \<subseteq>\<^sub>m m' \<Longrightarrow> m a = Some c \<Longrightarrow> m' a = Some c"
  by (auto simp: map_le_def dom_def)

lemma read_items_simps [simp]:
  "read_items R m [] = Some vs \<longleftrightarrow> vs = []"
  "read_items R m (x # xs) = Some vs \<longleftrightarrow> (\<exists>w ws. R m x = Some w \<and> read_items R m xs = Some ws \<and> vs = w # ws)"
  by (auto simp: read_items_def split: option.splits)

context copier
begin

lemma pointer_mono:
  "m \<subseteq>\<^sub>m m' \<Longrightarrow> read_pointer T read m p = Some v \<Longrightarrow> read_pointer T read m' p = Some v"
  by (cases p) (auto simp: read_pointer_def bind_eq_Some_conv dest: map_le_lookup read_mono)

lemma pointer_clones:
  assumes T: "cell_type_ok T" and h: "store_ok h" and p: "read_pointer T read (store_cells h) p = Some v"
  shows "clones h (copy_pointer T into p) (\<lambda>q m. read_pointer T read m q = Some v)"
proof (cases p)
  case None
  with p show ?thesis by (auto simp: copy_pointer_def read_pointer_def intro: clones_return)
next
  case (Some a)
  with p obtain c x w where c: "store_cells h a = Some c" "fst T c = Some x" "read (store_cells h) x = Some w" "v = Some w"
    by (auto simp: read_pointer_def bind_eq_Some_conv)
  have "clones h (do { y \<leftarrow> into x; b \<leftarrow> new_cell (snd T y); State_Monad.return (Some b) })
      (\<lambda>q m. read_pointer T read m q = Some v)"
    using T c(4)
    by (intro clones_bind [OF into_clones [OF h c(3)]] clones_bind [OF clones_new] clones_return)
      (auto simp: read_pointer_def cell_type_ok_def dest: map_le_lookup read_mono)
  with c Some show ?thesis
    unfolding copy_pointer_def by (auto intro!: clones_lookup)
qed

lemma items_mono: "m \<subseteq>\<^sub>m m' \<Longrightarrow> read_items read m xs = Some vs \<Longrightarrow> read_items read m' xs = Some vs"
  by (induction xs arbitrary: vs) (auto dest: read_mono)

lemma items_clones:
  "store_ok h \<Longrightarrow> read_items read (store_cells h) xs = Some vs \<Longrightarrow>
    clones h (copy_items into xs) (\<lambda>ys m. read_items read m ys = Some vs)"
proof (induction xs arbitrary: vs)
  case Nil
  then show ?case by (auto intro: clones_return)
next
  case (Cons x xs)
  then obtain w ws where "read (store_cells h) x = Some w" "read_items read (store_cells h) xs = Some ws" "vs = w # ws"
    by auto
  with Cons show ?case
    unfolding copy_items.simps
    by (intro clones_bind [OF into_clones] clones_bind [OF Cons.IH] clones_return)
      (auto intro: read_mono items_mono)
qed

lemma items: "copier (read_items read) (copy_items into)"
  by unfold_locales (rule items_mono; assumption | rule items_clones; assumption)+

lemma pointer: "cell_type_ok T \<Longrightarrow> copier (read_pointer T read) (copy_pointer T into)"
  by unfold_locales (rule pointer_mono; assumption | rule pointer_clones; assumption)+

end

section \<open>Every copy of the API is a clone\<close>

interpretation flat: copier read_flat State_Monad.return
  by unfold_locales (auto simp: read_flat_def intro: clones_return)

lemmas flat_mono = flat.pointer_mono
lemmas flat_clones = flat.pointer_clones

interpretation source: copier read_source source_spec_into
proof unfold_locales
  show "read_source m' x = Some v" if "m \<subseteq>\<^sub>m m'" "read_source m x = Some v" for m m' x v
    by (insert that(2), unfold read_source_def, (erule bind_mono, erule flat_mono [OF that(1)])+)
  show "clones h (source_spec_into x) (\<lambda>y m. read_source m y = Some v)"
    if h: "store_ok h" and r: "read_source (store_cells h) x = Some v" for h x v
  proof -
    from r obtain secret where p: "read_pointer local_ref_type read_flat (store_cells h) (rs_image_pull_secret_ref x) = Some secret"
      and v: "v = \<lparr>digest_auth_realm = rs_digest_auth_realm x, resolve_digest = rs_resolve_digest x,
       digest_repo = rs_digest_repo x, source_type = rs_type x, source_repo = rs_repo x,
       tag_pattern = rs_tag_pattern x, image_pull_secret_ref = secret\<rparr>"
      by (auto simp: read_source_def bind_eq_Some_conv)
    show ?thesis
      unfolding source_spec_into_def v
      by (intro clones_bind [OF flat_clones [OF _ h p]] clones_return cell_types_ok)
        (auto simp: read_source_def bind_eq_Some_conv dest: flat_mono)
  qed
qed

interpretation requirement: copier read_requirement requirement_into
proof unfold_locales
  show "read_requirement m' x = Some v" if "m \<subseteq>\<^sub>m m'" "read_requirement m x = Some v" for m m' x v
    by (insert that(2), unfold read_requirement_def, (erule bind_mono, erule flat_mono [OF that(1)])+)
  show "clones h (requirement_into x) (\<lambda>y m. read_requirement m y = Some v)"
    if h: "store_ok h" and r: "read_requirement (store_cells h) x = Some v" for h x v
  proof -
    from r obtain vs where p: "read_pointer strings_type read_flat (store_cells h) (rr_values x) = Some vs"
      and v: "v = \<lparr>req_key = rr_key x, req_operator = rr_operator x, req_values = items_of vs\<rparr>"
      by (auto simp: read_requirement_def bind_eq_Some_conv)
    show ?thesis
      unfolding requirement_into_def v
      by (intro clones_bind [OF flat_clones [OF _ h p]] clones_return cell_types_ok)
        (auto simp: read_requirement_def bind_eq_Some_conv dest: flat_mono)
  qed
qed

interpretation requirements: copier "read_items read_requirement" "copy_items requirement_into"
  by (rule requirement.items)

interpretation selector: copier read_selector label_selector_into
proof unfold_locales
  show "read_selector m' x = Some v" if "m \<subseteq>\<^sub>m m'" "read_selector m x = Some v" for m m' x v
    by (insert that(2), unfold read_selector_def, (erule bind_mono, (erule flat_mono [OF that(1)] | erule requirements.pointer_mono [OF that(1)]))+)
  show "clones h (label_selector_into x) (\<lambda>y m. read_selector m y = Some v)"
    if h: "store_ok h" and r: "read_selector (store_cells h) x = Some v" for h x v
  proof -
    from r obtain labels expressions
      where p: "read_pointer labels_type read_flat (store_cells h) (rl_match_labels x) = Some labels"
        "read_pointer requirements_type (read_items read_requirement) (store_cells h) (rl_match_expressions x) = Some expressions"
      and v: "v = \<lparr>match_labels = items_of labels, match_expressions = items_of expressions\<rparr>"
      by (auto simp: read_selector_def bind_eq_Some_conv)
    show ?thesis
      unfolding label_selector_into_def v
      by (intro clones_bind [OF flat_clones [OF _ h p(1)]] clones_bind [OF requirements.pointer_clones [OF _ h p(2)]]
          clones_return cell_types_ok)
        (auto simp: read_selector_def bind_eq_Some_conv dest: flat_mono requirements.pointer_mono)
  qed
qed

interpretation target: copier read_target target_spec_into
proof unfold_locales
  show "read_target m' x = Some v" if "m \<subseteq>\<^sub>m m'" "read_target m x = Some v" for m m' x v
    by (insert that(2), unfold read_target_def, (erule bind_mono, (erule flat_mono [OF that(1)] | erule selector.pointer_mono [OF that(1)]))+)
  show "clones h (target_spec_into x) (\<lambda>y m. read_target m y = Some v)"
    if h: "store_ok h" and r: "read_target (store_cells h) x = Some v" for h x v
  proof -
    from r obtain sel patches
      where p: "read_pointer selector_type read_selector (store_cells h) (rt_selector x) = Some sel"
        "read_pointer patches_type read_flat (store_cells h) (rt_patches x) = Some patches"
      and v: "v = \<lparr>target_api_version = rt_api_version x, target_kind = rt_kind x, target_name = rt_name x,
       target_namespace = rt_namespace x, target_selector = sel, target_patches = items_of patches\<rparr>"
      by (auto simp: read_target_def bind_eq_Some_conv)
    show ?thesis
      unfolding target_spec_into_def v
      by (intro clones_bind [OF selector.pointer_clones [OF _ h p(1)]] clones_bind [OF flat_clones [OF _ h p(2)]]
          clones_return cell_types_ok)
        (auto simp: read_target_def bind_eq_Some_conv dest: flat_mono selector.pointer_mono)
  qed
qed

interpretation targets: copier "read_items read_target" "copy_items target_spec_into"
  by (rule target.items)

interpretation spec: copier read_spec updater_spec_into
proof unfold_locales
  show "read_spec m' x = Some v" if "m \<subseteq>\<^sub>m m'" "read_spec m x = Some v" for m m' x v
    by (insert that(2), unfold read_spec_def, (erule bind_mono, (erule source.read_mono [OF that(1)] | erule targets.pointer_mono [OF that(1)] | erule flat_mono [OF that(1)]))+)
  show "clones h (updater_spec_into x) (\<lambda>y m. read_spec m y = Some v)"
    if h: "store_ok h" and r: "read_spec (store_cells h) x = Some v" for h x v
  proof -
    from r obtain src targets app managing rollback where p: "read_source (store_cells h) (rp_source x) = Some src"
        "read_pointer targets_type (read_items read_target) (store_cells h) (rp_targets x) = Some targets"
        "read_pointer app_ref_type read_flat (store_cells h) (rp_argocd_app x) = Some app"
        "read_pointer app_ref_type read_flat (store_cells h) (rp_managing_app x) = Some managing"
        "read_pointer rollback_type read_flat (store_cells h) (rp_rollback x) = Some rollback"
      and v: "v = \<lparr>spec_source = src, spec_targets = items_of targets, spec_interval = rp_interval x,
       spec_write_back = rp_write_back x, spec_argocd_app = app, spec_managing_app = managing, spec_rollback = rollback\<rparr>"
      by (auto simp: read_spec_def bind_eq_Some_conv)
    show ?thesis
      unfolding updater_spec_into_def v
      by (intro clones_bind [OF source.into_clones [OF h p(1)]] clones_bind [OF targets.pointer_clones [OF _ h p(2)]]
          clones_bind [OF flat_clones [OF _ h p(3)]] clones_bind [OF flat_clones [OF _ h p(4)]]
          clones_bind [OF flat_clones [OF _ h p(5)]] clones_return cell_types_ok)
        (auto simp: read_spec_def bind_eq_Some_conv dest: source.read_mono targets.pointer_mono flat_mono)
  qed
qed

interpretation status: copier read_status updater_status_into
proof unfold_locales
  show "read_status m' x = Some v" if "m \<subseteq>\<^sub>m m'" "read_status m x = Some v" for m m' x v
    by (insert that(2), unfold read_status_def, (erule bind_mono, erule flat_mono [OF that(1)])+)
  show "clones h (updater_status_into x) (\<lambda>y m. read_status m y = Some v)"
    if h: "store_ok h" and r: "read_status (store_cells h) x = Some v" for h x v
  proof -
    from r obtain updated conds skipped armed since
      where p: "read_pointer instant_type read_flat (store_cells h) (ra_last_updated x) = Some updated"
        "read_pointer conditions_type read_flat (store_cells h) (ra_conditions x) = Some conds"
        "read_pointer strings_type read_flat (store_cells h) (ra_skipped_tags x) = Some skipped"
        "read_pointer instant_type read_flat (store_cells h) (ra_watching_armed_at x) = Some armed"
        "read_pointer instant_type read_flat (store_cells h) (ra_watching_since x) = Some since"
      and v: "v = \<lparr>last_image_digest = ra_last_image_digest x, previous_image_digest = ra_previous_image_digest x,
       observed_generation = ra_observed_generation x, last_tag = ra_last_tag x, last_updated = updated,
       conditions = items_of conds, last_write_commit = ra_last_write_commit x, previous_tag = ra_previous_tag x,
       skipped_tags = items_of skipped, watching_tag = ra_watching_tag x, watching_commit = ra_watching_commit x,
       watching_armed_at = armed, watching_since = since\<rparr>"
      by (auto simp: read_status_def bind_eq_Some_conv)
    show ?thesis
      unfolding updater_status_into_def v
      by (intro clones_bind [OF flat_clones [OF _ h p(1)]] clones_bind [OF flat_clones [OF _ h p(2)]]
          clones_bind [OF flat_clones [OF _ h p(3)]] clones_bind [OF flat_clones [OF _ h p(4)]]
          clones_bind [OF flat_clones [OF _ h p(5)]] clones_return cell_types_ok)
        (auto simp: read_status_def bind_eq_Some_conv dest: flat_mono)
  qed
qed

interpretation updater: copier read_updater tag_updater_into
proof unfold_locales
  show "read_updater m' x = Some v" if "m \<subseteq>\<^sub>m m'" "read_updater m x = Some v" for m m' x v
    by (insert that(2), unfold read_updater_def, (erule bind_mono, (erule spec.read_mono [OF that(1)] | erule status.read_mono [OF that(1)]))+)
  show "clones h (tag_updater_into x) (\<lambda>y m. read_updater m y = Some v)"
    if h: "store_ok h" and r: "read_updater (store_cells h) x = Some v" for h x v
  proof -
    from r obtain spec status where p: "read_spec (store_cells h) (ru_spec x) = Some spec"
        "read_status (store_cells h) (ru_status x) = Some status"
      and v: "v = \<lparr>meta_name = ru_name x, meta_namespace = ru_namespace x, meta_generation = ru_generation x,
       updater_spec = spec, updater_status = status\<rparr>"
      by (auto simp: read_updater_def bind_eq_Some_conv)
    show ?thesis
      unfolding tag_updater_into_def v
      by (intro clones_bind [OF spec.into_clones [OF h p(1)]] clones_bind [OF status.into_clones [OF h p(2)]] clones_return)
        (auto simp: read_updater_def bind_eq_Some_conv dest: spec.read_mono status.read_mono)
  qed
qed

interpretation updaters: copier "read_items read_updater" "copy_items tag_updater_into"
  by (rule updater.items)

interpretation updater_list: copier read_updater_list tag_updater_list_into
proof unfold_locales
  show "read_updater_list m' x = Some v" if "m \<subseteq>\<^sub>m m'" "read_updater_list m x = Some v" for m m' x v
    by (insert that(2), unfold read_updater_list_def, (erule bind_mono, erule updaters.pointer_mono [OF that(1)])+)
  show "clones h (tag_updater_list_into x) (\<lambda>y m. read_updater_list m y = Some v)"
    if h: "store_ok h" and r: "read_updater_list (store_cells h) x = Some v" for h x v
  proof -
    from r obtain items
      where p: "read_pointer updaters_type (read_items read_updater) (store_cells h) (rv_items x) = Some items"
        and v: "v = items_of items"
      by (auto simp: read_updater_list_def bind_eq_Some_conv)
    show ?thesis
      unfolding tag_updater_list_into_def v
      by (intro clones_bind [OF updaters.pointer_clones [OF _ h p]] clones_return cell_types_ok)
        (auto simp: read_updater_list_def bind_eq_Some_conv dest: updaters.pointer_mono)
  qed
qed

section \<open>Properties\<close>

text \<open>
  C33. The copy that the handler works on is its own: a deep copy of an updater has the same value,
  whatever is later written to the cells of the original the copy still has that value, and
  whatever is later written to the cells of the copy or to new ones the original still has it.
  So changing the conditions or the skipped tags of the object at hand cannot change the
  object in the client's cache, and treating objects as values loses nothing.
\<close>

theorem deep_copy_separate:
  assumes "store_ok h" and "read_pointer updater_type read_updater (store_cells h) p = Some v"
    and "run_state (tag_updater_copy p) h = (q, h')"
  shows "(\<forall>m. (\<forall>a \<ge> store_next h. m a = store_cells h' a) \<longrightarrow> read_pointer updater_type read_updater m q = Some v) \<and>
    (\<forall>m. (\<forall>a < store_next h. m a = store_cells h' a) \<longrightarrow> read_pointer updater_type read_updater m p = Some v)"
proof -
  note separate = copier.separate [OF updater.pointer [OF cell_types_ok(6)] assms(1,2) assms(3) [unfolded tag_updater_copy_def]]
  show ?thesis using separate by blast
qed

section \<open>Witness\<close>

text \<open>An updater with one condition and one skipped tag, and its cell.\<close>

definition demo_raw_updater :: raw_updater where
  "demo_raw_updater = \<lparr>ru_name = ''a'', ru_namespace = ''ns'', ru_generation = 1,
     ru_spec = \<lparr>rp_source = \<lparr>rs_digest_auth_realm = '''', rs_resolve_digest = False, rs_digest_repo = '''',
         rs_type = SourceTypeGit, rs_repo = ''r'', rs_tag_pattern = ''v.*'', rs_image_pull_secret_ref = None\<rparr>,
       rp_targets = None, rp_interval = 0,
       rp_write_back = \<lparr>wb_repo = ''r'', wb_branch = ''main'', wb_path = ''p'', wb_secret_name = ''''\<rparr>,
       rp_argocd_app = None, rp_managing_app = None, rp_rollback = None\<rparr>,
     ru_status = \<lparr>ra_last_image_digest = '''', ra_previous_image_digest = '''', ra_observed_generation = 1,
       ra_last_tag = ''v1'', ra_last_updated = None, ra_conditions = None, ra_last_write_commit = '''',
       ra_previous_tag = '''', ra_skipped_tags = Some 0, ra_watching_tag = '''', ra_watching_commit = '''',
       ra_watching_armed_at = None, ra_watching_since = None\<rparr>\<rparr>"

definition demo_store :: store where
  "demo_store = \<lparr>store_cells = [0 \<mapsto> StringsCell [''v0''], 1 \<mapsto> UpdaterCell demo_raw_updater], store_next = 2\<rparr>"

text \<open>After the skipped tags of the copy were overwritten, the original still skips its own.\<close>

theorem deep_copy_separate_witness:
  "map_option (map_option (\<lambda>u. skipped_tags (updater_status u)))
     (read_pointer updater_type read_updater
       ((store_cells (snd (run_state (tag_updater_copy (Some 1)) demo_store)))(2 \<mapsto> StringsCell [''v9''])) (Some 1)) =
   Some (Some [''v0''])"
proof -
  obtain q h' where run: "run_state (tag_updater_copy (Some 1)) demo_store = (q, h')"
    by (cases "run_state (tag_updater_copy (Some 1)) demo_store")
  have ok: "store_ok demo_store" by (auto simp: store_ok_def demo_store_def)
  obtain v where v: "read_pointer updater_type read_updater (store_cells demo_store) (Some 1) = Some v"
    "map_option (\<lambda>u. skipped_tags (updater_status u)) v = Some [''v0'']"
    by (simp add: read_pointer_def demo_store_def cell_type_defs read_updater_def demo_raw_updater_def read_spec_def
        read_source_def read_status_def read_flat_def items_of_def)
  from deep_copy_separate [OF ok v(1) run, THEN conjunct2, rule_format, of "(store_cells h')(2 \<mapsto> StringsCell [''v9''])"]
  show ?thesis using v(2) run by (simp add: demo_store_def)
qed

end
