(* ===== verification/Spec2Isabelle.thy ===== *)
theory Spec2Isabelle
  imports Reports Service Deep_Copy
begin

text \<open>
  \<^bold>\<open>The program.\<close> \<^verbatim>\<open>argocd-tag-updater\<close> is a Kubernetes controller. For every TagUpdater object
  it lists the tags of a source (a git remote, a container registry or a nix cache), chooses the
  latest tag that matches a pattern, renders the configured templates from the release, edits a
  YAML manifest in a git repository and pushes the commit. With rollback enabled it then watches
  the Argo CD application until the commit is observed and healthy, and otherwise writes the
  previous tag back.

  \<^bold>\<open>Reading of effects.\<close> \<open>Effects\<close> has one record \<open>env\<close> with a function per outside service
  (clock, environment variables, files, git, HTTP, the Kubernetes API, Argo CD applications),
  each indexed by the number of calls made so far: nothing is assumed about it, and two equal
  calls may be answered differently. A Go function with effects is a state transformer on
  \<open>world\<close>, which counts the calls, records every call with its answer, and holds the fields of the
  reconciler that outlive a request (the progress tracker and the two instants of the revision
  health check). A Go error is a \<open>go_error\<close>, a call that may also panic or never return gives an
  \<open>outcome\<close>. Pure library code that is not part of the repository (the regular expression engine,
  the YAML parser, templates, the JSON parser, URL parsing, time formats, the label selector) is a
  \<open>lib_*\<close> field of \<open>env\<close>; what the proofs need of it is a named hypothesis or locale.
  A property of the calls made is stated on the trace; \<open>ensures\<close> (every call satisfies a
  predicate) and \<open>emits\<close> (result and calls are related) are the two program logics, each with one
  rule per construct.

  \<^bold>\<open>Theories and sources.\<close>
  \<^item> \<open>Prelude\<close>, \<open>Go_Strings\<close>, \<open>Paths\<close>: errors, outcomes, maps, time and durations (64 bit, with
    the wrap-around and saturation of \<^verbatim>\<open>time.Duration\<close>), the string and path functions used.
  \<^item> \<open>Api\<close>: \<^verbatim>\<open>api/v1alpha1/tagupdater_types.go\<close>, a record per struct.
  \<^item> \<open>Deep_Copy\<close>: \<^verbatim>\<open>api/v1alpha1/zz_generated.deepcopy.go\<close> over an explicit store (locale \<open>copier\<close>,
    interpreted for every type with pointers): copies have the same value and share no cell, which
    is why the other theories can treat objects as values.
  \<^item> \<open>Slice_Sort\<close>, \<open>Matcher\<close>: \<^verbatim>\<open>internal/matcher\<close>. \<^verbatim>\<open>sort.Slice\<close> is the locale \<open>slice_sort\<close>,
    interpreted on insertion sort. Sound selection, newest build.
  \<^item> \<open>Progress\<close>: \<^verbatim>\<open>internal/controller/progress.go\<close>. The tracker refines a specification on
    traces of operations (locale \<open>progress_store\<close>); the health check and the staleness window.
  \<^item> \<open>Yaml_Node\<close>, \<open>Yaml_Edit\<close>, \<open>Manifest\<close>: \<^verbatim>\<open>internal/writeback/yaml.go\<close>. The node graph is an
    explicit store, since nodes are shared by pointer; edits are byte spans. The edits are
    surgical and independent of map order when their positions differ; and what is edited is what
    the configured fields lead to in the manifest as it was decoded (\<open>grown\<close> relates the heap
    while it is edited to that one, \<open>collecting\<close> carries the argument through the targets).
    That needs of the parser that every node has a place of its own (\<open>yheap_ok\<close>, \<open>keys_apart\<close>).
  \<^item> \<open>Conditions\<close>: \<^verbatim>\<open>meta.SetStatusCondition\<close>, with the locale of what a reader sees.
  \<^item> \<open>Git_Source\<close>, \<open>Http\<close>, \<open>Nix_Source\<close>, \<open>Oci_Source\<close>, \<open>Oci_Digest\<close>: \<^verbatim>\<open>internal/source\<close>.
    Revisions of tags, complete and unbounded listings, where requests and credentials go.
    Percent escaping and base64 are read back by reference decoders.
  \<^item> \<open>Temp_Dir\<close>, \<open>Writeback\<close>: \<^verbatim>\<open>internal/writeback/temp.go\<close> and \<^verbatim>\<open>git.go\<close>. The lock is held exactly
    when the preparation succeeds (\<open>lock_held\<close>: taken, and not released or closed since), only own
    interrupted clones are removed, temporaries go away, which credentials are used, and what a
    reported commit means.
  \<^item> \<open>Argocd\<close>, \<open>Ownership\<close>, \<open>Release\<close>, \<open>Secrets\<close>, \<open>Status_Report\<close>, \<open>Rollback\<close>, \<open>Reconcile\<close>:
    \<^verbatim>\<open>internal/controller/tagupdater_controller.go\<close> and \<^verbatim>\<open>image_digest.go\<close>, with
    \<^verbatim>\<open>internal/source/source.go\<close> as the record \<open>release_iface\<close> of methods and optional
    capabilities (locale \<open>release_source\<close>, interpreted for the three sources).
    \<open>Rollback\<close> is the state machine of a watch; \<open>Reconcile\<close> the handler as a sequence of stages,
    each of which goes on, returns the handler's two results, or ends abnormally.
  \<^item> \<open>Demo_World\<close>: a concrete environment for the examples. \<open>Controller\<close>: the properties of the
    whole handler on its calls, from the object that was read to the manifests written; a recorded
    release is left alone while nothing has changed.
  \<^item> \<open>Recorded\<close>: what the status records against what was applied, and what is applied against
    what the repository listed before, by a Hoare logic on the calls made so far (\<open>hist\<close>), with
    one lemma per stage. \<open>Reports\<close>: the same logic for the errors that a reconcile returns, against
    what the stored status says of them.
  \<^item> \<open>Ledger\<close>, \<open>Lifecycle\<close>: what a reconcile leaves behind, the tracker and the status updates.
    \<open>still\<close> marks the components that leave it alone, \<open>triple\<close> is a Hoare logic over it for the
    handler's own stages. The abstract watch machine (\<open>phase\<close>, \<open>watch_step\<close>) is refined by the
    status updates; progress is only counted for successes; no stage dereferences a missing part.
  \<^item> \<open>Service\<close>: the process, \<^verbatim>\<open>cmd/main.go\<close> and \<^verbatim>\<open>SetupWithManager\<close>. Start-up, the liveness
    checks and the requests in the order in which the manager hands them out; what its library
    answers is the parameter \<open>platform\<close>.

  \<^bold>\<open>How the parts interact.\<close> \<open>reconcile\<close> reads the object, then passes \<open>admit\<close> (static refusals),
  \<open>watch_gate\<close> (\<open>check_health\<close>, which may call \<open>do_rollback\<close>), \<open>check_configuration\<close>,
  \<open>select_release\<close> (a source and \<open>latest\<close>), \<open>gather_data\<close> (record, revision, digest),
  \<open>digest_guard\<close>, \<open>write_release\<close> (credentials, \<open>skip_clone\<close>, \<open>writer_apply\<close>, which runs
  \<open>update_manifest\<close> in a fresh clone) and \<open>record_success\<close>. Forward writes and rollbacks share the
  predicate \<open>pinned\<close> on what a writer may be given, and every stored object satisfies \<open>status_ok\<close>:
  this is proved by one \<open>ensures\<close> lemma per stage and by rule induction over \<open>stored\<close>, the objects
  that creation, edits of the specification and reconciles can lead to. The same lemmas show
  that every manifest written is the editor's output for such a writer, and that nothing but
  the process itself releases the lock on the temporary directory. \<open>controller_main\<close> takes the lock,
  configures the tracker, serves the requests by \<open>reconcile\<close> and releases the lock.

  \<^bold>\<open>Bounds.\<close> Two loops run on a counter. The page loop of a registry listing is unbounded in the
  code: \<open>env_patience\<close> is the number of pages the model follows, running out is the outcome
  \<open>Hang\<close>, a listing whose pages end is complete with that much patience, and a registry
  that never stops exhausts every patience. The attempts of a push are
  three, as in the code. All other recursion is structural or has a termination proof.

  \<^bold>\<open>Where the model is coarser than the code.\<close> A status update answers but does not change the
  object at hand: the API server's resource version and the truncation of \<^verbatim>\<open>metav1.Time\<close> to seconds
  are not modelled. Each method of the progress tracker and each use of an atomic integer is one step,
  as their locks make them; reconciles of different objects share the
  world only through those. The manager runs one worker, as it does by default, so requests follow
  one another, and recovers panics; a request that never returns is the last. Log lines are not modelled. Strings are byte sequences, and a
  context is never cancelled.

  \<^bold>\<open>Not modelled.\<close> The scheme registration in \<^verbatim>\<open>groupversion_info.go\<close>, the object metadata the
  program does not use, the Prometheus descriptor of the gauge, text templates
  (a parameter), the inside of controller-runtime and client-go (the manager, leader
  election, caches, watches), and vendored code, except for the few functions
  whose text the program depends on: \<^verbatim>\<open>SetStatusCondition\<close>, the \<^verbatim>\<open>unstructured.Nested...\<close>
  accessors, and go-git's selection of listed references and its rejection of a push.

  \<^bold>\<open>What modelling showed.\<close> Several theorems state behaviour that the comments of the code do not
  promise: a watch never expires while its application cannot be read; a failed and skipped tag
  can become the target of a later rollback; the report of an abandoned watch is overwritten
  within the same reconcile; a push that lost a race is not retried; an annotated tag resolves to
  its tag object; the host of an HTTPS repository is never extracted; mixed numbered and plain
  tags are selected by listing order; new manifest entries at one place come out in map order, and
  below an empty mapping they panic; a registry can keep a listing from returning.

  \<^bold>\<open>Plan.\<close> Sequences of reconciles against an API server that keeps what is stored (that a healthy
  release is eventually recorded once its sources answer), and round trips of the manifest editor
  through the parser.
\<close>

end
